(* ===== verification/Prelude.thy ===== *)
theory Prelude
  imports Complex_Main "HOL-Library.Multiset" "HOL-Library.Sublist"
begin

text \<open>
  What the components share and no component owns: the collections the component proofs
  draw on, C strings in fixed arrays, and a few facts about lists and about the division
  of signed integers as C++ performs it.
\<close>

named_theorems frame_simps
  \<open>which fields of a state an operation leaves alone\<close>
named_theorems wf_intros
  \<open>the well-formedness invariants and the operations that keep them\<close>

section \<open>Failures that leave a C++ function\<close>

text \<open>
  Exceptions of the program. A function that may throw returns \<open>cpp_exn + 'a\<close>. The text
  of an exception is kept where the code puts it in an error message.
\<close>

datatype cpp_exn =
    InvalidArgument string      \<comment> \<open>\<open>std::invalid_argument\<close>\<close>
  | RuntimeError string         \<comment> \<open>\<open>std::runtime_error\<close>\<close>
  | JsonTypeError               \<comment> \<open>thrown by \<open>nlohmann::json\<close>: wrong type, or invalid UTF-8 in \<open>dump\<close>\<close>
  | YamlBadConversion           \<comment> \<open>thrown by \<open>YAML::Node::as\<close>\<close>
  | NumberParseError            \<comment> \<open>\<open>std::stoul\<close>, \<open>std::stoi\<close>: no digits or out of range\<close>

section \<open>Characters and C strings\<close>

definition nul :: char where
  "nul = CHR 0x00"

definition c_str :: "char list \<Rightarrow> string" where
  \<comment> \<open>the string a \<open>const char *\<close> into the array denotes: everything before the first NUL\<close>
  "c_str buffer = takeWhile (\<lambda>c. c \<noteq> nul) buffer"

definition array_write :: "char list \<Rightarrow> string \<Rightarrow> char list" where
  \<comment> \<open>\<open>memcpy\<close> of the bytes followed by a terminating NUL, the rest of the array kept\<close>
  "array_write buffer bytes = bytes @ [nul] @ drop (Suc (length bytes)) buffer"

definition starts_with :: "string \<Rightarrow> string \<Rightarrow> bool" where
  "starts_with start text = (take (length start) text = start)"

lemma length_array_write [simp]:
  "length bytes < length buffer \<Longrightarrow> length (array_write buffer bytes) = length buffer"
  by (simp add: array_write_def)

lemma takeWhile_id: "(\<forall>x \<in> set xs. P x) \<Longrightarrow> takeWhile P xs = xs"
  by (simp add: takeWhile_eq_all_conv)

lemma c_str_array_write: "c_str (array_write buffer bytes) = c_str bytes"
proof (cases "\<forall>c \<in> set bytes. c \<noteq> nul")
  case True
  then show ?thesis
    by (auto simp: c_str_def array_write_def takeWhile_append2 takeWhile_id)
next
  case False
  then show ?thesis
    by (auto simp: c_str_def array_write_def intro: takeWhile_append1)
qed

lemma c_str_no_nul [simp]: "nul \<notin> set (c_str buffer)"
  by (auto simp: c_str_def dest: set_takeWhileD)

lemma c_str_id: "nul \<notin> set bytes \<Longrightarrow> c_str bytes = bytes"
  by (auto simp: c_str_def takeWhile_id)

lemma c_str_c_str [simp]: "c_str (c_str buffer) = c_str buffer"
  by (rule c_str_id) simp

lemma length_c_str_le: "length (c_str buffer) \<le> length buffer"
  by (simp add: c_str_def length_takeWhile_le)

section \<open>Lists\<close>

lemma map_nth_upt: "map (\<lambda>i. xs ! i) [0..<length xs] = xs"
  by (rule map_nth)

lemma map_upt_Suc_snoc: "map f [0..<Suc n] = map f [0..<n] @ [f n]"
  by simp

lemma map_upt_drop_first: "0 < n \<Longrightarrow> map f [0..<n] = f 0 # map (\<lambda>i. f (Suc i)) [0..<n - 1]"
  by (cases n) (simp_all add: map_upt_Suc del: upt_Suc)

text \<open>Removing the element at one position.\<close>

definition remove_nth :: "nat \<Rightarrow> 'a list \<Rightarrow> 'a list" where
  "remove_nth k xs = take k xs @ drop (Suc k) xs"

lemma length_remove_nth [simp]: "k < length xs \<Longrightarrow> length (remove_nth k xs) = length xs - 1"
  by (simp add: remove_nth_def)

lemma remove_nth_0 [simp]: "remove_nth 0 xs = tl xs"
  by (simp add: remove_nth_def drop_Suc)

lemma nth_remove_nth:
  "i < length xs - 1 \<Longrightarrow> k < length xs \<Longrightarrow>
   remove_nth k xs ! i = (if i < k then xs ! i else xs ! Suc i)"
  by (auto simp: remove_nth_def nth_append min_def)

lemma set_remove_nth_subset: "set (remove_nth k xs) \<subseteq> set xs"
  by (auto simp: remove_nth_def dest: in_set_takeD in_set_dropD)

lemma mset_remove_nth:
  assumes "k < length xs"
  shows "add_mset (xs ! k) (mset (remove_nth k xs)) = mset xs"
proof -
  have "mset xs = mset (take k xs @ xs ! k # drop (Suc k) xs)"
    using id_take_nth_drop [OF assms] by simp
  then show ?thesis by (simp add: remove_nth_def)
qed

lemma subseq_remove_nth: "subseq (remove_nth k xs) xs"
proof -
  have "subseq (drop (Suc k) xs) (drop k xs)"
    using suffix_drop [of 1 "drop k xs"] by (simp add: suffix_imp_subseq)
  then have "subseq (take k xs @ drop (Suc k) xs) (take k xs @ drop k xs)"
    by (intro list_emb_append_mono subseq_order.refl)
  then show ?thesis by (simp add: remove_nth_def)
qed

section \<open>Signed division towards zero\<close>

text \<open>
  C++ rounds the quotient of signed integers towards zero; \<open>div\<close> on \<open>int\<close> rounds down.
\<close>

definition c_div :: "int \<Rightarrow> int \<Rightarrow> int" where
  "c_div a b = (if 0 \<le> a then a div b else - ((- a) div b))"

lemma c_div_nonneg [simp]: "0 \<le> a \<Longrightarrow> c_div a b = a div b"
  by (simp add: c_div_def)

lemma c_div_mult [simp]:
  assumes "b \<noteq> 0"
  shows "c_div (k * b) b = k"
proof -
  have "- (k * b) = (- k) * b" by simp
  then have "(- (k * b)) div b = - k" using assms by (metis nonzero_mult_div_cancel_right)
  then show ?thesis using assms by (simp add: c_div_def)
qed

lemma c_div_mult_bounds:
  assumes "0 < b"
  shows "\<bar>a - c_div a b * b\<bar> < b"
proof (cases "0 \<le> a")
  case True
  have "a - a div b * b = a mod b" by (simp add: minus_div_mult_eq_mod)
  with True assms show ?thesis by simp
next
  case False
  have "- a - (- a) div b * b = (- a) mod b" by (simp add: minus_div_mult_eq_mod)
  moreover have "0 \<le> (- a) mod b" "(- a) mod b < b" using assms by simp_all
  ultimately show ?thesis using False by (simp add: c_div_def)
qed

end
