(* ===== verification/Ieee754.thy ===== *)
theory Ieee754
  imports Prelude
begin

text \<open>
  The floating-point values of C++: \<open>double\<close> (binary64) and \<open>float\<close> (binary32), round to
  nearest, ties to even. A finite value is the rational number it denotes; the two zeros
  are one value here, since no operation of the program tells them apart. Every operation
  computes the exact result and rounds it once, so all of them execute.
\<close>

section \<open>Values and rounding\<close>

datatype fp = NaN | PosInf | NegInf | Fin rat

type_synonym double = fp
type_synonym float = fp

definition round_half_even :: "rat \<Rightarrow> int" where
  "round_half_even x =
     (let n = \<lfloor>x\<rfloor>; r = x - of_int n
      in if r < 1 / 2 then n
         else if 1 / 2 < r then n + 1
         else if even n then n else n + 1)"

fun bit_len :: "int \<Rightarrow> int" where
  \<comment> \<open>the number of binary digits of a positive integer\<close>
  "bit_len n = (if n \<le> 0 then 0 else bit_len (n div 2) + 1)"

declare bit_len.simps [simp del]

definition flog2 :: "rat \<Rightarrow> int" where
  \<comment> \<open>the binary exponent of a positive rational\<close>
  "flog2 x =
     (let (p, q) = quotient_of x;
          k = bit_len p - bit_len q
      in if 2 powi k \<le> x then k else k - 1)"

definition quantum :: "nat \<Rightarrow> int \<Rightarrow> rat \<Rightarrow> int" where
  \<comment> \<open>exponent of the unit in the last place: precision \<open>p\<close>, least exponent \<open>qmin\<close>\<close>
  "quantum p qmin x = max (flog2 x - int p + 1) qmin"

definition round_mag :: "nat \<Rightarrow> int \<Rightarrow> rat \<Rightarrow> rat" where
  "round_mag p qmin x =
     (let q = 2 powi quantum p qmin x in of_int (round_half_even (x / q)) * q)"

definition fp_round :: "nat \<Rightarrow> int \<Rightarrow> int \<Rightarrow> rat \<Rightarrow> fp" where
  "fp_round p qmin emax x =
     (if x = 0 then Fin 0
      else let r = round_mag p qmin \<bar>x\<bar>
           in if emax \<le> flog2 r then (if x < 0 then NegInf else PosInf)
              else Fin (if x < 0 then - r else r))"

definition d64 :: "rat \<Rightarrow> double" where
  "d64 = fp_round 53 (- 1074) 1024"

definition f32 :: "rat \<Rightarrow> float" where
  "f32 = fp_round 24 (- 149) 128"

section \<open>Operations of \<open>double\<close> the program uses\<close>

fun d_neg :: "double \<Rightarrow> double" where
  "d_neg NaN = NaN"
| "d_neg PosInf = NegInf"
| "d_neg NegInf = PosInf"
| "d_neg (Fin x) = Fin (- x)"

fun d_abs :: "double \<Rightarrow> double" where
  "d_abs NaN = NaN"
| "d_abs (Fin x) = Fin \<bar>x\<bar>"
| "d_abs _ = PosInf"

fun d_add :: "double \<Rightarrow> double \<Rightarrow> double" where
  "d_add NaN _ = NaN"
| "d_add _ NaN = NaN"
| "d_add PosInf NegInf = NaN"
| "d_add NegInf PosInf = NaN"
| "d_add PosInf _ = PosInf"
| "d_add _ PosInf = PosInf"
| "d_add NegInf _ = NegInf"
| "d_add _ NegInf = NegInf"
| "d_add (Fin x) (Fin y) = d64 (x + y)"

definition d_sub :: "double \<Rightarrow> double \<Rightarrow> double" where
  "d_sub x y = d_add x (d_neg y)"

definition signed_inf :: "rat \<Rightarrow> double" where
  "signed_inf x = (if x = 0 then NaN else if x < 0 then NegInf else PosInf)"

fun d_mul :: "double \<Rightarrow> double \<Rightarrow> double" where
  "d_mul (Fin x) (Fin y) = d64 (x * y)"
| "d_mul NaN _ = NaN"
| "d_mul _ NaN = NaN"
| "d_mul (Fin x) PosInf = signed_inf x"
| "d_mul (Fin x) NegInf = d_neg (signed_inf x)"
| "d_mul PosInf (Fin y) = signed_inf y"
| "d_mul NegInf (Fin y) = d_neg (signed_inf y)"
| "d_mul PosInf PosInf = PosInf"
| "d_mul NegInf NegInf = PosInf"
| "d_mul PosInf NegInf = NegInf"
| "d_mul NegInf PosInf = NegInf"

fun d_div :: "double \<Rightarrow> double \<Rightarrow> double" where
  \<comment> \<open>a zero divisor counts as \<open>+0.0\<close>; the program divides by non-zero values only\<close>
  "d_div (Fin x) (Fin y) = (if y = 0 then signed_inf x else d64 (x / y))"
| "d_div NaN _ = NaN"
| "d_div _ NaN = NaN"
| "d_div (Fin x) _ = Fin 0"
| "d_div PosInf (Fin y) = (if y < 0 then NegInf else PosInf)"
| "d_div NegInf (Fin y) = (if y < 0 then PosInf else NegInf)"
| "d_div _ _ = NaN"

fun d_less :: "double \<Rightarrow> double \<Rightarrow> bool" where
  \<comment> \<open>the C++ \<open>x < y\<close>: false as soon as one side is NaN\<close>
  "d_less (Fin x) (Fin y) = (x < y)"
| "d_less NegInf (Fin _) = True"
| "d_less NegInf PosInf = True"
| "d_less (Fin _) PosInf = True"
| "d_less _ _ = False"

definition d_less_eq :: "double \<Rightarrow> double \<Rightarrow> bool" where
  "d_less_eq x y = (d_less x y \<or> (x = y \<and> x \<noteq> NaN))"

fun d_is_finite :: "double \<Rightarrow> bool" where
  "d_is_finite (Fin _) = True"
| "d_is_finite _ = False"

definition trunc_rat :: "rat \<Rightarrow> int" where
  "trunc_rat x = (if 0 \<le> x then \<lfloor>x\<rfloor> else \<lceil>x\<rceil>)"

fun d_to_int64 :: "double \<Rightarrow> int option" where
  \<comment> \<open>\<open>static_cast<std::int64_t>\<close>: towards zero; undefined behaviour (\<open>None\<close>) out of range\<close>
  "d_to_int64 (Fin x) =
     (let n = trunc_rat x in if - (2 ^ 63) \<le> n \<and> n < 2 ^ 63 then Some n else None)"
| "d_to_int64 _ = None"

definition f_div :: "float \<Rightarrow> rat \<Rightarrow> float" where
  \<comment> \<open>division of a \<open>float\<close> by a finite non-zero constant\<close>
  "f_div x c = (case x of Fin r \<Rightarrow> f32 (r / c) | _ \<Rightarrow> x)"

section \<open>Rounding to an integer\<close>

lemma round_half_even_of_int [simp]: "round_half_even (of_int n) = n"
  by (simp add: round_half_even_def)

lemma round_half_even_cases: "round_half_even x = \<lfloor>x\<rfloor> \<or> round_half_even x = \<lfloor>x\<rfloor> + 1"
  by (auto simp: round_half_even_def Let_def)

lemma round_half_even_error: "\<bar>x - of_int (round_half_even x)\<bar> \<le> 1 / 2"
proof -
  define n where "n = \<lfloor>x\<rfloor>"
  have "of_int n \<le> x" "x < of_int n + 1" unfolding n_def by linarith+
  then show ?thesis by (auto simp: round_half_even_def Let_def abs_if n_def [symmetric])
qed

lemma round_half_even_mono:
  assumes "x \<le> y"
  shows "round_half_even x \<le> round_half_even y"
proof (cases "\<lfloor>x\<rfloor> = \<lfloor>y\<rfloor>")
  case True
  then show ?thesis using assms by (auto simp: round_half_even_def Let_def)
next
  case False
  with assms have "\<lfloor>x\<rfloor> + 1 \<le> \<lfloor>y\<rfloor>" using floor_mono [OF assms] by linarith
  then show ?thesis using round_half_even_cases [of x] round_half_even_cases [of y] by linarith
qed

section \<open>The binary exponent\<close>

lemma powi2_pos [simp]: "(0::rat) < 2 powi n"
  by (rule zero_less_power_int) simp

lemma powi2_add: "(2::rat) powi (m + n) = 2 powi m * 2 powi n"
  by (rule power_int_add) simp

lemma powi2_less_iff: "(2::rat) powi m < 2 powi n \<longleftrightarrow> m < n"
proof
  assume "(2::rat) powi m < 2 powi n"
  then show "m < n" using power_int_increasing [of n m "2::rat"] by force
next
  assume "m < n"
  then show "(2::rat) powi m < 2 powi n" by (rule power_int_strict_increasing) simp
qed

lemma powi2_le_iff: "(2::rat) powi m \<le> 2 powi n \<longleftrightarrow> m \<le> n"
  using powi2_less_iff [of n m] by (simp add: not_less [symmetric])

lemma powi2_quotient_int:
  assumes "m \<le> n"
  shows "(2::rat) powi n / 2 powi m = of_int (2 ^ nat (n - m))"
proof -
  have "(2::rat) powi n = 2 powi (n - m) * 2 powi m"
    by (simp add: powi2_add [symmetric])
  then show ?thesis using assms by (simp add: power_int_nonneg_exp)
qed

lemma bit_len_bounds:
  "0 < n \<Longrightarrow> 2 powi (bit_len n - 1) \<le> (of_int n :: rat) \<and> (of_int n :: rat) < 2 powi bit_len n"
proof (induction n rule: bit_len.induct)
  case (1 n)
  have len: "bit_len n = bit_len (n div 2) + 1" using "1.prems" by (simp add: bit_len.simps [of n])
  show ?case
  proof (cases "n div 2 = 0")
    case True
    with "1.prems" have "n = 1" by linarith
    with True show ?thesis by (simp add: bit_len.simps [of 1] bit_len.simps [of 0])
  next
    case False
    define k where "k = bit_len (n div 2)"
    have "0 < n div 2" using False "1.prems" by linarith
    with "1.IH" "1.prems"
    have IH: "2 powi (k - 1) \<le> (of_int (n div 2) :: rat)" "(of_int (n div 2) :: rat) < 2 powi k"
      by (simp_all add: k_def)
    have lo: "(of_int (2 * (n div 2)) :: rat) \<le> of_int n" by (simp only: of_int_le_iff)
    have "0 \<le> k"
    proof -
      have "(1::rat) \<le> of_int (n div 2)" using \<open>0 < n div 2\<close> by simp
      then have "(2::rat) powi 0 < 2 powi k" using IH(2) by simp
      then show ?thesis by (simp only: powi2_less_iff)
    qed
    then obtain m where k: "k = int m" using nonneg_int_cases by blast
    have "(of_int (n div 2) :: rat) < of_int (2 ^ m)" using IH(2) by (simp add: k)
    then have "n div 2 < 2 ^ m" by (simp only: of_int_less_iff)
    then have "n < 2 * 2 ^ m" by linarith
    then have "(of_int n :: rat) < of_int (2 * 2 ^ m)" by (simp only: of_int_less_iff)
    then have hi: "(of_int n :: rat) < 2 * 2 powi k" by (simp add: k)
    show ?thesis using IH(1) lo hi powi2_add [of 1 "k - 1"] powi2_add [of k 1]
      by (simp add: len k_def [symmetric])
  qed
qed

lemma flog2_bounds:
  assumes "0 < x"
  shows "2 powi flog2 x \<le> x" and "x < 2 powi (flog2 x + 1)"
proof -
  obtain p q where pq: "quotient_of x = (p, q)" by fastforce
  have q: "0 < q" using quotient_of_denom_pos [OF pq] .
  have x: "x = of_int p / of_int q" using quotient_of_div [OF pq] .
  have p: "0 < p" using assms q x by (simp add: zero_less_divide_iff)
  define a b where "a = bit_len p" and "b = bit_len q"
  have pb: "2 powi (a - 1) \<le> (of_int p :: rat)" "(of_int p :: rat) < 2 powi a"
    using bit_len_bounds [OF p] by (simp_all add: a_def)
  have qb: "2 powi (b - 1) \<le> (of_int q :: rat)" "(of_int q :: rat) < 2 powi b"
    using bit_len_bounds [OF q] by (simp_all add: b_def)
  have qpos: "(0::rat) < of_int q" using q by simp
  have fl: "flog2 x = (if 2 powi (a - b) \<le> x then a - b else a - b - 1)"
    by (simp add: flog2_def pq a_def b_def)
  have hi: "x < 2 powi (a - b + 1)"
  proof -
    have "(2::rat) powi a = 2 powi (a - b + 1) * 2 powi (b - 1)"
      by (simp add: powi2_add [symmetric])
    also have "\<dots> \<le> 2 powi (a - b + 1) * of_int q"
      using qb(1) by (rule mult_left_mono) (simp add: less_imp_le)
    finally have "(of_int p :: rat) < 2 powi (a - b + 1) * of_int q" using pb(2) by simp
    then show ?thesis using qpos x by (simp add: pos_divide_less_eq)
  qed
  have lo: "2 powi (a - b - 1) \<le> x"
  proof -
    have "2 powi (a - b - 1) * (of_int q :: rat) \<le> 2 powi (a - b - 1) * 2 powi b"
      using qb(2) by (intro mult_left_mono) (simp_all add: less_imp_le)
    also have "\<dots> = 2 powi (a - 1)" by (simp add: powi2_add [symmetric])
    finally have "2 powi (a - b - 1) * (of_int q :: rat) \<le> of_int p" using pb(1) by simp
    then show ?thesis using qpos x by (simp add: pos_le_divide_eq)
  qed
  show "2 powi flog2 x \<le> x" using fl lo by auto
  show "x < 2 powi (flog2 x + 1)" using fl hi by auto
qed

lemma flog2_less: "0 < x \<Longrightarrow> flog2 x < n \<longleftrightarrow> x < 2 powi n"
proof
  assume "0 < x" "flog2 x < n"
  then have "x < 2 powi (flog2 x + 1)" "(2::rat) powi (flog2 x + 1) \<le> 2 powi n"
    using flog2_bounds(2) by (simp_all add: powi2_le_iff)
  then show "x < 2 powi n" by simp
next
  assume "0 < x" "x < 2 powi n"
  then have "2 powi flog2 x < (2::rat) powi n" using flog2_bounds(1) [of x] by simp
  then show "flog2 x < n" by (simp only: powi2_less_iff)
qed

lemma flog2_mono:
  assumes "0 < x" "x \<le> y"
  shows "flog2 x \<le> flog2 y"
  using assms flog2_less [of x "flog2 y + 1"] flog2_bounds(2) [of y] by simp

section \<open>Rounding a magnitude\<close>

lemma quantum_mono: "0 < x \<Longrightarrow> x \<le> y \<Longrightarrow> quantum p qmin x \<le> quantum p qmin y"
  using flog2_mono [of x y] by (simp add: quantum_def)

lemma round_mag_ge_powi:
  \<comment> \<open>a power of two that is a multiple of the quantum and bounds \<open>x\<close> below bounds its rounding\<close>
  assumes "2 powi m \<le> x" "quantum p qmin x \<le> m"
  shows "2 powi m \<le> round_mag p qmin x"
proof -
  define q where "q = quantum p qmin x"
  have "of_int (2 ^ nat (m - q)) \<le> x / 2 powi q"
    using assms by (subst powi2_quotient_int [symmetric]) (simp_all add: q_def divide_right_mono less_imp_le)
  then have "2 ^ nat (m - q) \<le> round_half_even (x / 2 powi q)"
    using round_half_even_mono [of "of_int (2 ^ nat (m - q))" "x / 2 powi q"]
    by (simp only: round_half_even_of_int)
  then have "(of_int (2 ^ nat (m - q)) :: rat) \<le> of_int (round_half_even (x / 2 powi q))"
    by (simp only: of_int_le_iff)
  then have "2 powi m / 2 powi q \<le> (of_int (round_half_even (x / 2 powi q)) :: rat)"
    using powi2_quotient_int [of q m] assms(2) by (simp add: q_def)
  then show ?thesis by (simp add: round_mag_def Let_def q_def [symmetric] pos_divide_le_eq)
qed

lemma round_mag_le_powi:
  assumes "x \<le> 2 powi m" "quantum p qmin x \<le> m"
  shows "round_mag p qmin x \<le> 2 powi m"
proof -
  define q where "q = quantum p qmin x"
  have "x / 2 powi q \<le> of_int (2 ^ nat (m - q))"
    using assms by (subst powi2_quotient_int [symmetric]) (simp_all add: q_def divide_right_mono less_imp_le)
  then have "round_half_even (x / 2 powi q) \<le> 2 ^ nat (m - q)"
    using round_half_even_mono [of "x / 2 powi q" "of_int (2 ^ nat (m - q))"]
    by (simp only: round_half_even_of_int)
  then have "(of_int (round_half_even (x / 2 powi q)) :: rat) \<le> of_int (2 ^ nat (m - q))"
    by (simp only: of_int_le_iff)
  then have "(of_int (round_half_even (x / 2 powi q)) :: rat) \<le> 2 powi m / 2 powi q"
    using powi2_quotient_int [of q m] assms(2) by (simp add: q_def)
  then show ?thesis by (simp add: round_mag_def Let_def q_def [symmetric] pos_le_divide_eq)
qed

lemma round_mag_mono:
  assumes "0 < x" "x \<le> y" "0 < p"
  shows "round_mag p qmin x \<le> round_mag p qmin y"
proof (cases "quantum p qmin x = quantum p qmin y")
  case True
  have "round_half_even (x / 2 powi quantum p qmin y) \<le> round_half_even (y / 2 powi quantum p qmin y)"
    using assms(2) by (intro round_half_even_mono divide_right_mono) (simp_all add: less_imp_le)
  then show ?thesis using True by (simp add: round_mag_def Let_def mult_right_mono less_imp_le)
next
  case False
  then have q: "quantum p qmin x < quantum p qmin y"
    using quantum_mono [OF assms(1,2), of p qmin] by simp
  then have qy: "quantum p qmin y = flog2 y - int p + 1" by (auto simp: quantum_def)
  have fl: "flog2 x < flog2 y" using q qy by (auto simp: quantum_def)
  have "0 < y" using assms by simp
  have "x \<le> 2 powi flog2 y" using fl flog2_less [OF assms(1)] by (simp add: less_imp_le)
  then have "round_mag p qmin x \<le> 2 powi flog2 y"
    by (rule round_mag_le_powi) (use q qy assms(3) in simp)
  also have "\<dots> \<le> round_mag p qmin y"
    using flog2_bounds(1) [OF \<open>0 < y\<close>] by (rule round_mag_ge_powi) (use qy assms(3) in simp)
  finally show ?thesis .
qed

lemma round_mag_error:
  "\<bar>x - round_mag p qmin x\<bar> \<le> 2 powi (quantum p qmin x - 1)"
proof -
  define q where "q = quantum p qmin x"
  have "x - round_mag p qmin x
      = (x / 2 powi q - of_int (round_half_even (x / 2 powi q))) * 2 powi q"
    by (simp add: round_mag_def Let_def q_def [symmetric] left_diff_distrib)
  then have "\<bar>x - round_mag p qmin x\<bar>
      = \<bar>x / 2 powi q - of_int (round_half_even (x / 2 powi q))\<bar> * 2 powi q"
    by (simp add: abs_mult less_imp_le)
  also have "\<dots> \<le> 1 / 2 * 2 powi q"
    by (intro mult_right_mono round_half_even_error) (simp add: less_imp_le)
  also have "\<dots> = 2 powi (q - 1)" using powi2_add [of "q - 1" 1] by simp
  finally show ?thesis by (simp add: q_def)
qed

lemma round_mag_nonneg: "0 \<le> x \<Longrightarrow> 0 \<le> round_mag p qmin x"
  using round_half_even_mono [of 0 "x / 2 powi quantum p qmin x"] round_half_even_of_int [of 0]
  by (simp add: round_mag_def Let_def less_imp_le)

section \<open>\<open>double\<close> results\<close>

lemma flog2_0: "flog2 0 = - 2"
  by (simp add: flog2_def bit_len.simps [of 0] bit_len.simps [of 1])

lemma d64_finite:
  assumes "0 < x" "x \<le> 2 powi m" "- 1074 \<le> m" "m \<le> 1023"
  shows "d64 x = Fin (round_mag 53 (- 1074) x)" and "round_mag 53 (- 1074) x \<le> 2 powi m"
proof -
  have "flog2 x \<le> m"
  proof -
    have "x < 2 powi (m + 1)" using assms(2) powi2_less_iff [of m "m + 1"] by simp
    then show ?thesis using flog2_less [OF assms(1), of "m + 1"] by simp
  qed
  then have "quantum 53 (- 1074) x \<le> m" using assms(3) by (simp add: quantum_def)
  with assms(2) show le: "round_mag 53 (- 1074) x \<le> 2 powi m" by (rule round_mag_le_powi)
  have "flog2 (round_mag 53 (- 1074) x) < 1024"
  proof (cases "round_mag 53 (- 1074) x = 0")
    case False
    then have "0 < round_mag 53 (- 1074) x" using round_mag_nonneg [of x 53 "- 1074"] assms(1) by simp
    moreover have "round_mag 53 (- 1074) x < 2 powi 1024"
      using le powi2_less_iff [of m 1024] assms(4) by simp
    ultimately show ?thesis by (simp only: flog2_less)
  qed (simp add: flog2_0)
  then show "d64 x = Fin (round_mag 53 (- 1074) x)"
    using assms(1) by (simp add: d64_def fp_round_def)
qed

lemma d64_error:
  assumes "2 powi (- 1022) \<le> x"
  shows "\<bar>x - round_mag 53 (- 1074) x\<bar> \<le> x * 2 powi (- 53)"
proof -
  have x: "0 < x" using assms powi2_pos [of "- 1022"] by linarith
  have "(2::rat) powi (- 1022) < 2 powi (flog2 x + 1)" using assms flog2_bounds(2) [OF x] by linarith
  then have "- 1022 < flog2 x + 1" by (simp only: powi2_less_iff)
  then have q: "quantum 53 (- 1074) x = flog2 x - 52" by (simp add: quantum_def)
  have "\<bar>x - round_mag 53 (- 1074) x\<bar> \<le> 2 powi (flog2 x + (- 53))"
    using round_mag_error [of x 53 "- 1074"] by (simp add: q)
  also have "\<dots> = 2 powi flog2 x * 2 powi (- 53)" by (rule powi2_add)
  also have "\<dots> \<le> x * 2 powi (- 53)" using flog2_bounds(1) [OF x] by (rule mult_right_mono) simp
  finally show ?thesis .
qed

text \<open>Rounding stays between two values of the format.\<close>

lemma d64_between:
  assumes "0 < lo" "lo \<le> x" "x \<le> hi" "d64 lo = Fin lo" "d64 hi = Fin hi" "hi \<le> 2 powi 1023"
  shows "\<exists>r. d64 x = Fin r \<and> lo \<le> r \<and> r \<le> hi"
proof -
  have r: "d64 y = Fin (round_mag 53 (- 1074) y)" if "0 < y" "y \<le> hi" for y
    using d64_finite(1) [of y 1023] that assms(6) by simp
  have "round_mag 53 (- 1074) lo = lo" "round_mag 53 (- 1074) hi = hi"
    using r [of lo] r [of hi] assms by simp_all
  then show ?thesis
    using r [of x] round_mag_mono [of lo x 53 "- 1074"] round_mag_mono [of x hi 53 "- 1074"] assms by simp
qed

lemma d64_neg: "d64 (- x) = d_neg (d64 x)"
  by (auto simp: d64_def fp_round_def Let_def)

lemma d64_abs_le:
  assumes "\<bar>x\<bar> \<le> hi" "0 < hi" "d64 hi = Fin hi" "hi \<le> 2 powi 1023"
  shows "\<exists>r. d64 x = Fin r \<and> \<bar>r\<bar> \<le> hi"
proof -
  have pos: "\<exists>r. d64 y = Fin r \<and> \<bar>r\<bar> \<le> hi" if "0 < y" "y \<le> hi" for y
  proof -
    have "d64 y = Fin (round_mag 53 (- 1074) y)" "d64 hi = Fin (round_mag 53 (- 1074) hi)"
      using d64_finite(1) [of y 1023] d64_finite(1) [of hi 1023] that assms by simp_all
    then show ?thesis using round_mag_mono [of y hi 53 "- 1074"] round_mag_nonneg [of y 53 "- 1074"] that assms(3)
      by simp
  qed
  consider "x = 0" | "0 < x" | "0 < - x" by linarith
  then show ?thesis
  proof cases
    case 1
    then show ?thesis using assms(2) by (simp add: d64_def fp_round_def)
  next
    case 2
    then show ?thesis using pos [of x] assms(1) by simp
  next
    case 3
    then obtain r where "d64 (- x) = Fin r" "\<bar>r\<bar> \<le> hi" using pos [of "- x"] assms(1) by auto
    then show ?thesis using d64_neg [of "- x"] by simp
  qed
qed

lemma trunc_rat_nonneg: "0 \<le> x \<Longrightarrow> trunc_rat x = \<lfloor>x\<rfloor>"
  by (simp add: trunc_rat_def)

end
