(* ===== verification/Telemetry.thy ===== *)
theory Telemetry
  imports Ieee754
begin

text \<open>
  The data every component passes along: \<open>include/bossa/telemetry/channel.hpp\<close>,
  \<open>sample.hpp\<close> and \<open>stored_sample.hpp\<close>. Times of \<open>std::chrono::system_clock\<close> and
  \<open>std::chrono::steady_clock\<close> are nanosecond counts (\<open>int\<close>); the fixed \<open>char\<close> arrays of a
  \<open>StoredSample\<close> are character lists of their size.
\<close>

section \<open>Enumerations\<close>

datatype priority = KLow | KNormal | KCritical

datatype sync_mode = KBatch | KRealtime | KOnChange

datatype sample_quality = KGood | KUncertain | KBad

fun priority_code :: "priority \<Rightarrow> nat" where
  \<comment> \<open>\<open>static_cast<std::uint8_t>(priority)\<close>\<close>
  "priority_code KLow = 0"
| "priority_code KNormal = 1"
| "priority_code KCritical = 2"

text \<open>Priorities are compared by their code, as \<open>RingBuffer::enqueue\<close> does.\<close>

instantiation priority :: linorder
begin
definition less_eq_priority :: "priority \<Rightarrow> priority \<Rightarrow> bool" where
  "less_eq_priority p q = (priority_code p \<le> priority_code q)"
definition less_priority :: "priority \<Rightarrow> priority \<Rightarrow> bool" where
  "less_priority p q = (priority_code p < priority_code q)"
instance
proof
  fix p q r :: priority
  show "(p < q) = (p \<le> q \<and> \<not> q \<le> p)" by (auto simp: less_eq_priority_def less_priority_def)
  show "p \<le> p" by (simp add: less_eq_priority_def)
  show "p \<le> q \<Longrightarrow> q \<le> r \<Longrightarrow> p \<le> r" by (simp add: less_eq_priority_def)
  show "p \<le> q \<Longrightarrow> q \<le> p \<Longrightarrow> p = q" by (cases p; cases q) (simp_all add: less_eq_priority_def)
  show "p \<le> q \<or> q \<le> p" by (auto simp: less_eq_priority_def)
qed
end

lemmas priority_order = less_eq_priority_def less_priority_def

section \<open>Samples\<close>

record sample =
  sa_channel_id :: string
  sa_value :: double
  sa_timestamp :: int
  sa_unit :: string
  sa_quality :: sample_quality

definition sample_default :: sample where
  "sample_default =
     \<lparr>sa_channel_id = [], sa_value = Fin 0, sa_timestamp = 0, sa_unit = [], sa_quality = KGood\<rparr>"

definition kMaxChannelIdLength :: nat where
  "kMaxChannelIdLength = 63"

definition kMaxUnitLength :: nat where
  "kMaxUnitLength = 31"

record stored_sample =
  ss_channel_id :: "char list"
  ss_unit :: "char list"
  ss_value :: double
  ss_timestamp :: int
  ss_quality :: sample_quality
  ss_priority :: priority

definition stored_sample_default :: stored_sample where
  \<comment> \<open>value-initialised: both arrays hold zero bytes\<close>
  "stored_sample_default =
     \<lparr>ss_channel_id = replicate (kMaxChannelIdLength + 1) nul,
      ss_unit = replicate (kMaxUnitLength + 1) nul,
      ss_value = Fin 0, ss_timestamp = 0, ss_quality = KGood, ss_priority = KNormal\<rparr>"

definition copy_truncated :: "char list \<Rightarrow> nat \<Rightarrow> string \<Rightarrow> char list" where
  "copy_truncated destination capacity source =
     (if capacity = 0 then destination
      else let copy_length = (if length source < capacity - 1 then length source else capacity - 1);
               copied = (if 0 < copy_length
                         then take copy_length source @ drop copy_length destination
                         else destination)
           in copied[copy_length := nul])"

definition from_sample :: "sample \<Rightarrow> priority \<Rightarrow> stored_sample" where
  "from_sample s sample_priority =
     (let stored = stored_sample_default;
          stored = stored\<lparr>ss_channel_id := copy_truncated (ss_channel_id stored)
                            (length (ss_channel_id stored)) (sa_channel_id s)\<rparr>;
          stored = stored\<lparr>ss_unit := copy_truncated (ss_unit stored)
                            (length (ss_unit stored)) (sa_unit s)\<rparr>
      in stored\<lparr>ss_value := sa_value s, ss_timestamp := sa_timestamp s,
                ss_quality := sa_quality s, ss_priority := sample_priority\<rparr>)"

section \<open>Well-formed stored samples\<close>

definition wf_stored :: "stored_sample \<Rightarrow> bool" where
  \<comment> \<open>both arrays have their declared size and hold a terminated C string\<close>
  "wf_stored s \<longleftrightarrow>
     length (ss_channel_id s) = kMaxChannelIdLength + 1 \<and> nul \<in> set (ss_channel_id s) \<and>
     length (ss_unit s) = kMaxUnitLength + 1 \<and> nul \<in> set (ss_unit s)"

lemma length_copy_truncated:
  "length destination = capacity \<Longrightarrow> length (copy_truncated destination capacity source) = capacity"
  by (auto simp: copy_truncated_def Let_def min_def)

lemma copy_truncated_array_write:
  assumes "length destination = capacity" "0 < capacity"
  shows "copy_truncated destination capacity source
         = array_write destination (take (capacity - 1) source)"
proof -
  define k where "k = min (length source) (capacity - 1)"
  have k: "k < length destination" using assms by (auto simp: k_def)
  have len: "length (take k source) = k" by (simp add: k_def)
  have "copy_truncated destination capacity source = (take k source @ drop k destination)[k := nul]"
    using assms by (auto simp: copy_truncated_def Let_def k_def min_def)
  also have "\<dots> = take k source @ nul # drop (Suc k) destination"
    using k len by (simp add: list_update_append Cons_nth_drop_Suc [symmetric])
  also have "\<dots> = array_write destination (take k source)"
    by (simp only: array_write_def len append_Cons append_Nil)
  finally show ?thesis by (simp add: k_def min_def split: if_splits)
qed

lemma c_str_copy_truncated:
  "length destination = capacity \<Longrightarrow> 0 < capacity \<Longrightarrow>
   c_str (copy_truncated destination capacity source) = c_str (take (capacity - 1) source)"
  by (simp add: copy_truncated_array_write c_str_array_write)

lemma nul_in_copy_truncated:
  "length destination = capacity \<Longrightarrow> 0 < capacity \<Longrightarrow>
   nul \<in> set (copy_truncated destination capacity source)"
  by (simp add: copy_truncated_array_write array_write_def)

lemmas array_sizes = kMaxChannelIdLength_def kMaxUnitLength_def

lemma wf_stored_default [wf_intros]: "wf_stored stored_sample_default"
  by (simp add: wf_stored_def stored_sample_default_def array_sizes)

lemma wf_from_sample [wf_intros]: "wf_stored (from_sample s p)"
  by (simp add: wf_stored_def from_sample_def Let_def stored_sample_default_def
        length_copy_truncated nul_in_copy_truncated)

lemma from_sample_fields [simp]:
  "ss_value (from_sample s p) = sa_value s"
  "ss_timestamp (from_sample s p) = sa_timestamp s"
  "ss_quality (from_sample s p) = sa_quality s"
  "ss_priority (from_sample s p) = p"
  by (simp_all add: from_sample_def Let_def)

lemma from_sample_texts:
  "c_str (ss_channel_id (from_sample s p)) = c_str (take kMaxChannelIdLength (sa_channel_id s))"
  "c_str (ss_unit (from_sample s p)) = c_str (take kMaxUnitLength (sa_unit s))"
  by (simp_all add: from_sample_def Let_def stored_sample_default_def c_str_copy_truncated)

section \<open>Example data\<close>

text \<open>A sample of the given channel, priority and value, used by the witnesses.\<close>

definition ex_sample :: "string \<Rightarrow> priority \<Rightarrow> rat \<Rightarrow> stored_sample" where
  "ex_sample channel p v =
     from_sample (sample_default\<lparr>sa_channel_id := channel, sa_unit := ''celsius'', sa_value := Fin v\<rparr>) p"

end
