(* ===== verification/Interfaces.thy ===== *)
theory Interfaces
  imports Prelude
begin

text \<open>
  The contracts between components, each as a locale: the operations a client calls as its
  parameters, the laws it relies on as its assumptions. The client's loops are defined here
  over the operation they call, and what they compute is proved once from the laws; every
  locale is interpreted on the program's own operations in the theory of the component that
  provides them.
\<close>

section \<open>A bounded buffer with priorities\<close>

text \<open>
  What \<open>TelemetryRuntime\<close> needs of its sample buffer. \<open>contents\<close> lists the residents from
  the oldest to the newest, \<open>rank\<close> is the priority of an element.
\<close>

locale bounded_buffer =
  fixes enq :: "'a \<Rightarrow> 'q \<Rightarrow> bool \<times> 'q"
    and deq :: "'q \<Rightarrow> 'a option \<times> 'q"
    and contents :: "'q \<Rightarrow> 'a list"
    and room :: "'q \<Rightarrow> nat"
    and rank :: "'a \<Rightarrow> 'p::linorder"
    and invar :: "'q \<Rightarrow> bool"
  assumes invar_enq: "invar q \<Longrightarrow> invar (snd (enq x q))"
    and invar_deq: "invar q \<Longrightarrow> invar (snd (deq q))"
    and room_enq: "invar q \<Longrightarrow> room (snd (enq x q)) = room q"
    and room_deq: "invar q \<Longrightarrow> room (snd (deq q)) = room q"
    and contents_bound: "invar q \<Longrightarrow> length (contents q) \<le> room q"
    and enq_room: "invar q \<Longrightarrow> length (contents q) < room q \<Longrightarrow>
                   fst (enq x q) \<and> contents (snd (enq x q)) = contents q @ [x]"
    and enq_full_refused: "invar q \<Longrightarrow> length (contents q) = room q \<Longrightarrow>
                   \<forall>y \<in> set (contents q). rank x < rank y \<Longrightarrow>
                   \<not> fst (enq x q) \<and> contents (snd (enq x q)) = contents q"
    and enq_full_kept: "invar q \<Longrightarrow> length (contents q) = room q \<Longrightarrow>
                   y \<in> set (contents q) \<Longrightarrow> rank y \<le> rank x \<Longrightarrow>
                   fst (enq x q) \<and>
                   (\<exists>k < length (contents q).
                      contents (snd (enq x q)) = remove_nth k (contents q) @ [x] \<and>
                      (\<forall>z \<in> set (contents q). rank (contents q ! k) \<le> rank z))"
    and deq_empty: "invar q \<Longrightarrow> contents q = [] \<Longrightarrow> fst (deq q) = None \<and> contents (snd (deq q)) = []"
    and deq_first: "invar q \<Longrightarrow> contents q = x # xs \<Longrightarrow>
                   fst (deq q) = Some x \<and> contents (snd (deq q)) = xs"

text \<open>The draining loop of \<open>maybe_flush\<close>: dequeue until the batch is full or nothing is left.\<close>

function drain :: "('q \<Rightarrow> 'a option \<times> 'q) \<Rightarrow> nat \<Rightarrow> 'a list \<Rightarrow> 'q \<Rightarrow> 'a list \<times> 'q" where
  "drain dq max_batch batch q =
     (if length batch < max_batch
      then (case dq q of
              (None, q') \<Rightarrow> (batch, q')
            | (Some x, q') \<Rightarrow> drain dq max_batch (batch @ [x]) q')
      else (batch, q))"
  by pat_completeness auto
termination
  by (relation "measure (\<lambda>(dq, max_batch, batch, q). max_batch - length batch)") auto

declare drain.simps [simp del]

lemma drain_done [simp]: "n \<le> length batch \<Longrightarrow> drain dq n batch q = (batch, q)"
  by (simp add: drain.simps [of _ n batch q])

lemma drain_keeps:
  assumes "\<And>q. f (snd (dq q)) = f q"
  shows "f (snd (drain dq n batch q)) = f q"
  using assms
proof (induction dq n batch q rule: drain.induct)
  case (1 dq n batch q)
  obtain x q' where dq: "dq q = (x, q')" by fastforce
  have "f q' = f q" using "1.prems" [of q] dq by simp
  then show ?case using 1 dq by (cases x) (simp_all add: drain.simps [of dq n batch q])
qed

context bounded_buffer
begin

lemma enq_accepts:
  assumes "invar q"
  shows "fst (enq x q) \<longleftrightarrow> length (contents q) < room q \<or> (\<exists>y \<in> set (contents q). rank y \<le> rank x)"
proof (cases "length (contents q) < room q")
  case True
  then show ?thesis using enq_room [OF assms True] by simp
next
  case False
  then have full: "length (contents q) = room q" using contents_bound [OF assms] by simp
  show ?thesis
    using False enq_full_refused [OF assms full] enq_full_kept [OF assms full]
    by (meson not_less)
qed

lemma drain_contents:
  "invar q \<Longrightarrow> length batch \<le> n \<Longrightarrow>
   \<exists>q'. drain deq n batch q = (batch @ take (n - length batch) (contents q), q') \<and>
        invar q' \<and> room q' = room q \<and> contents q' = drop (n - length batch) (contents q)"
proof (induction "n - length batch" arbitrary: batch q)
  case 0
  then show ?case by simp
next
  case (Suc m)
  have less: "length batch < n" and step: "n - length batch = Suc (n - length (batch @ [x]))" for x
    using Suc.hyps(2) by simp_all
  obtain r q1 where dq: "deq q = (r, q1)" by fastforce
  have inv1: "invar q1" and room1: "room q1 = room q"
    using invar_deq [OF Suc.prems(1)] room_deq [OF Suc.prems(1)] dq by simp_all
  show ?case
  proof (cases "contents q")
    case Nil
    then have "r = None" "contents q1 = []" using deq_empty [OF Suc.prems(1)] dq by simp_all
    then show ?thesis using less Nil inv1 room1 dq by (simp add: drain.simps [of _ n batch q])
  next
    case (Cons x xs)
    then have r: "r = Some x" "contents q1 = xs" using deq_first [OF Suc.prems(1)] dq by simp_all
    have m: "m = n - length (batch @ [x])" using Suc.hyps(2) by simp
    obtain q' where "drain deq n (batch @ [x]) q1
          = ((batch @ [x]) @ take (n - length (batch @ [x])) (contents q1), q')"
        "invar q'" "room q' = room q1" "contents q' = drop (n - length (batch @ [x])) (contents q1)"
      using Suc.hyps(1) [of "batch @ [x]" q1] m inv1 less by (auto simp: Suc_le_eq)
    then show ?thesis using less dq r Cons room1 step [of x]
      by (simp add: drain.simps [of _ n batch q])
  qed
qed

lemma drain_all:
  assumes "invar q" "room q \<le> n"
  shows "\<exists>q'. drain deq n [] q = (contents q, q') \<and> invar q' \<and> room q' = room q \<and> contents q' = []"
  using drain_contents [of q "[]" n] contents_bound [OF assms(1)] assms by auto

end

section \<open>A schedule of channels to poll\<close>

text \<open>
  What the service loop needs of the scheduler: \<open>dispatch\<close> polls the channels that are due
  and moves them into the future, \<open>wake\<close> is the next moment with something to do. The polls
  act on a state of the client.
\<close>

locale poll_schedule =
  fixes dispatch :: "('c \<Rightarrow> 's \<Rightarrow> 's) \<Rightarrow> int \<Rightarrow> 'q \<Rightarrow> 's \<Rightarrow> (nat \<times> 'q \<times> 's) option"
    and due :: "int \<Rightarrow> 'q \<Rightarrow> 'c list"
    and wake :: "'q \<Rightarrow> int option"
    and invar :: "'q \<Rightarrow> bool"
  assumes dispatch_returns: "invar q \<Longrightarrow>
            \<exists>q'. dispatch poll now q st = Some (length (due now q), q', fold poll (due now q) st) \<and>
                 invar q' \<and> due now q' = []"
    and due_wake: "invar q \<Longrightarrow> due now q = [] \<longleftrightarrow> (\<forall>t. wake q = Some t \<longrightarrow> now < t)"
begin

text \<open>Polling twice at one instant polls nobody the second time.\<close>

lemma dispatch_twice:
  assumes "invar q" "dispatch poll now q st = Some (n, q', st')"
  shows "\<exists>q''. dispatch poll now q' st' = Some (0, q'', st')"
proof -
  obtain q1 where "dispatch poll now q st = Some (length (due now q), q1, fold poll (due now q) st)"
      "invar q1" "due now q1 = []"
    using dispatch_returns [OF assms(1), of poll now st] by blast
  then have q': "invar q'" "due now q' = []" using assms(2) by auto
  from dispatch_returns [OF q'(1), of poll now st'] q'(2) show ?thesis by auto
qed

text \<open>A service that sleeps until \<open>wake\<close> never spins: the next wake-up is in the future.\<close>

lemma wake_in_future:
  assumes "invar q" "dispatch poll now q st = Some (n, q', st')" "wake q' = Some t"
  shows "now < t"
proof -
  obtain q1 where "dispatch poll now q st = Some (length (due now q), q1, fold poll (due now q) st)"
      "invar q1" "due now q1 = []"
    using dispatch_returns [OF assms(1), of poll now st] by blast
  then show ?thesis using assms(2,3) due_wake by auto
qed

lemma dispatch_keeps_invar:
  "invar q \<Longrightarrow> dispatch poll now q st = Some (n, q', st') \<Longrightarrow> invar q'"
  using dispatch_returns [of q poll now st] by auto

end

section \<open>A persistent queue of uploads\<close>

text \<open>
  What the uploader needs of the offline store: rows with identifiers, appended at the end,
  read from the front without removing them, and removed one by one. Each call may fail.
  \<open>rows\<close> lists what is stored, oldest first; \<open>saved\<close> is what reading back a stored element
  gives.
\<close>

locale offline_queue =
  fixes put :: "'a \<Rightarrow> 's \<Rightarrow> bool \<times> 's"
    and peek :: "nat \<Rightarrow> 's \<Rightarrow> ('i \<times> 'a) list \<times> 's"
    and ack :: "'i \<Rightarrow> 's \<Rightarrow> bool \<times> 's"
    and rows :: "'s \<Rightarrow> ('i \<times> 'a) list"
    and saved :: "'a \<Rightarrow> 'a"
    and invar :: "'s \<Rightarrow> bool"
  assumes put_invar: "invar s \<Longrightarrow> invar (snd (put x s))"
    and put_ok: "invar s \<Longrightarrow> fst (put x s) \<Longrightarrow>
                   \<exists>i. i \<notin> fst ` set (rows s) \<and> rows (snd (put x s)) = rows s @ [(i, saved x)]"
    and put_failed: "invar s \<Longrightarrow> \<not> fst (put x s) \<Longrightarrow> rows (snd (put x s)) = rows s"
    and peek_invar: "invar s \<Longrightarrow> invar (snd (peek n s))"
    and peek_rows: "invar s \<Longrightarrow> rows (snd (peek n s)) = rows s"
    and peek_front: "invar s \<Longrightarrow> \<exists>k \<le> n. fst (peek n s) = take k (rows s)"
    and ack_invar: "invar s \<Longrightarrow> invar (snd (ack i s))"
    and ack_ok: "invar s \<Longrightarrow> fst (ack i s) \<Longrightarrow> rows (snd (ack i s)) = filter (\<lambda>r. fst r \<noteq> i) (rows s)"
    and ack_failed: "invar s \<Longrightarrow> \<not> fst (ack i s) \<Longrightarrow> rows (snd (ack i s)) = rows s"

text \<open>The loops of \<open>persist_all\<close> and \<open>retry_pending\<close> over a store.\<close>

fun put_all :: "('a \<Rightarrow> 's \<Rightarrow> bool \<times> 's) \<Rightarrow> 'a list \<Rightarrow> 's \<Rightarrow> bool \<times> 's" where
  "put_all put [] s = (True, s)"
| "put_all put (x # xs) s =
     (let (ok, s1) = put x s; (ok_rest, s2) = put_all put xs s1 in (ok \<and> ok_rest, s2))"

fun ack_all :: "('i \<Rightarrow> 's \<Rightarrow> bool \<times> 's) \<Rightarrow> 'i list \<Rightarrow> 's \<Rightarrow> 's" where
  "ack_all ack [] s = s"
| "ack_all ack (i # is) s = ack_all ack is (snd (ack i s))"

context offline_queue
begin

lemma put_all_rows:
  "invar s \<Longrightarrow>
   \<exists>kept. subseq kept xs \<and> (fst (put_all put xs s) \<longrightarrow> kept = xs) \<and>
     map snd (rows (snd (put_all put xs s))) = map snd (rows s) @ map saved kept \<and>
     (\<exists>fresh. rows (snd (put_all put xs s)) = rows s @ fresh)"
proof (induction xs arbitrary: s)
  case Nil
  then show ?case by simp
next
  case (Cons x xs)
  obtain ok s1 where p: "put x s = (ok, s1)" by fastforce
  have inv1: "invar s1" using put_invar [OF Cons.prems, of x] p by simp
  from Cons.IH [OF inv1] obtain kept fresh where
    k: "subseq kept xs" "fst (put_all put xs s1) \<longrightarrow> kept = xs"
       "map snd (rows (snd (put_all put xs s1))) = map snd (rows s1) @ map saved kept"
       "rows (snd (put_all put xs s1)) = rows s1 @ fresh" by blast
  show ?case
  proof (cases ok)
    case True
    then obtain i where "rows s1 = rows s @ [(i, saved x)]" using put_ok [OF Cons.prems, of x] p by auto
    then show ?thesis using k p True
      by (intro exI [of _ "x # kept"]) (auto simp: Let_def split: prod.splits)
  next
    case False
    then have "rows s1 = rows s" using put_failed [OF Cons.prems, of x] p by simp
    then show ?thesis using k p False
      by (intro exI [of _ kept]) (auto simp: Let_def split: prod.splits)
  qed
qed

lemma put_all_invar: "invar s \<Longrightarrow> invar (snd (put_all put xs s))"
proof (induction xs arbitrary: s)
  case (Cons x xs)
  have "invar (snd (put_all put xs (snd (put x s))))"
    using Cons.IH [OF put_invar [OF Cons.prems, of x]] .
  then show ?case by (simp add: case_prod_beta Let_def)
qed simp

text \<open>What every call keeps, and what every call relates, the loop keeps and relates.\<close>

lemma put_all_ok:
  assumes "invar s" "Q s" "\<And>x s. x \<in> set xs \<Longrightarrow> invar s \<Longrightarrow> Q s \<Longrightarrow> fst (put x s) \<and> Q (snd (put x s))"
  shows "fst (put_all put xs s)"
  using assms
proof (induction xs arbitrary: s)
  case (Cons x xs)
  have "fst (put x s)" "Q (snd (put x s))" using Cons.prems by simp_all
  moreover have "fst (put_all put xs (snd (put x s)))"
    using Cons.IH [OF put_invar [OF Cons.prems(1), of x]] Cons.prems by simp
  ultimately show ?case by (simp add: case_prod_beta Let_def)
qed simp

lemma put_all_related:
  assumes "invar s" "\<And>x s. invar s \<Longrightarrow> R s (snd (put x s))" "\<And>s. R s s"
    and "\<And>a b c. R a b \<Longrightarrow> R b c \<Longrightarrow> R a c"
  shows "R s (snd (put_all put xs s))"
  using assms(1)
proof (induction xs arbitrary: s)
  case Nil
  then show ?case by (simp add: assms(3))
next
  case (Cons x xs)
  have "R s (snd (put x s))" "R (snd (put x s)) (snd (put_all put xs (snd (put x s))))"
    using assms(2) [OF Cons.prems] Cons.IH [OF put_invar [OF Cons.prems]] .
  then show ?case using assms(4) by (simp add: case_prod_beta Let_def)
qed

lemma ack_all_related:
  assumes "invar s" "\<And>i s. invar s \<Longrightarrow> R s (snd (ack i s))" "\<And>s. R s s"
    and "\<And>a b c. R a b \<Longrightarrow> R b c \<Longrightarrow> R a c"
  shows "R s (ack_all ack is s)"
  using assms(1)
proof (induction "is" arbitrary: s)
  case Nil
  then show ?case by (simp add: assms(3))
next
  case (Cons i "is")
  have "R s (snd (ack i s))" "R (snd (ack i s)) (ack_all ack is (snd (ack i s)))"
    using assms(2) [OF Cons.prems] Cons.IH [OF ack_invar [OF Cons.prems]] .
  then show ?case using assms(4) by simp
qed

lemma ack_all_rows:
  "invar s \<Longrightarrow>
   \<exists>gone \<subseteq> set is. rows (ack_all ack is s) = filter (\<lambda>r. fst r \<notin> gone) (rows s)"
proof (induction "is" arbitrary: s)
  case Nil
  then show ?case by simp
next
  case (Cons i "is")
  let ?s = "snd (ack i s)"
  have inv: "invar ?s" using ack_invar [OF Cons.prems] .
  from Cons.IH [OF inv] obtain gone where
    g: "gone \<subseteq> set is" "rows (ack_all ack is ?s) = filter (\<lambda>r. fst r \<notin> gone) (rows ?s)" by blast
  show ?case
  proof (cases "fst (ack i s)")
    case True
    have "rows (ack_all ack (i # is) s) = filter (\<lambda>r. fst r \<notin> insert i gone) (rows s)"
      using g(2) ack_ok [OF Cons.prems True] by (simp add: conj_commute)
    then show ?thesis using g(1) by (intro exI [of _ "insert i gone"]) auto
  next
    case False
    then show ?thesis using g ack_failed [OF Cons.prems False] by (intro exI [of _ gone]) auto
  qed
qed

lemma ack_all_invar: "invar s \<Longrightarrow> invar (ack_all ack is s)"
  by (induction "is" arbitrary: s) (simp_all add: ack_invar)

lemma ack_all_ok:
  assumes "invar s" "Q s" "\<And>i s. invar s \<Longrightarrow> Q s \<Longrightarrow> fst (ack i s) \<and> Q (snd (ack i s))"
  shows "rows (ack_all ack is s) = filter (\<lambda>r. fst r \<notin> set is) (rows s)"
  using assms(1,2)
proof (induction "is" arbitrary: s)
  case (Cons i "is")
  have ok: "fst (ack i s)" "Q (snd (ack i s))" using assms(3) [OF Cons.prems] by simp_all
  have "rows (ack_all ack (i # is) s) = filter (\<lambda>r. fst r \<notin> set is) (filter (\<lambda>r. fst r \<noteq> i) (rows s))"
    using Cons.IH [OF ack_invar [OF Cons.prems(1)] ok(2)] ack_ok [OF Cons.prems(1) ok(1)] by simp
  then show ?case by (simp add: conj_commute)
qed simp

end

end
