(* ===== verification/RingBuffer.thy ===== *)
theory RingBuffer
  imports Telemetry Interfaces
begin

text \<open>
  \<open>bossa::telemetry::RingBuffer\<close> (\<open>include/bossa/telemetry/ring_buffer.hpp\<close>,
  \<open>src/telemetry/ring_buffer.cpp\<close>): the circular array with its priority-aware overflow, the
  queue of samples it stands for, and the proof that every operation does on the array what
  the specification does on the queue. The mutex serialises the operations, so an execution
  is a sequence of them (section \<open>Runs\<close>).
\<close>

section \<open>State and operations\<close>

record ring_buffer =
  rb_slots :: "stored_sample list"
  rb_capacity :: nat
  rb_head :: nat
  rb_size :: nat
  rb_drop_count :: nat

definition ring_buffer_new :: "nat \<Rightarrow> cpp_exn + ring_buffer" where
  "ring_buffer_new capacity =
     (if capacity = 0 then Inl (InvalidArgument ''RingBuffer capacity must be > 0'')
      else Inr \<lparr>rb_slots = replicate capacity stored_sample_default, rb_capacity = capacity,
                rb_head = 0, rb_size = 0, rb_drop_count = 0\<rparr>)"

function shift_down :: "stored_sample list \<Rightarrow> nat \<Rightarrow> nat \<Rightarrow> nat \<Rightarrow> nat \<Rightarrow> stored_sample list" where
  \<comment> \<open>the loop of \<open>remove_at_offset\<close>\<close>
  "shift_down sl capacity head n i =
     (if i + 1 < n
      then shift_down (sl[(head + i) mod capacity := sl ! ((head + i + 1) mod capacity)])
             capacity head n (i + 1)
      else sl)"
  by pat_completeness auto
termination
  by (relation "measure (\<lambda>(sl, capacity, head, n, i). n - i)") auto

declare shift_down.simps [simp del]

definition remove_at_offset ::
  "stored_sample list \<Rightarrow> nat \<Rightarrow> nat \<Rightarrow> nat \<Rightarrow> nat \<Rightarrow> stored_sample list \<times> nat" where
  "remove_at_offset sl capacity head n offset =
     (shift_down sl capacity head n offset, n - 1)"

function scan_lowest ::
  "stored_sample list \<Rightarrow> nat \<Rightarrow> nat \<Rightarrow> nat \<Rightarrow> nat \<Rightarrow> nat \<Rightarrow> priority \<Rightarrow> nat \<times> priority" where
  \<comment> \<open>the search of \<open>enqueue\<close> for the lowest-priority resident, the oldest among ties\<close>
  "scan_lowest sl capacity head n i drop_offset drop_priority =
     (if i < n
      then let p = ss_priority (sl ! ((head + i) mod capacity))
           in if priority_code p < priority_code drop_priority
              then scan_lowest sl capacity head n (i + 1) i p
              else scan_lowest sl capacity head n (i + 1) drop_offset drop_priority
      else (drop_offset, drop_priority))"
  by pat_completeness auto
termination
  by (relation "measure (\<lambda>(sl, capacity, head, n, i, off, p). n - i)") auto

declare scan_lowest.simps [simp del]

definition enqueue :: "stored_sample \<Rightarrow> ring_buffer \<Rightarrow> bool \<times> ring_buffer" where
  "enqueue s rb =
     (let cap = rb_capacity rb; h = rb_head rb; n = rb_size rb in
      if n < cap
      then (True, rb\<lparr>rb_slots := (rb_slots rb)[(h + n) mod cap := s], rb_size := n + 1\<rparr>)
      else
        let (drop_offset, drop_priority) =
              scan_lowest (rb_slots rb) cap h n 1 0 (ss_priority (rb_slots rb ! h))
        in if priority_code (ss_priority s) < priority_code drop_priority
           then (False, rb\<lparr>rb_drop_count := rb_drop_count rb + 1\<rparr>)
           else
             let (sl, h', n') =
                   (if drop_offset = 0 then (rb_slots rb, (h + 1) mod cap, n - 1)
                    else let (sl, n') = remove_at_offset (rb_slots rb) cap h n drop_offset
                         in (sl, h, n'))
             in (True, rb\<lparr>rb_slots := sl[(h' + n') mod cap := s], rb_head := h', rb_size := n' + 1,
                          rb_drop_count := rb_drop_count rb + 1\<rparr>))"

definition dequeue :: "ring_buffer \<Rightarrow> stored_sample option \<times> ring_buffer" where
  "dequeue rb =
     (if rb_size rb = 0 then (None, rb)
      else (Some (rb_slots rb ! rb_head rb),
            rb\<lparr>rb_head := (rb_head rb + 1) mod rb_capacity rb, rb_size := rb_size rb - 1\<rparr>))"

definition rb_empty :: "ring_buffer \<Rightarrow> bool" where
  "rb_empty rb \<longleftrightarrow> rb_size rb = 0"

definition ring_size :: "ring_buffer \<Rightarrow> nat" where
  "ring_size rb = rb_size rb"

definition ring_capacity :: "ring_buffer \<Rightarrow> nat" where
  "ring_capacity rb = rb_capacity rb"

definition ring_drop_count :: "ring_buffer \<Rightarrow> nat" where
  "ring_drop_count rb = rb_drop_count rb"

section \<open>The queue a buffer stands for\<close>

definition resident :: "ring_buffer \<Rightarrow> nat \<Rightarrow> stored_sample" where
  "resident rb i = rb_slots rb ! ((rb_head rb + i) mod rb_capacity rb)"

definition contents :: "ring_buffer \<Rightarrow> stored_sample list" where
  \<comment> \<open>oldest first\<close>
  "contents rb = map (resident rb) [0..<rb_size rb]"

definition rb_wf :: "ring_buffer \<Rightarrow> bool" where
  "rb_wf rb \<longleftrightarrow> 0 < rb_capacity rb \<and> length (rb_slots rb) = rb_capacity rb \<and>
                rb_head rb < rb_capacity rb \<and> rb_size rb \<le> rb_capacity rb"

definition oldest_lowest :: "stored_sample list \<Rightarrow> nat" where
  \<comment> \<open>position of the first element of least priority\<close>
  "oldest_lowest xs =
     length (takeWhile (\<lambda>s. Min (ss_priority ` set xs) < ss_priority s) xs)"

definition queue_enqueue ::
  "nat \<Rightarrow> stored_sample \<Rightarrow> stored_sample list \<Rightarrow> bool \<times> stored_sample list \<times> nat" where
  \<comment> \<open>the specification: (retained, new queue, samples dropped)\<close>
  "queue_enqueue cap s xs =
     (if length xs < cap then (True, xs @ [s], 0)
      else if ss_priority s < Min (ss_priority ` set xs) then (False, xs, 1)
      else (True, remove_nth (oldest_lowest xs) xs @ [s], 1))"

fun queue_dequeue :: "stored_sample list \<Rightarrow> stored_sample option \<times> stored_sample list" where
  "queue_dequeue [] = (None, [])"
| "queue_dequeue (x # xs) = (Some x, xs)"

lemma length_contents [simp]: "length (contents rb) = rb_size rb"
  by (simp add: contents_def)

lemma nth_contents: "i < rb_size rb \<Longrightarrow> contents rb ! i = resident rb i"
  by (simp add: contents_def)

lemma contents_eqI:
  "rb_size rb = length xs \<Longrightarrow> (\<And>i. i < length xs \<Longrightarrow> resident rb i = xs ! i) \<Longrightarrow> contents rb = xs"
  by (rule nth_equalityI) (simp_all add: nth_contents)

section \<open>Arithmetic of the circular index\<close>

lemma circular_inj:
  assumes "(h + i) mod n = (h + j) mod n" "i < n" "j < n"
  shows "i = (j::nat)"
proof (rule ccontr)
  have less: False if "(h + a) mod n = (h + b) mod n" "a < b" "b < n" for a b :: nat
  proof -
    have "n dvd (h + b) - (h + a)" using that by (metis mod_eq_dvd_iff_nat nat_add_left_cancel_le less_imp_le)
    then have "n dvd b - a" by simp
    then show False using that by (meson dvd_imp_le less_imp_diff_less not_less zero_less_diff)
  qed
  assume "i \<noteq> j"
  then show False using less [of i j] less [of j i] assms by (metis nat_neq_iff)
qed

lemma circular_eq_iff [simp]:
  "i < n \<Longrightarrow> j < n \<Longrightarrow> (h + i) mod n = (h + j) mod n \<longleftrightarrow> i = (j::nat)"
  using circular_inj by blast

lemma circular_next: "(Suc h mod n + i) mod n = Suc (h + i) mod (n::nat)"
  using mod_add_left_eq [of "Suc h" n i] by simp

lemma length_shift_down [simp]: "length (shift_down sl cap h n i) = length sl"
proof (induction sl cap h n i rule: shift_down.induct)
  case (1 sl cap h n i)
  then show ?case by (subst shift_down.simps) simp
qed

lemma nth_shift_down:
  "length sl = cap \<Longrightarrow> n \<le> cap \<Longrightarrow> j < cap \<Longrightarrow>
   shift_down sl cap h n i ! ((h + j) mod cap)
   = (if i \<le> j \<and> j + 1 < n then sl ! ((h + j + 1) mod cap) else sl ! ((h + j) mod cap))"
proof (induction sl cap h n i rule: shift_down.induct)
  case (1 sl cap h n i)
  show ?case
  proof (cases "i + 1 < n")
    case False
    then show ?thesis by (subst shift_down.simps) auto
  next
    case True
    define sl' where "sl' = sl[(h + i) mod cap := sl ! ((h + i + 1) mod cap)]"
    have sl': "sl' ! ((h + k) mod cap) = (if k = i then sl ! ((h + i + 1) mod cap) else sl ! ((h + k) mod cap))"
      if "k < cap" for k
      using that True "1.prems" by (simp add: sl'_def nth_list_update)
    have "shift_down sl cap h n i = shift_down sl' cap h n (i + 1)"
      using True by (subst shift_down.simps) (simp add: sl'_def)
    moreover have "shift_down sl' cap h n (i + 1) ! ((h + j) mod cap)
      = (if i + 1 \<le> j \<and> j + 1 < n then sl' ! ((h + j + 1) mod cap) else sl' ! ((h + j) mod cap))"
      using "1.IH" [OF True] "1.prems" by (simp add: sl'_def)
    moreover have "sl' ! ((h + j + 1) mod cap) = sl ! ((h + j + 1) mod cap)" if "i + 1 \<le> j" "j + 1 < n"
      using sl' [of "j + 1"] that "1.prems" by simp
    ultimately show ?thesis using sl' [of j] True "1.prems" by auto
  qed
qed

section \<open>The search for the victim\<close>

definition first_min :: "stored_sample list \<Rightarrow> nat \<Rightarrow> nat \<Rightarrow> bool" where
  \<comment> \<open>\<open>k\<close> is the first position of least priority among the first \<open>n\<close>\<close>
  "first_min xs n k \<longleftrightarrow> k < n \<and>
     (\<forall>j < n. ss_priority (xs ! k) \<le> ss_priority (xs ! j)) \<and>
     (\<forall>j < k. ss_priority (xs ! k) < ss_priority (xs ! j))"

lemma first_min_step:
  assumes "first_min xs i k"
  shows "first_min xs (Suc i)
           (if ss_priority (xs ! i) < ss_priority (xs ! k) then i else k)"
  using assms unfolding first_min_def less_Suc_eq
  by (auto simp: not_less intro: less_le_trans less_imp_le)

lemma scan_lowest_first_min:
  "rb_wf rb \<Longrightarrow> i \<le> rb_size rb \<Longrightarrow> first_min (contents rb) i k \<Longrightarrow>
   \<exists>k'. scan_lowest (rb_slots rb) (rb_capacity rb) (rb_head rb) (rb_size rb) i k
           (ss_priority (contents rb ! k)) = (k', ss_priority (contents rb ! k')) \<and>
        first_min (contents rb) (rb_size rb) k'"
proof (induction "rb_size rb - i" arbitrary: i k)
  case 0
  then show ?case by (subst scan_lowest.simps) (auto intro: exI [of _ k])
next
  case (Suc m)
  then have i: "i < rb_size rb" by simp
  define k1 where "k1 = (if ss_priority (contents rb ! i) < ss_priority (contents rb ! k) then i else k)"
  have step: "scan_lowest (rb_slots rb) (rb_capacity rb) (rb_head rb) (rb_size rb) i k
                (ss_priority (contents rb ! k))
            = scan_lowest (rb_slots rb) (rb_capacity rb) (rb_head rb) (rb_size rb) (i + 1) k1
                (ss_priority (contents rb ! k1))"
    using i by (subst scan_lowest.simps)
      (simp add: k1_def nth_contents resident_def less_priority_def Let_def)
  have "first_min (contents rb) (Suc i) k1"
    using first_min_step [OF Suc.prems(3)] by (simp add: k1_def)
  then show ?case using Suc.hyps(1) [of "i + 1" k1] Suc.hyps(2) Suc.prems i step by auto
qed

lemma first_min_Min:
  assumes "first_min xs (length xs) k"
  shows "ss_priority (xs ! k) = Min (ss_priority ` set xs)"
proof (rule Min_eqI [symmetric])
  show "finite (ss_priority ` set xs)" by simp
  show "ss_priority (xs ! k) \<in> ss_priority ` set xs" using assms by (auto simp: first_min_def)
  show "ss_priority (xs ! k) \<le> y" if "y \<in> ss_priority ` set xs" for y
    using that assms by (auto simp: first_min_def in_set_conv_nth)
qed

lemma first_min_oldest_lowest:
  assumes "first_min xs (length xs) k"
  shows "oldest_lowest xs = k"
proof -
  have k: "k < length xs" using assms by (simp add: first_min_def)
  have "takeWhile (\<lambda>s. ss_priority (xs ! k) < ss_priority s) xs = take k xs"
    using assms k by (intro takeWhile_eq_take_P_nth) (auto simp: first_min_def)
  then show ?thesis using k by (simp add: oldest_lowest_def first_min_Min [OF assms, symmetric])
qed

lemma oldest_lowest_first_min:
  assumes "xs \<noteq> []"
  shows "first_min xs (length xs) (oldest_lowest xs)"
proof -
  have "\<exists>k. first_min xs n k" if "0 < n" "n \<le> length xs" for n
    using that
  proof (induction n)
    case (Suc n)
    show ?case
    proof (cases n)
      case 0
      have "first_min xs (Suc 0) 0" by (simp add: first_min_def)
      then show ?thesis using 0 by blast
    next
      case (Suc m)
      then obtain k where "first_min xs n k" using Suc.IH Suc.prems by auto
      then show ?thesis using first_min_step by blast
    qed
  qed simp
  then obtain k where "first_min xs (length xs) k" using assms by auto
  then show ?thesis by (simp add: first_min_oldest_lowest)
qed

section \<open>The operations on the array refine the operations on the queue\<close>

lemma rb_wf_new [wf_intros]: "ring_buffer_new cap = Inr rb \<Longrightarrow> rb_wf rb"
  by (auto simp: ring_buffer_new_def rb_wf_def split: if_splits)

lemma ring_buffer_new_contents:
  "ring_buffer_new cap = Inr rb \<Longrightarrow>
   contents rb = [] \<and> rb_capacity rb = cap \<and> rb_drop_count rb = 0"
  by (auto simp: ring_buffer_new_def contents_def split: if_splits)

lemma contents_append:
  assumes "rb_wf rb" "rb_size rb < rb_capacity rb"
  shows "contents (rb\<lparr>rb_slots := (rb_slots rb)[(rb_head rb + rb_size rb) mod rb_capacity rb := s],
                      rb_size := rb_size rb + 1\<rparr>) = contents rb @ [s]"
  using assms
  by (intro contents_eqI)
    (auto simp: resident_def nth_append nth_contents rb_wf_def nth_list_update less_Suc_eq)

definition evict :: "nat \<Rightarrow> ring_buffer \<Rightarrow> ring_buffer" where
  \<comment> \<open>the buffer with the resident at one offset taken out\<close>
  "evict k rb =
     (if k = 0 then rb\<lparr>rb_head := (rb_head rb + 1) mod rb_capacity rb, rb_size := rb_size rb - 1\<rparr>
      else rb\<lparr>rb_slots := shift_down (rb_slots rb) (rb_capacity rb) (rb_head rb) (rb_size rb) k,
              rb_size := rb_size rb - 1\<rparr>)"

lemma evict_frame [simp]:
  "rb_capacity (evict k rb) = rb_capacity rb" "rb_size (evict k rb) = rb_size rb - 1"
  "rb_drop_count (evict k rb) = rb_drop_count rb"
  by (simp_all add: evict_def)

lemma rb_wf_evict [wf_intros]: "rb_wf rb \<Longrightarrow> rb_wf (evict k rb)"
  by (auto simp: rb_wf_def evict_def)

lemma contents_evict:
  assumes "rb_wf rb" "k < rb_size rb"
  shows "contents (evict k rb) = remove_nth k (contents rb)"
proof (rule contents_eqI)
  show "rb_size (evict k rb) = length (remove_nth k (contents rb))" using assms by simp
next
  fix i assume "i < length (remove_nth k (contents rb))"
  then have i: "i < rb_size rb - 1" using assms by simp
  then have "remove_nth k (contents rb) ! i = (if i < k then resident rb i else resident rb (Suc i))"
    using assms by (simp add: nth_remove_nth nth_contents)
  moreover have "resident (evict k rb) i = (if i < k then resident rb i else resident rb (Suc i))"
  proof (cases "k = 0")
    case True
    then show ?thesis by (simp add: evict_def resident_def circular_next)
  next
    case False
    then show ?thesis using i assms
      by (auto simp: evict_def resident_def nth_shift_down rb_wf_def)
  qed
  ultimately show "resident (evict k rb) i = remove_nth k (contents rb) ! i" by simp
qed

text \<open>\<open>enqueue\<close> in terms of the queue: the array code is \<open>evict\<close> followed by an append.\<close>

definition append_slot :: "stored_sample \<Rightarrow> ring_buffer \<Rightarrow> ring_buffer" where
  "append_slot s rb =
     rb\<lparr>rb_slots := (rb_slots rb)[(rb_head rb + rb_size rb) mod rb_capacity rb := s],
        rb_size := rb_size rb + 1\<rparr>"

lemma append_slot_frame [simp]:
  "rb_capacity (append_slot s rb) = rb_capacity rb" "rb_size (append_slot s rb) = Suc (rb_size rb)"
  "rb_drop_count (append_slot s rb) = rb_drop_count rb"
  by (simp_all add: append_slot_def)

lemma rb_wf_append_slot [wf_intros]:
  "rb_wf rb \<Longrightarrow> rb_size rb < rb_capacity rb \<Longrightarrow> rb_wf (append_slot s rb)"
  by (auto simp: rb_wf_def append_slot_def)

lemma contents_append_slot:
  "rb_wf rb \<Longrightarrow> rb_size rb < rb_capacity rb \<Longrightarrow> contents (append_slot s rb) = contents rb @ [s]"
  unfolding append_slot_def by (rule contents_append)

lemma enqueue_full:
  assumes "rb_wf rb" "rb_size rb = rb_capacity rb"
  shows "enqueue s rb =
    (let k = oldest_lowest (contents rb) in
     if ss_priority s < ss_priority (contents rb ! k)
     then (False, rb\<lparr>rb_drop_count := rb_drop_count rb + 1\<rparr>)
     else (True, (append_slot s (evict k rb))\<lparr>rb_drop_count := rb_drop_count rb + 1\<rparr>))"
proof -
  have n: "0 < rb_size rb" using assms by (simp add: rb_wf_def)
  have h: "rb_slots rb ! rb_head rb = contents rb ! 0"
    using assms n by (simp add: nth_contents resident_def rb_wf_def)
  have fm0: "first_min (contents rb) 1 0" by (simp add: first_min_def)
  obtain k where k: "scan_lowest (rb_slots rb) (rb_capacity rb) (rb_head rb) (rb_size rb) 1 0
             (ss_priority (contents rb ! 0)) = (k, ss_priority (contents rb ! k))"
      and fm: "first_min (contents rb) (rb_size rb) k"
    using scan_lowest_first_min [OF assms(1) _ fm0] n by auto
  have "oldest_lowest (contents rb) = k" using first_min_oldest_lowest fm by simp
  then show ?thesis
    using assms(2) k h
    by (auto simp: enqueue_def Let_def remove_at_offset_def append_slot_def evict_def
        less_priority_def)
qed

lemma enqueue_refines:
  assumes "rb_wf rb"
  shows "fst (enqueue s rb) = fst (queue_enqueue (rb_capacity rb) s (contents rb))"
    and "contents (snd (enqueue s rb)) = fst (snd (queue_enqueue (rb_capacity rb) s (contents rb)))"
    and "rb_drop_count (snd (enqueue s rb))
         = rb_drop_count rb + snd (snd (queue_enqueue (rb_capacity rb) s (contents rb)))"
    and "rb_wf (snd (enqueue s rb))"
    and "rb_capacity (snd (enqueue s rb)) = rb_capacity rb"
proof -
  let ?q = "queue_enqueue (rb_capacity rb) s (contents rb)"
  let ?P = "fst (enqueue s rb) = fst ?q \<and> contents (snd (enqueue s rb)) = fst (snd ?q) \<and>
    rb_drop_count (snd (enqueue s rb)) = rb_drop_count rb + snd (snd ?q) \<and>
    rb_wf (snd (enqueue s rb)) \<and> rb_capacity (snd (enqueue s rb)) = rb_capacity rb"
  have ?P
  proof (cases "rb_size rb < rb_capacity rb")
    case True
    then have "enqueue s rb = (True, append_slot s rb)"
      by (simp add: enqueue_def append_slot_def Let_def)
    then show ?thesis
      using True assms by (simp add: queue_enqueue_def contents_append_slot rb_wf_append_slot)
  next
    case False
    then have full: "rb_size rb = rb_capacity rb" using assms by (simp add: rb_wf_def)
    define k where "k = oldest_lowest (contents rb)"
    have ne: "contents rb \<noteq> []" using full assms by (auto simp: rb_wf_def simp flip: length_0_conv)
    have fm: "first_min (contents rb) (length (contents rb)) k"
      unfolding k_def by (rule oldest_lowest_first_min [OF ne])
    then have k: "k < rb_size rb" by (simp add: first_min_def)
    have wf': "rb_wf (evict k rb)" and room: "rb_size (evict k rb) < rb_capacity (evict k rb)"
      using assms full k by (simp_all add: rb_wf_evict)
    have drops: "contents (r\<lparr>rb_drop_count := d\<rparr>) = contents r" "rb_wf (r\<lparr>rb_drop_count := d\<rparr>) = rb_wf r"
      for r d by (simp_all add: contents_def resident_def rb_wf_def cong: map_cong)
    show ?thesis
      using False full assms first_min_Min [OF fm]
      by (simp add: enqueue_full [OF assms full] queue_enqueue_def Let_def k_def [symmetric] drops
          contents_append_slot [OF wf' room] rb_wf_append_slot [OF wf' room] contents_evict [OF assms k])
  qed
  then show "fst (enqueue s rb) = fst ?q" "contents (snd (enqueue s rb)) = fst (snd ?q)"
    "rb_drop_count (snd (enqueue s rb)) = rb_drop_count rb + snd (snd ?q)"
    "rb_wf (snd (enqueue s rb))" "rb_capacity (snd (enqueue s rb)) = rb_capacity rb"
    by simp_all
qed

lemma dequeue_refines:
  assumes "rb_wf rb"
  shows "fst (dequeue rb) = fst (queue_dequeue (contents rb))"
    and "contents (snd (dequeue rb)) = snd (queue_dequeue (contents rb))"
    and "rb_drop_count (snd (dequeue rb)) = rb_drop_count rb"
    and "rb_wf (snd (dequeue rb))"
    and "rb_capacity (snd (dequeue rb)) = rb_capacity rb"
proof -
  have "contents (snd (dequeue rb)) = snd (queue_dequeue (contents rb)) \<and>
        fst (dequeue rb) = fst (queue_dequeue (contents rb))"
  proof (cases "rb_size rb")
    case 0
    then have "contents rb = []" by (simp flip: length_0_conv)
    then show ?thesis using 0 by (simp add: dequeue_def)
  next
    case (Suc n)
    then obtain x xs where xs: "contents rb = x # xs" by (metis length_contents length_Suc_conv)
    then have "x = resident rb 0" using Suc nth_contents [of 0 rb] by simp
    then have x: "x = rb_slots rb ! rb_head rb" using assms by (simp add: resident_def rb_wf_def)
    have "snd (dequeue rb) = evict 0 rb" using Suc by (simp add: dequeue_def evict_def)
    then show ?thesis using xs x Suc contents_evict [OF assms, of 0] by (simp add: dequeue_def)
  qed
  then show "fst (dequeue rb) = fst (queue_dequeue (contents rb))"
    "contents (snd (dequeue rb)) = snd (queue_dequeue (contents rb))" by simp_all
  show "rb_drop_count (snd (dequeue rb)) = rb_drop_count rb"
    "rb_wf (snd (dequeue rb))" "rb_capacity (snd (dequeue rb)) = rb_capacity rb"
    using assms by (auto simp: dequeue_def rb_wf_def)
qed

section \<open>The buffer provides the bounded-buffer interface\<close>

lemma queue_enqueue_kept:
  assumes "length xs = cap" "y \<in> set xs" "ss_priority y \<le> ss_priority s"
  shows "queue_enqueue cap s xs = (True, remove_nth (oldest_lowest xs) xs @ [s], 1)"
proof -
  have "Min (ss_priority ` set xs) \<le> ss_priority y" using assms(2) by simp
  then have "\<not> ss_priority s < Min (ss_priority ` set xs)" using assms(3) by (meson leD order_trans)
  then show ?thesis using assms(1) by (simp add: queue_enqueue_def)
qed

interpretation rb: bounded_buffer enqueue dequeue contents rb_capacity ss_priority rb_wf
proof (unfold_locales, goal_cases)
  case (5 q)
  then show ?case by (simp add: rb_wf_def)
next
  case (6 q x)
  then show ?case by (simp add: enqueue_refines queue_enqueue_def)
next
  case (7 q x)
  then have "contents q \<noteq> []" by (auto simp: rb_wf_def simp flip: length_0_conv)
  then have "ss_priority x < Min (ss_priority ` set (contents q))" using 7 by simp
  then show ?case using 7 by (simp add: enqueue_refines queue_enqueue_def)
next
  case (8 q y x)
  then have ne: "contents q \<noteq> []" by auto
  note fm = oldest_lowest_first_min [OF ne]
  have q: "queue_enqueue (rb_capacity q) x (contents q)
        = (True, remove_nth (oldest_lowest (contents q)) (contents q) @ [x], 1)"
    using 8 by (intro queue_enqueue_kept) simp_all
  have "oldest_lowest (contents q) < length (contents q)" using fm by (simp add: first_min_def)
  moreover have "\<forall>z \<in> set (contents q).
      ss_priority (contents q ! oldest_lowest (contents q)) \<le> ss_priority z"
    using fm by (auto simp: first_min_def in_set_conv_nth)
  ultimately show ?case
    using 8(1) by (auto simp: enqueue_refines q intro!: exI [of _ "oldest_lowest (contents q)"])
qed (simp_all add: enqueue_refines dequeue_refines)

section \<open>Runs\<close>

text \<open>
  The mutex makes each call atomic, so what producers and consumers do to one buffer is a
  sequence of calls. \<open>rb_run\<close> returns the samples dequeued, in order, and the final state.
\<close>

datatype rb_op = Enqueue stored_sample | Dequeue

fun rb_run :: "rb_op list \<Rightarrow> ring_buffer \<Rightarrow> stored_sample list \<times> ring_buffer" where
  "rb_run [] rb = ([], rb)"
| "rb_run (Enqueue s # ops) rb = rb_run ops (snd (enqueue s rb))"
| "rb_run (Dequeue # ops) rb =
     (case dequeue rb of
        (None, rb') \<Rightarrow> rb_run ops rb'
      | (Some s, rb') \<Rightarrow> (let (out, rb'') = rb_run ops rb' in (s # out, rb'')))"

fun offered :: "rb_op list \<Rightarrow> stored_sample list" where
  "offered [] = []"
| "offered (Enqueue s # ops) = s # offered ops"
| "offered (Dequeue # ops) = offered ops"

lemma queue_enqueue_subseq: "subseq (fst (snd (queue_enqueue cap s xs))) (xs @ [s])"
  by (auto simp: queue_enqueue_def intro: list_emb_append_mono subseq_remove_nth)

lemma queue_enqueue_count:
  assumes "0 < cap" "length xs \<le> cap"
  shows "length (fst (snd (queue_enqueue cap s xs))) + snd (snd (queue_enqueue cap s xs)) = Suc (length xs)"
proof (cases "length xs < cap")
  case False
  then have "xs \<noteq> []" using assms by auto
  then have "oldest_lowest xs < length xs" using oldest_lowest_first_min by (simp add: first_min_def)
  then show ?thesis using False by (auto simp: queue_enqueue_def)
qed (simp add: queue_enqueue_def)

lemma rb_run_order:
  "rb_wf rb \<Longrightarrow> rb_run ops rb = (out, rb') \<Longrightarrow>
   rb_wf rb' \<and> rb_capacity rb' = rb_capacity rb \<and>
   subseq (out @ contents rb') (contents rb @ offered ops) \<and>
   rb_size rb + rb_drop_count rb + length (offered ops)
     = length out + rb_size rb' + rb_drop_count rb'"
proof (induction ops rb arbitrary: out rule: rb_run.induct)
  case (1 rb)
  then show ?case by auto
next
  case (2 s ops rb)
  let ?rb1 = "snd (enqueue s rb)"
  note r = enqueue_refines [OF "2.prems"(1), of s]
  have IH: "rb_wf rb' \<and> rb_capacity rb' = rb_capacity ?rb1 \<and>
      subseq (out @ contents rb') (contents ?rb1 @ offered ops) \<and>
      rb_size ?rb1 + rb_drop_count ?rb1 + length (offered ops) = length out + rb_size rb' + rb_drop_count rb'"
    using "2.IH" "2.prems" r(4) by simp
  have "subseq (contents ?rb1) (contents rb @ [s])"
    using r(2) queue_enqueue_subseq by simp
  then have "subseq (contents ?rb1 @ offered ops) ((contents rb @ [s]) @ offered ops)"
    by (intro list_emb_append_mono subseq_order.refl)
  then have sub: "subseq (out @ contents rb') (contents rb @ s # offered ops)"
    using IH subseq_order.trans by force
  have "0 < rb_capacity rb" "length (contents rb) \<le> rb_capacity rb"
    using "2.prems"(1) by (simp_all add: rb_wf_def)
  then have "length (contents ?rb1) + (rb_drop_count ?rb1 - rb_drop_count rb) = Suc (length (contents rb))"
    using r(2,3) queue_enqueue_count by (simp del: length_contents)
  then show ?case using IH sub r(3,5) by simp
next
  case (3 ops rb)
  note r = dequeue_refines [OF "3.prems"(1)]
  obtain d rb1 where d: "dequeue rb = (d, rb1)" by fastforce
  show ?case
  proof (cases "contents rb")
    case Nil
    then have "d = None" "contents rb1 = []" "rb_wf rb1" using r d by simp_all
    then show ?thesis using "3.IH"(1) [OF d [symmetric]] "3.prems" d r Nil
      by (metis (no_types, lifting) fst_conv snd_conv length_contents list.size(3) offered.simps(3)
          option.simps(4) prod.simps(2) rb_run.simps(3))
  next
    case (Cons x xs)
    then have d': "d = Some x" "contents rb1 = xs" "rb_wf rb1" "rb_drop_count rb1 = rb_drop_count rb"
      "rb_capacity rb1 = rb_capacity rb" using r d by simp_all
    obtain out1 where out1: "rb_run ops rb1 = (out1, rb')" "out = x # out1"
      using "3.prems"(2) d d'(1) by (auto split: prod.splits)
    have "rb_size rb = Suc (rb_size rb1)" using Cons d'(2) by (metis length_contents length_Cons)
    then show ?thesis using "3.IH"(2) [OF d [symmetric] d'(1) d'(3) out1(1)] Cons d' out1(2) by simp
  qed
qed

section \<open>Example data\<close>

definition ex_buffer :: ring_buffer where
  \<comment> \<open>capacity two, filled by two calls of \<open>enqueue\<close>\<close>
  "ex_buffer =
     (case ring_buffer_new 2 of
        Inr rb \<Rightarrow> snd (enqueue (ex_sample ''b'' KNormal 2) (snd (enqueue (ex_sample ''a'' KLow 1) rb)))
      | Inl _ \<Rightarrow> undefined)"

definition ex_ops :: "rb_op list" where
  "ex_ops = [Enqueue (ex_sample ''a'' KLow 1), Enqueue (ex_sample ''b'' KNormal 2),
             Enqueue (ex_sample ''c'' KCritical 3), Dequeue]"

lemma rb_wf_ex_buffer: "rb_wf ex_buffer"
  by code_simp

lemma ex_buffer_full: "rb_size ex_buffer = rb_capacity ex_buffer"
  by code_simp

section \<open>Properties\<close>

text \<open>
  C10: on a well-formed ring buffer, \<open>enqueue\<close> on the circular array does what the queue
  specification says: it appends while there is room; when full it refuses a sample that
  ranks below every resident and otherwise removes the oldest resident of least priority,
  appending the new sample. It returns whether the sample was kept, counts the drop, and
  keeps the array well formed.
\<close>

theorem ring_buffer_enqueue_refines:
  assumes "rb_wf rb" and "enqueue s rb = (kept, rb')"
  shows "queue_enqueue (rb_capacity rb) s (contents rb)
           = (kept, contents rb', rb_drop_count rb' - rb_drop_count rb)
         \<and> rb_drop_count rb \<le> rb_drop_count rb' \<and> rb_wf rb' \<and> rb_capacity rb' = rb_capacity rb"
  using enqueue_refines [OF assms(1), of s] assms(2) by (simp add: prod_eq_iff)

theorem ring_buffer_enqueue_refines_witness:
  "rb_wf ex_buffer \<and>
   (case enqueue (ex_sample ''c'' KCritical 3) ex_buffer of (kept, rb') \<Rightarrow>
      queue_enqueue 2 (ex_sample ''c'' KCritical 3) (contents ex_buffer) = (kept, contents rb', 1) \<and> kept)"
proof -
  obtain kept rb' where e: "enqueue (ex_sample ''c'' KCritical 3) ex_buffer = (kept, rb')" by fastforce
  have "fst (enqueue (ex_sample ''c'' KCritical 3) ex_buffer)"
    "rb_drop_count (snd (enqueue (ex_sample ''c'' KCritical 3) ex_buffer)) - rb_drop_count ex_buffer = 1"
    "rb_capacity ex_buffer = 2" by code_simp+
  then show ?thesis
    using rb_wf_ex_buffer ring_buffer_enqueue_refines [OF rb_wf_ex_buffer e] e by simp
qed

text \<open>
  C11: any sequence of calls on a fresh buffer keeps first-in-first-out order and loses nothing
  silently: the samples handed out followed by those still resident are a subsequence of the
  samples offered, their number and the drop count add up to the number offered, and the
  buffer never holds more than its capacity.
\<close>

theorem ring_buffer_fifo_accounting:
  assumes "ring_buffer_new cap = Inr rb" and "rb_run ops rb = (out, rb')"
  shows "subseq (out @ contents rb') (offered ops)
         \<and> length (offered ops) = length out + rb_size rb' + rb_drop_count rb'
         \<and> rb_size rb' \<le> cap"
proof -
  have new: "contents rb = []" "rb_capacity rb = cap" "rb_drop_count rb = 0"
    using ring_buffer_new_contents [OF assms(1)] by simp_all
  have size0: "rb_size rb = 0" using new(1) by (metis length_contents list.size(3))
  from rb_run_order [OF rb_wf_new [OF assms(1)] assms(2)] new size0
  show ?thesis by (simp add: rb_wf_def)
qed

theorem ring_buffer_fifo_accounting_witness:
  "\<exists>rb out rb'. ring_buffer_new 2 = Inr rb \<and> rb_run ex_ops rb = (out, rb') \<and>
     out = [ex_sample ''b'' KNormal 2] \<and>
     subseq (out @ contents rb') (offered ex_ops) \<and> rb_drop_count rb' = 1"
proof -
  obtain rb where rb: "ring_buffer_new 2 = Inr rb" by (auto simp: ring_buffer_new_def)
  obtain out rb' where run: "rb_run ex_ops rb = (out, rb')" by fastforce
  have "(case ring_buffer_new 2 of Inr rb \<Rightarrow> fst (rb_run ex_ops rb) = [ex_sample ''b'' KNormal 2] \<and>
            rb_size (snd (rb_run ex_ops rb)) = 1 | Inl _ \<Rightarrow> False)"
    by code_simp
  then have out: "out = [ex_sample ''b'' KNormal 2]" "rb_size rb' = 1" using rb run by simp_all
  from ring_buffer_fifo_accounting [OF rb run] out rb run show ?thesis by (auto simp: ex_ops_def)
qed

text \<open>
  C12: overflow never sacrifices importance: when a sample meets a full buffer, exactly one of
  the residents and the new sample is gone afterwards, and nothing that survives or arrived
  has a lower priority than the one given up.
\<close>

theorem ring_buffer_overflow_drops_least:
  assumes "rb_wf rb" and "rb_size rb = rb_capacity rb" and "enqueue s rb = (kept, rb')"
  shows "\<exists>v. add_mset s (mset (contents rb)) = add_mset v (mset (contents rb'))
             \<and> (\<forall>x \<in> set (s # contents rb). ss_priority v \<le> ss_priority x)
             \<and> rb_drop_count rb' = Suc (rb_drop_count rb)"
proof -
  let ?k = "oldest_lowest (contents rb)"
  have ne: "contents rb \<noteq> []" using assms by (auto simp: rb_wf_def simp flip: length_0_conv)
  note fm = oldest_lowest_first_min [OF ne] and r = enqueue_refines [OF assms(1), of s]
  have k: "?k < length (contents rb)" using fm by (simp add: first_min_def)
  have least: "ss_priority (contents rb ! ?k) \<le> ss_priority x" if "x \<in> set (contents rb)" for x
    using fm that by (auto simp: first_min_def in_set_conv_nth)
  show ?thesis
  proof (cases "ss_priority s < Min (ss_priority ` set (contents rb))")
    case True
    then have "\<forall>x \<in> set (contents rb). ss_priority s \<le> ss_priority x" using ne by (simp add: less_imp_le)
    then show ?thesis using True r assms by (auto simp: queue_enqueue_def intro!: exI [of _ s])
  next
    case False
    then have "ss_priority (contents rb ! ?k) \<le> ss_priority s"
      using first_min_Min [OF fm] by simp
    then show ?thesis
      using False r assms least mset_remove_nth [OF k]
      by (intro exI [of _ "contents rb ! ?k"]) (auto simp: queue_enqueue_def)
  qed
qed

theorem ring_buffer_overflow_drops_least_witness:
  "\<exists>kept rb' v. enqueue (ex_sample ''c'' KLow 3) ex_buffer = (kept, rb') \<and>
     add_mset (ex_sample ''c'' KLow 3) (mset (contents ex_buffer)) = add_mset v (mset (contents rb')) \<and>
     ss_priority v = KLow"
proof -
  obtain kept rb' where e: "enqueue (ex_sample ''c'' KLow 3) ex_buffer = (kept, rb')" by fastforce
  from ring_buffer_overflow_drops_least [OF rb_wf_ex_buffer ex_buffer_full e]
  obtain v where v: "add_mset (ex_sample ''c'' KLow 3) (mset (contents ex_buffer)) = add_mset v (mset (contents rb'))"
    "ss_priority v \<le> ss_priority (ex_sample ''c'' KLow 3)" by auto
  then have "ss_priority v = KLow"
    by (cases "ss_priority v") (simp_all add: ex_sample_def less_eq_priority_def)
  with e v(1) show ?thesis by blast
qed

end
