(* ===== verification/Scheduler.thy ===== *)
theory Scheduler
  imports Ieee754 Interfaces
begin

text \<open>
  \<open>bossa::telemetry::Scheduler\<close> (\<open>include/bossa/telemetry/scheduler.hpp\<close>,
  \<open>src/telemetry/scheduler.cpp\<close>). Time points and durations of \<open>steady_clock\<close> are
  nanosecond counts; the clock reading of a call is an argument; the poll callback acts on a
  state that is threaded through. A conversion whose result C++ leaves undefined and a loop
  that does not end are both \<open>None\<close>.
\<close>

section \<open>State and operations\<close>

record schedule_entry =
  se_channel_id :: string
  se_sample_rate_hz :: double

record channel_state =
  cs_entry :: schedule_entry
  cs_next_deadline :: int
  cs_period :: int

type_synonym scheduler = "channel_state list"

definition period_from_hz :: "double \<Rightarrow> int option" where
  "period_from_hz sample_rate_hz =
     (if \<not> d_less (Fin 0) sample_rate_hz \<or> \<not> d_is_finite sample_rate_hz
      then Some 1000000000
      else let period_seconds = d_div (Fin 1) sample_rate_hz
           in d_to_int64 (d_mul period_seconds (Fin 1000000000)))"

fun configure :: "int \<Rightarrow> schedule_entry list \<Rightarrow> scheduler option" where
  "configure now [] = Some []"
| "configure now (entry # entries) =
     (case period_from_hz (se_sample_rate_hz entry) of
        None \<Rightarrow> None
      | Some period \<Rightarrow>
          (case configure now entries of
             None \<Rightarrow> None
           | Some channels \<Rightarrow>
               Some (\<lparr>cs_entry = entry, cs_next_deadline = now, cs_period = period\<rparr> # channels)))"

partial_function (option) catch_up :: "int \<Rightarrow> int \<Rightarrow> int \<Rightarrow> int option" where
  \<comment> \<open>\<open>while (next <= now) next += period\<close>\<close>
  "catch_up nxt period now = (if nxt \<le> now then catch_up (nxt + period) period now else Some nxt)"

definition advance :: "int \<Rightarrow> channel_state \<Rightarrow> channel_state option" where
  "advance now channel =
     (case catch_up (cs_next_deadline channel + cs_period channel) (cs_period channel) now of
        None \<Rightarrow> None
      | Some nxt \<Rightarrow>
          (let nxt' = (if nxt \<le> cs_next_deadline channel then now + cs_period channel else nxt)
           in Some (channel\<lparr>cs_next_deadline := nxt'\<rparr>)))"

fun dispatch_channels ::
  "(string \<Rightarrow> 's \<Rightarrow> 's) \<Rightarrow> int \<Rightarrow> channel_state list \<Rightarrow> 's \<Rightarrow> (nat \<times> channel_state list \<times> 's) option" where
  "dispatch_channels poll now [] st = Some (0, [], st)"
| "dispatch_channels poll now (channel # channels) st =
     (if now < cs_next_deadline channel
      then (case dispatch_channels poll now channels st of
              None \<Rightarrow> None
            | Some (polled, channels', st') \<Rightarrow> Some (polled, channel # channels', st'))
      else
        let st1 = poll (se_channel_id (cs_entry channel)) st in
        (case advance now channel of
           None \<Rightarrow> None
         | Some channel' \<Rightarrow>
             (case dispatch_channels poll now channels st1 of
                None \<Rightarrow> None
              | Some (polled, channels', st') \<Rightarrow> Some (polled + 1, channel' # channels', st'))))"

definition dispatch_due ::
  "(string \<Rightarrow> 's \<Rightarrow> 's) option \<Rightarrow> int \<Rightarrow> scheduler \<Rightarrow> 's \<Rightarrow> (nat \<times> scheduler \<times> 's) option" where
  \<comment> \<open>an empty \<open>std::function\<close> is \<open>None\<close>: nothing is polled\<close>
  "dispatch_due poll now channels st =
     (case poll of
        None \<Rightarrow> Some (0, channels, st)
      | Some f \<Rightarrow> dispatch_channels f now channels st)"

fun next_deadline :: "scheduler \<Rightarrow> int option" where
  \<comment> \<open>\<open>std::min_element\<close>: the first of the least deadlines, whose value is the least deadline\<close>
  "next_deadline [] = None"
| "next_deadline (channel # channels) =
     (case next_deadline channels of
        None \<Rightarrow> Some (cs_next_deadline channel)
      | Some t \<Rightarrow> Some (if t < cs_next_deadline channel then t else cs_next_deadline channel))"

definition channel_count :: "scheduler \<Rightarrow> nat" where
  "channel_count channels = length channels"

section \<open>The catch-up loop\<close>

lemma catch_up_done: "now < nxt \<Longrightarrow> catch_up nxt period now = Some nxt"
  by (subst catch_up.simps) simp

lemma catch_up_step: "nxt \<le> now \<Longrightarrow> catch_up nxt period now = catch_up (nxt + period) period now"
  by (subst catch_up.simps) simp

lemma catch_up_returns:
  assumes "0 < period"
  shows "\<exists>k. catch_up nxt period now = Some (nxt + int k * period) \<and> now < nxt + int k * period \<and>
             (0 < k \<longrightarrow> nxt + (int k - 1) * period \<le> now)"
proof (induction "nat (now - nxt + 1)" arbitrary: nxt rule: less_induct)
  case less
  show ?case
  proof (cases "nxt \<le> now")
    case False
    then show ?thesis by (intro exI [of _ 0]) (simp add: catch_up_done)
  next
    case True
    then have "nat (now - (nxt + period) + 1) < nat (now - nxt + 1)" using assms by linarith
    from less [OF this] obtain k where
      k: "catch_up (nxt + period) period now = Some (nxt + period + int k * period)"
         "now < nxt + period + int k * period"
         "0 < k \<longrightarrow> nxt + period + (int k - 1) * period \<le> now" by blast
    have "nxt + (int (Suc k) - 1) * period \<le> now" using k(3) True by (cases k) (simp_all add: algebra_simps)
    then show ?thesis using k True
      by (intro exI [of _ "Suc k"]) (simp add: catch_up_step algebra_simps)
  qed
qed

lemma catch_up_diverges:
  assumes "period \<le> 0" "nxt \<le> now"
  shows "catch_up nxt period now = None"
proof (rule ccontr)
  assume "catch_up nxt period now \<noteq> None"
  then obtain r where r: "catch_up nxt period now = Some r" by blast
  have "\<not> (period \<le> 0 \<and> nxt \<le> now)"
  proof (rule catch_up.raw_induct [where P = "\<lambda>n p w r. \<not> (p \<le> 0 \<and> n \<le> w)", OF _ r])
    fix f :: "int \<Rightarrow> int \<Rightarrow> int \<Rightarrow> int option" and n p w x
    assume IH: "\<And>n p w x. f n p w = Some x \<Longrightarrow> \<not> (p \<le> 0 \<and> n \<le> w)"
      and eq: "(if n \<le> w then f (n + p) p w else Some n) = Some x"
    show "\<not> (p \<le> 0 \<and> n \<le> w)"
    proof
      assume "p \<le> 0 \<and> n \<le> w"
      with eq IH [of "n + p" p w x] show False by simp
    qed
  qed
  then show False using assms by simp
qed

section \<open>What a dispatch does\<close>

definition wf_channel :: "channel_state \<Rightarrow> bool" where
  "wf_channel c \<longleftrightarrow> 0 < cs_period c"

definition wf_scheduler :: "scheduler \<Rightarrow> bool" where
  "wf_scheduler channels \<longleftrightarrow> (\<forall>c \<in> set channels. wf_channel c)"

definition is_due :: "int \<Rightarrow> channel_state \<Rightarrow> bool" where
  "is_due now c \<longleftrightarrow> cs_next_deadline c \<le> now"

definition due_ids :: "int \<Rightarrow> scheduler \<Rightarrow> string list" where
  "due_ids now channels = map (\<lambda>c. se_channel_id (cs_entry c)) (filter (is_due now) channels)"

definition next_slot :: "int \<Rightarrow> channel_state \<Rightarrow> int" where
  \<comment> \<open>the first slot of the channel's grid after \<open>now\<close>\<close>
  "next_slot now c =
     cs_next_deadline c + ((now - cs_next_deadline c) div cs_period c + 1) * cs_period c"

definition reschedule :: "int \<Rightarrow> channel_state \<Rightarrow> channel_state" where
  "reschedule now c = (if is_due now c then c\<lparr>cs_next_deadline := next_slot now c\<rparr> else c)"

lemma next_slot_bounds:
  assumes "wf_channel c"
  shows "now < next_slot now c" and "next_slot now c \<le> now + cs_period c"
proof -
  define p d where "p = cs_period c" and "d = now - cs_next_deadline c"
  define q r where "q = d div p" and "r = d mod p"
  have p: "0 < p" using assms by (simp add: wf_channel_def p_def)
  have qr: "q * p + r = d" by (simp add: q_def r_def)
  have r: "0 \<le> r" "r < p" using p by (simp_all add: r_def)
  have "next_slot now c = cs_next_deadline c + (q * p + p)"
    by (simp add: next_slot_def q_def d_def p_def algebra_simps)
  then show "now < next_slot now c" "next_slot now c \<le> now + cs_period c"
    using qr r by (simp_all add: d_def p_def)
qed

lemma catch_up_next_slot:
  assumes "wf_channel c" "is_due now c"
  shows "catch_up (cs_next_deadline c + cs_period c) (cs_period c) now = Some (next_slot now c)"
proof -
  define p d where "p = cs_period c" and "d = cs_next_deadline c"
  have p: "0 < p" using assms by (simp add: p_def wf_channel_def)
  obtain k where k: "catch_up (d + p) p now = Some (d + p + int k * p)" "now < d + p + int k * p"
      "0 < k \<longrightarrow> d + p + (int k - 1) * p \<le> now"
    using catch_up_returns [OF p] by blast
  have "int k * p \<le> now - d"
    using k(3) assms(2) by (cases k) (simp_all add: is_due_def d_def algebra_simps)
  moreover have "now - d < (int k + 1) * p" using k(2) by (simp add: algebra_simps)
  ultimately have "(now - d) div p = int k"
    using p by (intro int_div_pos_eq [of _ _ _ "now - d - int k * p"]) (simp_all add: algebra_simps)
  then show ?thesis using k(1) by (simp add: next_slot_def p_def d_def algebra_simps)
qed

lemma advance_reschedule:
  assumes "wf_channel c" "is_due now c"
  shows "advance now c = Some (reschedule now c)"
proof -
  have "cs_next_deadline c < next_slot now c"
    using next_slot_bounds(1) [OF assms(1), of now] assms(2) by (simp add: is_due_def)
  then show ?thesis
    using assms by (simp add: advance_def catch_up_next_slot reschedule_def)
qed

lemma dispatch_channels_eq:
  "wf_scheduler channels \<Longrightarrow>
   dispatch_channels poll now channels st
   = Some (length (due_ids now channels), map (reschedule now) channels, fold poll (due_ids now channels) st)"
proof (induction channels arbitrary: st)
  case Nil
  then show ?case by (simp add: due_ids_def)
next
  case (Cons c channels)
  then have wf: "wf_channel c" "wf_scheduler channels" by (simp_all add: wf_scheduler_def)
  show ?case
  proof (cases "is_due now c")
    case True
    then show ?thesis
      using Cons.IH [OF wf(2)] advance_reschedule [OF wf(1) True]
      by (simp add: is_due_def due_ids_def)
  next
    case False
    then show ?thesis using Cons.IH [OF wf(2)]
      by (simp add: is_due_def due_ids_def reschedule_def)
  qed
qed

lemma dispatch_due_eq:
  "wf_scheduler channels \<Longrightarrow>
   dispatch_due (Some poll) now channels st
   = Some (length (due_ids now channels), map (reschedule now) channels, fold poll (due_ids now channels) st)"
  by (simp add: dispatch_due_def dispatch_channels_eq)

lemma reschedule_frame [simp]:
  "cs_entry (reschedule now c) = cs_entry c" "cs_period (reschedule now c) = cs_period c"
  by (simp_all add: reschedule_def)

lemma wf_reschedule [simp]: "wf_channel (reschedule now c) = wf_channel c"
  by (simp add: reschedule_def wf_channel_def)

lemma reschedule_not_due: "wf_channel c \<Longrightarrow> \<not> is_due now (reschedule now c)"
  using next_slot_bounds(1) [of c now] by (simp add: reschedule_def is_due_def)

lemma due_ids_after: "wf_scheduler channels \<Longrightarrow> due_ids now (map (reschedule now) channels) = []"
  using reschedule_not_due by (auto simp: due_ids_def wf_scheduler_def filter_empty_conv)

lemma next_deadline_spec:
  "next_deadline channels = Some t \<longleftrightarrow>
     channels \<noteq> [] \<and> t = Min (cs_next_deadline ` set channels)"
proof (induction channels arbitrary: t)
  case (Cons c channels)
  show ?case
  proof (cases "channels = []")
    case False
    then obtain u where u: "next_deadline channels = Some u" "u = Min (cs_next_deadline ` set channels)"
      using Cons.IH by blast
    have "Min (cs_next_deadline ` set (c # channels)) = min (cs_next_deadline c) u"
      using False u(2) by simp
    then show ?thesis using u(1) by (auto simp: min_def)
  qed auto
qed simp

lemma next_deadline_None: "next_deadline channels = None \<longleftrightarrow> channels = []"
  by (cases channels) (auto split: option.splits)

lemma due_ids_next_deadline:
  "due_ids now channels = [] \<longleftrightarrow> (\<forall>t. next_deadline channels = Some t \<longrightarrow> now < t)"
  by (auto simp: next_deadline_spec due_ids_def filter_empty_conv is_due_def not_le)

section \<open>The scheduler provides the poll-schedule interface\<close>

interpretation sched: poll_schedule "\<lambda>poll. dispatch_due (Some poll)" due_ids next_deadline wf_scheduler
proof (unfold_locales, goal_cases)
  case (1 q poll now st)
  then show ?case
    using due_ids_after by (auto simp: dispatch_due_eq wf_scheduler_def)
next
  case (2 q now)
  show ?case by (rule due_ids_next_deadline)
qed

section \<open>The period of a rate\<close>

lemma period_from_hz_Fin:
  "0 < h \<Longrightarrow> period_from_hz (Fin h) = d_to_int64 (d_mul (d64 (1 / h)) (Fin 1000000000))"
  by (simp add: period_from_hz_def Let_def)

lemma nano_exact: "d64 (round_mag 53 (- 1074) (1 / 1000000000) * 1000000000) = Fin 1"
  by code_simp

lemma nano_exact_mag: "round_mag 53 (- 1074) (round_mag 53 (- 1074) (1 / 1000000000) * 1000000000) = 1"
  by code_simp

lemma period_pos:
  assumes "0 < h" "h \<le> 1000000000" "1 / 1000 \<le> h"
  shows "\<exists>b. d_mul (d64 (1 / h)) (Fin 1000000000) = Fin b \<and> 1 \<le> b \<and>
             \<bar>b - 1000000000 / h\<bar> \<le> 1 / 1000"
proof -
  define x where "x = 1 / h"
  define a where "a = round_mag 53 (- 1074) x"
  define b where "b = round_mag 53 (- 1074) (a * 1000000000)"
  have x: "0 < x" "1 / 1000000000 \<le> x" "x \<le> 1000"
    using assms by (simp_all add: x_def divide_simps)
  have big: "(2::rat) powi 10 = 1024" "(2::rat) powi 40 = 1099511627776" by simp_all
  have x10: "x \<le> 2 powi 10" using x(3) by simp
  have a: "d64 x = Fin a" "a \<le> 1024" using d64_finite [OF x(1) x10] by (simp_all add: a_def)
  have amin: "round_mag 53 (- 1074) (1 / 1000000000) \<le> a"
    unfolding a_def by (rule round_mag_mono) (use x in simp_all)
  have pos: "0 < round_mag 53 (- 1074) (1 / 1000000000) * 1000000000" by code_simp
  have apos: "0 < a * 1000000000" using pos amin by simp
  have a40: "a * 1000000000 \<le> 2 powi 40" using a(2) by simp
  have b: "d64 (a * 1000000000) = Fin b" using d64_finite [OF apos a40] by (simp add: b_def)
  have "1 \<le> b"
    using round_mag_mono [OF pos, of "a * 1000000000" 53 "- 1074"] amin nano_exact_mag
    by (simp add: b_def)
  have tiny: "(2::rat) powi (- 1022) \<le> 2 powi (- 30)" by (simp only: powi2_le_iff)
  have m30: "(2::rat) powi (- 30) = 1 / 1073741824" by (simp add: power_int_minus)
  have m53: "(2::rat) powi (- 53) = 1 / 9007199254740992" by (simp add: power_int_minus)
  have "2 powi (- 1022) \<le> x" using tiny m30 x(2) by simp
  then have e1: "\<bar>x - a\<bar> \<le> x * 2 powi (- 53)" unfolding a_def by (rule d64_error)
  have "2 powi (- 1022) \<le> a * 1000000000"
  proof -
    have "\<bar>x - a\<bar> \<le> x / 2" using e1 x(1) by (simp add: m53)
    then have "x / 2 \<le> a" by linarith
    then show ?thesis using tiny m30 x(2) by simp
  qed
  then have e2: "\<bar>a * 1000000000 - b\<bar> \<le> a * 1000000000 * 2 powi (- 53)"
    unfolding b_def by (rule d64_error)
  have e1': "x - a \<le> 1 / 8000000000000" "a - x \<le> 1 / 8000000000000"
    using e1 [unfolded m53] x(3) abs_ge_self [of "x - a"] abs_ge_minus_self [of "x - a"] by linarith+
  have e2': "a * 1000000000 - b \<le> 1 / 2000" "b - a * 1000000000 \<le> 1 / 2000"
    using e2 [unfolded m53] a(2) abs_ge_self [of "a * 1000000000 - b"]
      abs_ge_minus_self [of "a * 1000000000 - b"] by linarith+
  have "b - 1000000000 * x \<le> 1 / 1000" "1000000000 * x - b \<le> 1 / 1000"
    using e1' e2' by (simp_all add: field_simps)
  then have "\<bar>b - 1000000000 * x\<bar> \<le> 1 / 1000" by (intro abs_leI) linarith+
  then have "\<bar>b - 1000000000 / h\<bar> \<le> 1 / 1000" by (simp add: x_def)
  with a(1) b \<open>1 \<le> b\<close> show ?thesis by (auto simp: x_def)
qed

lemma period_from_hz_bounds:
  assumes "1 / 1000 \<le> h" "h \<le> 1000000000"
  shows "\<exists>p. period_from_hz (Fin h) = Some p \<and> 1 \<le> p \<and> \<bar>of_int p - 1000000000 / h\<bar> < 1 + 1 / 1000"
proof -
  have h: "0 < h" using assms(1) by (simp add: less_le_trans [of 0 "1 / 1000"])
  obtain b where b: "d_mul (d64 (1 / h)) (Fin 1000000000) = Fin b" "1 \<le> b"
      "\<bar>b - 1000000000 / h\<bar> \<le> 1 / 1000"
    using period_pos [OF h assms(2,1)] by blast
  define p where "p = \<lfloor>b\<rfloor>"
  have p: "of_int p \<le> b" "b < of_int p + 1" unfolding p_def by linarith+
  have p1: "1 \<le> p" using b(2) by (simp add: p_def le_floor_iff)
  have "1000000000 / h \<le> 1000000000000" using assms(1) h by (simp add: divide_simps)
  then have "of_int p < (9223372036854775808 :: rat)" 
    using p b(3) abs_ge_self [of "b - 1000000000 / h"] by linarith
  then have "p < 2 ^ 63" by (simp add: of_int_less_numeral_iff)
  then have "d_to_int64 (Fin b) = Some p" using b(2) p1 by (simp add: trunc_rat_nonneg p_def Let_def)
  moreover have "\<bar>of_int p - 1000000000 / h\<bar> < 1 + 1 / 1000" using p b(3) by linarith
  ultimately show ?thesis using b(1) p1 period_from_hz_Fin [OF h] by auto
qed

lemma period_from_hz_zero:
  assumes "2147483648 \<le> h"
  shows "period_from_hz (Fin h) = Some 0"
proof -
  define a where "a = round_mag 53 (- 1074) (1 / h)"
  have h: "0 < h" using assms by simp
  have m31: "(2::rat) powi (- 31) = 1 / 2147483648" by (simp add: power_int_minus)
  have m1: "(2::rat) powi (- 1) = 1 / 2" by (simp add: power_int_minus)
  have x: "0 < 1 / h" "1 / h \<le> 2 powi (- 31)" using assms h by (simp_all add: m31 divide_simps)
  have a: "d64 (1 / h) = Fin a" "a \<le> 1 / 2147483648" "0 \<le> a"
    using d64_finite [OF x] round_mag_nonneg [of "1 / h"] h by (simp_all add: a_def m31)
  have "\<exists>b. d64 (a * 1000000000) = Fin b \<and> 0 \<le> b \<and> b < 1"
  proof (cases "a = 0")
    case True
    then show ?thesis by (simp add: d64_def fp_round_def)
  next
    case False
    then have y: "0 < a * 1000000000" "a * 1000000000 \<le> 2 powi (- 1)" using a by (simp_all add: m1)
    show ?thesis using d64_finite [OF y] round_mag_nonneg [of "a * 1000000000" 53 "- 1074"] y
      by (auto simp: m1)
  qed
  then obtain b where b: "d64 (a * 1000000000) = Fin b" "0 \<le> b" "b < 1" by blast
  then have "\<lfloor>b\<rfloor> = 0" by (simp add: floor_eq_iff)
  then show ?thesis using a b h by (simp add: period_from_hz_Fin trunc_rat_nonneg Let_def)
qed

section \<open>Configured schedules and runs\<close>

lemma configure_Some:
  "configure now entries = Some channels \<Longrightarrow>
   map cs_entry channels = entries \<and>
   (\<forall>c \<in> set channels. cs_next_deadline c = now \<and>
       period_from_hz (se_sample_rate_hz (cs_entry c)) = Some (cs_period c))"
proof (induction entries arbitrary: channels)
  case (Cons e es)
  then show ?case by (auto split: option.splits)
qed simp

lemma configure_returns:
  "\<forall>e \<in> set entries. \<exists>p. period_from_hz (se_sample_rate_hz e) = Some p \<Longrightarrow>
   \<exists>channels. configure now entries = Some channels"
  by (induction entries) fastforce+

definition usable_rate :: "double \<Rightarrow> bool" where
  \<comment> \<open>between one sample in a thousand seconds and one per nanosecond\<close>
  "usable_rate r \<longleftrightarrow> (case r of Fin h \<Rightarrow> 1 / 1000 \<le> h \<and> h \<le> 1000000000 | _ \<Rightarrow> False)"

lemma usable_rate_period:
  "usable_rate r \<Longrightarrow> \<exists>p. period_from_hz r = Some p \<and> 1 \<le> p"
  using period_from_hz_bounds by (fastforce simp: usable_rate_def split: fp.splits)

lemma configure_usable:
  assumes "\<forall>e \<in> set entries. usable_rate (se_sample_rate_hz e)"
  shows "\<exists>channels. configure now entries = Some channels \<and> wf_scheduler channels"
proof -
  obtain channels where c: "configure now entries = Some channels"
    using assms usable_rate_period configure_returns by metis
  note cs = configure_Some [OF c]
  have "wf_channel x" if x: "x \<in> set channels" for x
  proof -
    have "cs_entry x \<in> set entries" using cs x by force
    then have "usable_rate (se_sample_rate_hz (cs_entry x))" using assms by blast
    from usable_rate_period [OF this] show ?thesis using cs x by (auto simp: wf_channel_def)
  qed
  then show ?thesis using c by (auto simp: wf_scheduler_def)
qed

fun sched_run :: "int list \<Rightarrow> scheduler \<Rightarrow> ((string \<times> int) list \<times> scheduler) option" where
  \<comment> \<open>one dispatch per instant; the polls are logged in order with their instants\<close>
  "sched_run [] channels = Some ([], channels)"
| "sched_run (now # instants) channels =
     (case dispatch_due (Some (\<lambda>i trace. trace @ [(i, now)])) now channels [] of
        None \<Rightarrow> None
      | Some (_, channels', trace) \<Rightarrow>
          (case sched_run instants channels' of
             None \<Rightarrow> None
           | Some (trace', channels'') \<Rightarrow> Some (trace @ trace', channels'')))"

definition polls_of :: "string \<Rightarrow> (string \<times> int) list \<Rightarrow> int list" where
  \<comment> \<open>the instants at which the channel was polled\<close>
  "polls_of channel_id trace = map snd (filter (\<lambda>(i, _). i = channel_id) trace)"

definition grid_slot :: "channel_state \<Rightarrow> int \<Rightarrow> int" where
  \<comment> \<open>the period of the channel's grid, counted from its deadline, in which an instant lies\<close>
  "grid_slot c t = (t - cs_next_deadline c) div cs_period c"

fun poll_times :: "int list \<Rightarrow> channel_state \<Rightarrow> int list" where
  "poll_times [] c = []"
| "poll_times (now # instants) c = (if is_due now c then [now] else []) @ poll_times instants (reschedule now c)"

abbreviation channel_ids :: "scheduler \<Rightarrow> string list" where
  "channel_ids channels \<equiv> map (\<lambda>c. se_channel_id (cs_entry c)) channels"

lemma channel_ids_reschedule [simp]: "channel_ids (map (reschedule now) channels) = channel_ids channels"
  by simp

lemma fold_log: "fold (\<lambda>i trace. trace @ [(i, now)]) ids trace = trace @ map (\<lambda>i. (i, now)) ids"
  by (induction ids arbitrary: trace) simp_all

lemma polls_of_append [simp]: "polls_of i (xs @ ys) = polls_of i xs @ polls_of i ys"
  by (simp add: polls_of_def)

lemma polls_of_due:
  "distinct (channel_ids channels) \<Longrightarrow> c \<in> set channels \<Longrightarrow>
   polls_of (se_channel_id (cs_entry c)) (map (\<lambda>i. (i, now)) (due_ids now channels)) = (if is_due now c then [now] else [])"
proof (induction channels)
  case (Cons d channels)
  have none: "polls_of x (map (\<lambda>i. (i, now)) (due_ids now channels)) = []" if "x \<notin> set (channel_ids channels)" for x
    using that by (auto simp: due_ids_def polls_of_def filter_empty_conv)
  have "map (\<lambda>i. (i, now)) (due_ids now (d # channels)) =
      (if is_due now d then [(se_channel_id (cs_entry d), now)] else []) @ map (\<lambda>i. (i, now)) (due_ids now channels)"
    by (simp add: due_ids_def)
  then have split: "polls_of x (map (\<lambda>i. (i, now)) (due_ids now (d # channels))) =
      (if is_due now d \<and> se_channel_id (cs_entry d) = x then [now] else []) @
      polls_of x (map (\<lambda>i. (i, now)) (due_ids now channels))" for x
    by (simp add: polls_of_def)
  show ?case
  proof (cases "c = d")
    case True
    then show ?thesis using Cons.prems none [of "se_channel_id (cs_entry d)"] unfolding split by simp
  next
    case False
    then have "se_channel_id (cs_entry d) \<noteq> se_channel_id (cs_entry c)" using Cons.prems by force
    then show ?thesis using Cons False unfolding split by simp
  qed
qed simp

lemma sched_run_polls:
  "wf_scheduler channels \<Longrightarrow> distinct (channel_ids channels) \<Longrightarrow>
   \<exists>trace channels'. sched_run instants channels = Some (trace, channels') \<and>
     (\<forall>c \<in> set channels. polls_of (se_channel_id (cs_entry c)) trace = poll_times instants c)"
proof (induction instants arbitrary: channels)
  case Nil
  then show ?case by (simp add: polls_of_def)
next
  case (Cons now instants)
  let ?next = "map (reschedule now) channels"
  have wf: "wf_scheduler ?next" using Cons.prems by (simp add: wf_scheduler_def)
  have d: "distinct (channel_ids ?next)" using Cons.prems(2) by (simp only: channel_ids_reschedule)
  from Cons.IH [OF wf d] obtain trace channels' where
    r: "sched_run instants ?next = Some (trace, channels')"
       "\<forall>c \<in> set ?next. polls_of (se_channel_id (cs_entry c)) trace = poll_times instants c" by blast
  have "polls_of (se_channel_id (cs_entry c)) (map (\<lambda>i. (i, now)) (due_ids now channels) @ trace) = poll_times (now # instants) c"
    if "c \<in> set channels" for c
    using polls_of_due [OF Cons.prems(2) that, of now] r(2) that by force
  then show ?case using r(1) Cons.prems by (simp add: dispatch_due_eq fold_log)
qed

text \<open>The period in which a poll falls is over when the channel is polled again.\<close>

lemma grid_slot_reschedule:
  assumes "wf_channel c" "is_due now c"
  shows "grid_slot c t = grid_slot (reschedule now c) t + (grid_slot c now + 1)"
proof -
  define p d d' where "p = cs_period c" and "d = cs_next_deadline c" and "d' = cs_next_deadline (reschedule now c)"
  have p: "0 < p" using assms(1) by (simp add: wf_channel_def p_def)
  have "d' = d + (grid_slot c now + 1) * p"
    using assms(2) by (simp add: reschedule_def next_slot_def grid_slot_def p_def d_def d'_def)
  then have "t - d = (t - d') + (grid_slot c now + 1) * p" by simp
  then have "(t - d) div p = ((t - d') + (grid_slot c now + 1) * p) div p" by (simp only:)
  also have "\<dots> = (grid_slot c now + 1) + (t - d') div p" by (rule div_mult_self1) (use p in simp)
  finally have "(t - d) div p = (grid_slot c now + 1) + (t - d') div p" .
  then show ?thesis by (simp add: grid_slot_def p_def d_def d'_def)
qed

lemma poll_times_slots:
  "wf_channel c \<Longrightarrow> (\<forall>t \<in> set (poll_times instants c). 0 \<le> grid_slot c t) \<and>
     sorted_wrt (<) (map (grid_slot c) (poll_times instants c))"
proof (induction instants arbitrary: c)
  case (Cons now instants)
  let ?c = "reschedule now c"
  have IH: "\<forall>t \<in> set (poll_times instants ?c). 0 \<le> grid_slot ?c t"
    "sorted_wrt (<) (map (grid_slot ?c) (poll_times instants ?c))"
    using Cons.IH [of ?c] Cons.prems by simp_all
  show ?case
  proof (cases "is_due now c")
    case False
    then show ?thesis using IH by (simp add: reschedule_def)
  next
    case True
    define m where "m = grid_slot c now + 1"
    have step: "grid_slot c t = grid_slot ?c t + m" for t
      unfolding m_def by (rule grid_slot_reschedule [OF Cons.prems True])
    have now: "0 \<le> grid_slot c now"
      using True Cons.prems by (simp add: grid_slot_def is_due_def wf_channel_def pos_imp_zdiv_nonneg_iff)
    have later: "grid_slot c now < grid_slot c t" if "t \<in> set (poll_times instants ?c)" for t
      using bspec [OF IH(1) that] step [of t] unfolding m_def by linarith
    moreover have "sorted_wrt (<) (map (grid_slot c) (poll_times instants ?c))"
      using IH(2) by (simp add: sorted_wrt_map step)
    moreover have "0 \<le> grid_slot c t" if "t \<in> set (poll_times instants ?c)" for t
      using later [OF that] now by linarith
    ultimately show ?thesis using True now later by simp
  qed
qed simp

lemma dispatch_channels_diverges:
  assumes "c \<in> set channels" "is_due now c" "cs_period c \<le> 0"
  shows "dispatch_channels poll now channels st = None"
  using assms(1)
proof (induction channels arbitrary: st)
  case (Cons d channels)
  show ?case
  proof (cases "c = d")
    case True
    have "catch_up (cs_next_deadline c + cs_period c) (cs_period c) now = None"
      using assms by (intro catch_up_diverges) (simp_all add: is_due_def)
    then show ?thesis using True assms(2) by (simp add: is_due_def advance_def)
  next
    case False
    then show ?thesis using Cons by (auto simp: Let_def split: option.splits)
  qed
qed simp

section \<open>Example data\<close>

definition ex_entries :: "schedule_entry list" where
  "ex_entries = [\<lparr>se_channel_id = ''fast'', se_sample_rate_hz = Fin 10\<rparr>,
                 \<lparr>se_channel_id = ''slow'', se_sample_rate_hz = Fin 2\<rparr>]"

definition ex_schedule :: scheduler where
  "ex_schedule =
     [\<lparr>cs_entry = \<lparr>se_channel_id = ''fast'', se_sample_rate_hz = Fin 10\<rparr>,
       cs_next_deadline = 0, cs_period = 100000000\<rparr>,
      \<lparr>cs_entry = \<lparr>se_channel_id = ''slow'', se_sample_rate_hz = Fin 2\<rparr>,
       cs_next_deadline = 0, cs_period = 500000000\<rparr>]"

lemma configure_ex_entries: "configure 0 ex_entries = Some ex_schedule"
  by code_simp

lemma wf_ex_schedule: "wf_scheduler ex_schedule"
  by code_simp

section \<open>Properties\<close>

text \<open>
  C13: on channels with positive periods a dispatch always returns. It polls exactly the
  channels whose deadline has passed, each once and in configuration order, returns their
  number, leaves the others alone, and moves each polled channel to the first slot of its own
  grid after the current time, at most one period away: no catch-up storm and no drift.
\<close>

theorem scheduler_dispatch_exact:
  assumes "wf_scheduler channels"
  shows "dispatch_due (Some poll) now channels st
         = Some (length (due_ids now channels), map (reschedule now) channels,
                 fold poll (due_ids now channels) st)
       \<and> (\<forall>c \<in> set channels. is_due now c \<longrightarrow>
            now < cs_next_deadline (reschedule now c)
            \<and> cs_next_deadline (reschedule now c) \<le> now + cs_period c
            \<and> cs_period c dvd cs_next_deadline (reschedule now c) - cs_next_deadline c)"
  using dispatch_due_eq [OF assms, of poll now st] next_slot_bounds [of _ now] assms
  by (auto simp: reschedule_def wf_scheduler_def) (simp add: next_slot_def)

theorem scheduler_dispatch_exact_witness:
  "wf_scheduler ex_schedule \<and>
   dispatch_due (Some (\<lambda>i s. s @ [i])) 250000000 ex_schedule []
     = Some (2, map (reschedule 250000000) ex_schedule, [''fast'', ''slow'']) \<and>
   map cs_next_deadline (map (reschedule 250000000) ex_schedule) = [300000000, 500000000]"
proof -
  have d: "due_ids 250000000 ex_schedule = [''fast'', ''slow'']" by code_simp
  have n: "map cs_next_deadline (map (reschedule 250000000) ex_schedule) = [300000000, 500000000]"
    by code_simp
  from scheduler_dispatch_exact [OF wf_ex_schedule, of "\<lambda>i s. s @ [i]" 250000000 "[]"]
  show ?thesis using d n wf_ex_schedule by simp
qed

text \<open>
  C14: rate limit. However often and at whatever instants the service loop dispatches, every dispatch
  returns and a channel is polled at most once per period: the periods of its grid, counted from its first
  deadline, in which its polls fall come one after the other, none twice and none before the first.
\<close>

theorem scheduler_rate_limit:
  assumes "wf_scheduler channels" and "distinct (channel_ids channels)" and "c \<in> set channels"
  shows "\<exists>trace channels'. sched_run instants channels = Some (trace, channels') \<and>
           sorted_wrt (<) (map (grid_slot c) (polls_of (se_channel_id (cs_entry c)) trace)) \<and>
           (\<forall>t \<in> set (polls_of (se_channel_id (cs_entry c)) trace). 0 \<le> grid_slot c t)"
proof -
  have "wf_channel c" using assms(1,3) by (simp add: wf_scheduler_def)
  with sched_run_polls [OF assms(1,2), of instants] poll_times_slots [of c instants] assms(3) show ?thesis by auto
qed

theorem scheduler_rate_limit_witness:
  "\<exists>trace channels'. sched_run [0, 10, 250000000, 260000000, 299999999] ex_schedule = Some (trace, channels') \<and>
     polls_of ''fast'' trace = [0, 250000000] \<and> sorted_wrt (<) (map (\<lambda>t. t div 100000000) (polls_of ''fast'' trace))"
proof -
  define c where "c = hd ex_schedule"
  have c: "c \<in> set ex_schedule" "se_channel_id (cs_entry c) = ''fast''" "cs_period c = 100000000"
    "cs_next_deadline c = 0" by (simp_all add: c_def ex_schedule_def)
  have slot: "grid_slot c = (\<lambda>t. t div 100000000)" by (simp add: grid_slot_def c(3,4) fun_eq_iff)
  have d: "distinct (channel_ids ex_schedule)" by code_simp
  have "poll_times [0, 10, 250000000, 260000000, 299999999] c = [0, 250000000]"
    unfolding c_def by code_simp
  with sched_run_polls [OF wf_ex_schedule d, of "[0, 10, 250000000, 260000000, 299999999]"] c(1,2)
  obtain trace channels' where r: "sched_run [0, 10, 250000000, 260000000, 299999999] ex_schedule = Some (trace, channels')"
    "polls_of ''fast'' trace = [0, 250000000]" by auto
  from scheduler_rate_limit [OF wf_ex_schedule d c(1), of "[0, 10, 250000000, 260000000, 299999999]"]
  have "sorted_wrt (<) (map (\<lambda>t. t div 100000000) (polls_of ''fast'' trace))" unfolding slot c(2) r(1) by blast
  with r show ?thesis by blast
qed

text \<open>
  C15: for every rate from 0.001 Hz to 1 GHz the floating-point computation of the period is
  defined, never yields zero, and misses the exact period by less than 1.001 nanoseconds.
\<close>

theorem scheduler_period_accurate:
  assumes "1 / 1000 \<le> h" and "h \<le> 1000000000"
  shows "\<exists>p. period_from_hz (Fin h) = Some p \<and> 1 \<le> p \<and> \<bar>of_int p - 1000000000 / h\<bar> < 1 + 1 / 1000"
  using assms by (rule period_from_hz_bounds)

theorem scheduler_period_accurate_witness:
  "\<exists>p. period_from_hz (Fin 3) = Some p \<and> 1 \<le> p \<and> \<bar>of_int p - (1000000000 :: rat) / 3\<bar> < 1 + 1 / 1000"
  using scheduler_period_accurate [of 3] by simp

text \<open>
  C16: a rate of 2147483648 Hz or more is truncated to the period zero, and then the catch-up
  loop of the first dispatch at or after the configuration never ends: the guard against a
  non-advancing period comes after the loop and is never reached.
\<close>

theorem scheduler_hangs_on_huge_rate:
  assumes "configure t0 entries = Some channels"
    and "e \<in> set entries" and "se_sample_rate_hz e = Fin h" and "2147483648 \<le> h" and "t0 \<le> now"
  shows "dispatch_due (Some poll) now channels st = None"
proof -
  note cs = configure_Some [OF assms(1)]
  obtain c where c: "c \<in> set channels" "cs_entry c = e" using cs assms(2) by force
  then have "period_from_hz (Fin h) = Some (cs_period c)" "cs_next_deadline c = t0"
    using cs assms(3) by auto
  then have "cs_period c \<le> 0" "is_due now c"
    using period_from_hz_zero [OF assms(4)] assms(5) by (simp_all add: is_due_def)
  then show ?thesis using dispatch_channels_diverges [OF c(1)] by (simp add: dispatch_due_def)
qed

theorem scheduler_hangs_on_huge_rate_witness:
  "\<exists>channels. configure 0 [\<lparr>se_channel_id = ''x'', se_sample_rate_hz = Fin 4000000000\<rparr>] = Some channels \<and>
     dispatch_due (Some (\<lambda>i n. Suc n)) 0 channels (0::nat) = None"
proof -
  let ?e = "\<lparr>se_channel_id = ''x'', se_sample_rate_hz = Fin 4000000000\<rparr>"
  have "configure 0 [?e] = Some [\<lparr>cs_entry = ?e, cs_next_deadline = 0, cs_period = 0\<rparr>]"
    by (simp add: period_from_hz_zero)
  from scheduler_hangs_on_huge_rate [OF this, of ?e 4000000000 0 "\<lambda>i n. Suc n" "0::nat"] this
  show ?thesis by auto
qed

end
