(* ===== verification/UploadPolicy.thy ===== *)
theory UploadPolicy
  imports Telemetry "HOL-Library.AList"
begin

text \<open>
  When the buffered samples are to be uploaded, \<open>src/sync/upload_policy.cpp\<close>. The hash table
  of channels is an association list with one entry per key; only its contents matter, since
  every loop over it is a search or a uniform update. Times are nanoseconds of the steady clock.
\<close>

section \<open>State\<close>

record channel_sync_state =
  cy_channel_id :: string
  cy_mode :: sync_mode
  cy_priority :: priority
  cy_remote_interval :: int       \<comment> \<open>seconds\<close>
  cy_on_change_threshold :: double
  cy_destination_remote :: bool

record runtime_state =
  ps_config :: channel_sync_state
  ps_last_flush :: int
  ps_last_uploaded_value :: double
  ps_has_uploaded_value :: bool
  ps_pending_realtime :: bool
  ps_pending_on_change :: bool

record upload_policy =
  pol_channels :: "(string \<times> runtime_state) list"
  pol_any_pending_realtime :: bool
  pol_any_pending_on_change :: bool

definition upload_policy_new :: upload_policy where
  "upload_policy_new =
     \<lparr>pol_channels = [], pol_any_pending_realtime = False, pol_any_pending_on_change = False\<rparr>"

section \<open>Operations\<close>

definition configure_channel :: "channel_sync_state \<Rightarrow> int \<Rightarrow> upload_policy \<Rightarrow> upload_policy" where
  "configure_channel state now p =
     (let runtime = \<lparr>ps_config = state, ps_last_flush = now, ps_last_uploaded_value = Fin 0,
                     ps_has_uploaded_value = False, ps_pending_realtime = False,
                     ps_pending_on_change = False\<rparr>
      in p\<lparr>pol_channels := AList.update (cy_channel_id state) runtime (pol_channels p)\<rparr>)"

definition policy_clear :: "upload_policy \<Rightarrow> upload_policy" where
  "policy_clear p =
     p\<lparr>pol_channels := [], pol_any_pending_realtime := False, pol_any_pending_on_change := False\<rparr>"

definition on_sample :: "string \<Rightarrow> double \<Rightarrow> int \<Rightarrow> upload_policy \<Rightarrow> upload_policy" where
  "on_sample channel_id value now p =
     (case map_of (pol_channels p) channel_id of
        None \<Rightarrow> p
      | Some state \<Rightarrow>
         (if \<not> cy_destination_remote (ps_config state) then p
          else (case cy_mode (ps_config state) of
             KRealtime \<Rightarrow>
               p\<lparr>pol_channels := AList.update channel_id (state\<lparr>ps_pending_realtime := True\<rparr>) (pol_channels p),
                 pol_any_pending_realtime := True\<rparr>
           | KOnChange \<Rightarrow>
               (if \<not> ps_has_uploaded_value state \<or>
                   d_less (cy_on_change_threshold (ps_config state))
                          (d_abs (d_sub value (ps_last_uploaded_value state)))
                then p\<lparr>pol_channels := AList.update channel_id
                         (state\<lparr>ps_pending_on_change := True, ps_last_uploaded_value := value,
                                ps_has_uploaded_value := True\<rparr>) (pol_channels p),
                       pol_any_pending_on_change := True\<rparr>
                else p)
           | KBatch \<Rightarrow> p)))"

definition should_flush :: "int \<Rightarrow> nat \<Rightarrow> nat \<Rightarrow> upload_policy \<Rightarrow> bool" where
  "should_flush now buffered_count max_batch_size p =
     (if buffered_count = 0 then False
      else if 0 < max_batch_size \<and> max_batch_size \<le> buffered_count then True
      else if pol_any_pending_realtime p \<or> pol_any_pending_on_change p then True
      else list_ex (\<lambda>(_, state).
             cy_destination_remote (ps_config state) \<and> cy_mode (ps_config state) = KBatch \<and>
             cy_remote_interval (ps_config state) * 1000000000 \<le> now - ps_last_flush state)
             (pol_channels p))"

definition mark_flushed :: "int \<Rightarrow> upload_policy \<Rightarrow> upload_policy" where
  "mark_flushed now p =
     p\<lparr>pol_any_pending_realtime := False, pol_any_pending_on_change := False,
       pol_channels := map (\<lambda>(k, state). (k, state\<lparr>ps_last_flush := now, ps_pending_realtime := False,
                                              ps_pending_on_change := False\<rparr>)) (pol_channels p)\<rparr>"

section \<open>The policy as a history\<close>

text \<open>
  What the policy should answer, said without its state: from the events since it was configured.
\<close>

datatype policy_event = PolSample string double int | PolFlush int

fun apply_event :: "policy_event \<Rightarrow> upload_policy \<Rightarrow> upload_policy" where
  "apply_event (PolSample channel_id v t) p = on_sample channel_id v t p"
| "apply_event (PolFlush t) p = mark_flushed t p"

definition run_policy :: "policy_event list \<Rightarrow> upload_policy \<Rightarrow> upload_policy" where
  "run_policy events p = fold apply_event events p"

fun is_flush :: "policy_event \<Rightarrow> bool" where
  "is_flush (PolFlush _) = True"
| "is_flush (PolSample _ _ _) = False"

fun values_of :: "string \<Rightarrow> policy_event list \<Rightarrow> double list" where
  "values_of c [] = []"
| "values_of c (PolSample d v _ # events) = (if c = d then v # values_of c events else values_of c events)"
| "values_of c (PolFlush _ # events) = values_of c events"

definition moved :: "double \<Rightarrow> double option \<Rightarrow> double \<Rightarrow> bool" where
  \<comment> \<open>the value left the dead band around the reference, if there is one\<close>
  "moved threshold reference v =
     (case reference of None \<Rightarrow> True | Some r \<Rightarrow> d_less threshold (d_abs (d_sub v r)))"

definition reference_after :: "double \<Rightarrow> double list \<Rightarrow> double option" where
  \<comment> \<open>the last value that left the dead band around the one before\<close>
  "reference_after threshold vs =
     fold (\<lambda>v reference. if moved threshold reference v then Some v else reference) vs None"

fun last_flush_time :: "int \<Rightarrow> policy_event list \<Rightarrow> int" where
  "last_flush_time t [] = t"
| "last_flush_time t (PolFlush now # events) = last_flush_time now events"
| "last_flush_time t (PolSample _ _ _ # events) = last_flush_time t events"

definition remote_channel :: "upload_policy \<Rightarrow> string \<Rightarrow> sync_mode \<Rightarrow> runtime_state \<Rightarrow> bool" where
  "remote_channel p channel_id mode state \<longleftrightarrow> map_of (pol_channels p) channel_id = Some state \<and>
     cy_destination_remote (ps_config state) \<and> cy_mode (ps_config state) = mode"

definition realtime_waiting :: "upload_policy \<Rightarrow> policy_event list \<Rightarrow> bool" where
  \<comment> \<open>a sample of a remote realtime channel arrived after the last flush\<close>
  "realtime_waiting p events \<longleftrightarrow>
     (\<exists>before c v t after state. events = before @ PolSample c v t # after \<and>
        (\<forall>e \<in> set after. \<not> is_flush e) \<and> remote_channel p c KRealtime state)"

definition on_change_waiting :: "upload_policy \<Rightarrow> policy_event list \<Rightarrow> bool" where
  \<comment> \<open>a sample of a remote on-change channel left the dead band after the last flush\<close>
  "on_change_waiting p events \<longleftrightarrow>
     (\<exists>before c v t after state. events = before @ PolSample c v t # after \<and>
        (\<forall>e \<in> set after. \<not> is_flush e) \<and> remote_channel p c KOnChange state \<and>
        moved (cy_on_change_threshold (ps_config state))
          (reference_after (cy_on_change_threshold (ps_config state)) (values_of c before)) v)"

definition interval_over :: "upload_policy \<Rightarrow> policy_event list \<Rightarrow> int \<Rightarrow> bool" where
  \<comment> \<open>some remote batch channel was last flushed, or configured, an interval ago\<close>
  "interval_over p events now \<longleftrightarrow>
     (\<exists>c state. remote_channel p c KBatch state \<and>
        cy_remote_interval (ps_config state) * 1000000000
          \<le> now - last_flush_time (ps_last_flush state) events)"

definition fresh_policy :: "upload_policy \<Rightarrow> bool" where
  "fresh_policy p \<longleftrightarrow> distinct (map fst (pol_channels p)) \<and>
     \<not> pol_any_pending_realtime p \<and> \<not> pol_any_pending_on_change p \<and>
     (\<forall>(c, state) \<in> set (pol_channels p). \<not> ps_has_uploaded_value state)"

lemma fresh_new [wf_intros]: "fresh_policy upload_policy_new" "fresh_policy (policy_clear p)"
  by (simp_all add: fresh_policy_def upload_policy_new_def policy_clear_def)

lemma fresh_configure_channel [wf_intros]:
  assumes "fresh_policy p"
  shows "fresh_policy (configure_channel state now p)"
proof -
  let ?p = "configure_channel state now p"
  have d: "distinct (map fst (pol_channels ?p))"
    using assms by (simp add: fresh_policy_def configure_channel_def Let_def distinct_update)
  have "map_of (pol_channels ?p) c = Some s \<Longrightarrow> \<not> ps_has_uploaded_value s" for c s
    using assms by (auto simp: fresh_policy_def configure_channel_def Let_def update_conv'
        split: if_splits dest: map_of_SomeD)
  then have "\<forall>(c, s) \<in> set (pol_channels ?p). \<not> ps_has_uploaded_value s"
    using d by (auto simp: map_of_eq_Some_iff)
  with d assms show ?thesis by (simp add: fresh_policy_def configure_channel_def Let_def)
qed

section \<open>Histories grow at the end\<close>

lemma values_of_append [simp]: "values_of c (xs @ ys) = values_of c xs @ values_of c ys"
  by (induction c xs rule: values_of.induct) simp_all

lemma last_flush_time_append [simp]:
  "last_flush_time t (xs @ ys) = last_flush_time (last_flush_time t xs) ys"
  by (induction t xs rule: last_flush_time.induct) simp_all

lemma reference_after_Nil [simp]: "reference_after threshold [] = None"
  by (simp add: reference_after_def)

lemma reference_after_snoc [simp]:
  "reference_after threshold (vs @ [v]) =
     (if moved threshold (reference_after threshold vs) v then Some v else reference_after threshold vs)"
  by (simp add: reference_after_def)

lemma waiting_Nil [simp]: "\<not> realtime_waiting p []" "\<not> on_change_waiting p []"
  by (simp_all add: realtime_waiting_def on_change_waiting_def)

lemma split_snoc_event:
  "(\<exists>before c v t after. events @ [e] = before @ PolSample c v t # after \<and>
      (\<forall>x \<in> set after. \<not> is_flush x) \<and> P before c v) \<longleftrightarrow>
   (case e of
      PolFlush _ \<Rightarrow> False
    | PolSample c v _ \<Rightarrow> P events c v \<or>
        (\<exists>before c v t after. events = before @ PolSample c v t # after \<and>
           (\<forall>x \<in> set after. \<not> is_flush x) \<and> P before c v))" (is "?l \<longleftrightarrow> ?r")
proof
  assume ?l
  then obtain before c v t after where h: "events @ [e] = before @ PolSample c v t # after"
      "\<forall>x \<in> set after. \<not> is_flush x" "P before c v" by blast
  show ?r
  proof (cases after rule: rev_cases)
    case Nil
    then show ?thesis using h by auto
  next
    case (snoc ys y)
    then have "events = before @ PolSample c v t # ys" "e = y" "\<not> is_flush e" "\<forall>x \<in> set ys. \<not> is_flush x"
      using h by auto
    moreover obtain d u s where e: "e = PolSample d u s" using \<open>\<not> is_flush e\<close> by (cases e) auto
    ultimately show ?thesis using h(3) unfolding e policy_event.case by blast
  qed
next
  assume r: ?r
  then obtain c v t where e: "e = PolSample c v t" by (cases e) auto
  from r e consider "P events c v" | before d u s after where "events = before @ PolSample d u s # after"
      "\<forall>x \<in> set after. \<not> is_flush x" "P before d u" by auto
  then show ?l
  proof cases
    case 1
    then show ?thesis using e by (intro exI [of _ events] exI [of _ c] exI [of _ v] exI [of _ t] exI [of _ "[]"]) simp
  next
    case 2
    then show ?thesis using e
      by (intro exI [of _ before] exI [of _ d] exI [of _ u] exI [of _ s] exI [of _ "after @ [e]"]) auto
  qed
qed

lemma realtime_waiting_snoc [simp]:
  "realtime_waiting p (events @ [PolFlush t]) = False"
  "realtime_waiting p (events @ [PolSample c v t]) \<longleftrightarrow>
     (\<exists>state. remote_channel p c KRealtime state) \<or> realtime_waiting p events"
  using split_snoc_event [of events "PolFlush t" "\<lambda>_ c _. \<exists>state. remote_channel p c KRealtime state"]
    split_snoc_event [of events "PolSample c v t" "\<lambda>_ c _. \<exists>state. remote_channel p c KRealtime state"]
  by (simp_all add: realtime_waiting_def)

definition change_at :: "upload_policy \<Rightarrow> policy_event list \<Rightarrow> string \<Rightarrow> double \<Rightarrow> bool" where
  "change_at p before c v \<longleftrightarrow> (\<exists>state. remote_channel p c KOnChange state \<and>
     moved (cy_on_change_threshold (ps_config state))
       (reference_after (cy_on_change_threshold (ps_config state)) (values_of c before)) v)"

lemma on_change_waiting_snoc [simp]:
  "on_change_waiting p (events @ [PolFlush t]) = False"
  "on_change_waiting p (events @ [PolSample c v t]) \<longleftrightarrow>
     change_at p events c v \<or> on_change_waiting p events"
  using split_snoc_event [of events "PolFlush t" "change_at p"]
    split_snoc_event [of events "PolSample c v t" "change_at p"]
  by (simp_all add: on_change_waiting_def change_at_def)

section \<open>The state follows the history\<close>

definition state_follows :: "policy_event list \<Rightarrow> string \<Rightarrow> runtime_state \<Rightarrow> runtime_state \<Rightarrow> bool" where
  "state_follows events c s0 s \<longleftrightarrow> ps_config s = ps_config s0 \<and>
     ps_last_flush s = last_flush_time (ps_last_flush s0) events \<and>
     (cy_destination_remote (ps_config s0) \<and> cy_mode (ps_config s0) = KOnChange \<longrightarrow>
       (case reference_after (cy_on_change_threshold (ps_config s0)) (values_of c events) of
          None \<Rightarrow> \<not> ps_has_uploaded_value s
        | Some r \<Rightarrow> ps_has_uploaded_value s \<and> ps_last_uploaded_value s = r))"

definition policy_follows :: "upload_policy \<Rightarrow> policy_event list \<Rightarrow> upload_policy \<Rightarrow> bool" where
  "policy_follows p0 events p \<longleftrightarrow> distinct (map fst (pol_channels p)) \<and>
     (\<forall>c. rel_option (state_follows events c) (map_of (pol_channels p0) c) (map_of (pol_channels p) c)) \<and>
     pol_any_pending_realtime p = realtime_waiting p0 events \<and>
     pol_any_pending_on_change p = on_change_waiting p0 events"

lemma map_of_map_values: "map_of (map (\<lambda>(k, v). (k, f v)) xs) c = map_option f (map_of xs c)"
  by (induction xs) auto

lemma policy_follows_fresh: "fresh_policy p \<Longrightarrow> policy_follows p [] p"
  unfolding policy_follows_def fresh_policy_def state_follows_def
  by (auto intro!: rel_option_reflI dest: map_of_SomeD)

lemma policy_follows_flush:
  assumes "policy_follows p0 events p"
  shows "policy_follows p0 (events @ [PolFlush now]) (mark_flushed now p)"
proof -
  have keys: "map fst (pol_channels (mark_flushed now p)) = map fst (pol_channels p)"
    by (simp add: mark_flushed_def comp_def case_prod_beta)
  have "rel_option (state_follows (events @ [PolFlush now]) c) (map_of (pol_channels p0) c)
          (map_of (pol_channels (mark_flushed now p)) c)" for c
    using assms unfolding policy_follows_def
    by (auto simp: mark_flushed_def map_of_map_values option.rel_map state_follows_def
        elim!: allE [of _ c] option.rel_mono_strong split: option.splits)
  then show ?thesis using assms keys by (simp add: policy_follows_def) (simp add: mark_flushed_def)
qed

lemma state_follows_same:
  assumes "state_follows events c s0 s"
    and "c = d \<longrightarrow> \<not> (cy_destination_remote (ps_config s0) \<and> cy_mode (ps_config s0) = KOnChange) \<or>
           \<not> moved (cy_on_change_threshold (ps_config s0))
               (reference_after (cy_on_change_threshold (ps_config s0)) (values_of c events)) v"
  shows "state_follows (events @ [PolSample d v t]) c s0 s"
  using assms by (auto simp: state_follows_def)

lemma moved_by_state:
  assumes "state_follows events c s0 s" "cy_destination_remote (ps_config s0)"
    and "cy_mode (ps_config s0) = KOnChange"
  shows "moved (cy_on_change_threshold (ps_config s0))
           (reference_after (cy_on_change_threshold (ps_config s0)) (values_of c events)) v \<longleftrightarrow>
         \<not> ps_has_uploaded_value s \<or>
         d_less (cy_on_change_threshold (ps_config s)) (d_abs (d_sub v (ps_last_uploaded_value s)))"
  using assms by (auto simp: state_follows_def moved_def split: option.splits)

lemma rel_unchanged:
  assumes "\<forall>k. rel_option (state_follows events k) (f k) (g k)"
    and "\<forall>s0. f d = Some s0 \<longrightarrow>
           \<not> (cy_destination_remote (ps_config s0) \<and> cy_mode (ps_config s0) = KOnChange) \<or>
           \<not> moved (cy_on_change_threshold (ps_config s0))
               (reference_after (cy_on_change_threshold (ps_config s0)) (values_of d events)) v"
  shows "\<forall>k. rel_option (state_follows (events @ [PolSample d v t]) k) (f k) (g k)"
proof
  fix k
  show "rel_option (state_follows (events @ [PolSample d v t]) k) (f k) (g k)"
    using assms(1) [rule_format, of k] assms(2) state_follows_same [of events k _ _ d v t]
    by (cases "k = d") (auto elim!: option.rel_cases)
qed

lemma rel_updated:
  assumes "\<forall>k. rel_option (state_follows events k) (f k) (g k)" "f d = Some s0"
    and "state_follows (events @ [PolSample d v t]) d s0 s"
  shows "\<forall>k. rel_option (state_follows (events @ [PolSample d v t]) k) (f k) ((g(d \<mapsto> s)) k)"
proof
  fix k
  show "rel_option (state_follows (events @ [PolSample d v t]) k) (f k) ((g(d \<mapsto> s)) k)"
    using assms(1) [rule_format, of k] assms(2,3) state_follows_same [of events k _ _ d v t]
    by (cases "k = d") (auto elim!: option.rel_cases)
qed

lemma policy_follows_sample:
  assumes "policy_follows p0 events p"
  shows "policy_follows p0 (events @ [PolSample d v t]) (on_sample d v t p)"
proof (cases "map_of (pol_channels p) d")
  case None
  have rel: "\<forall>k. rel_option (state_follows events k) (map_of (pol_channels p0) k) (map_of (pol_channels p) k)"
    using assms by (simp add: policy_follows_def)
  then have "map_of (pol_channels p0) d = None" using None by (metis option.rel_distinct(2) option.exhaust)
  then show ?thesis using None assms rel_unchanged [OF rel, of d v t]
    by (simp add: policy_follows_def on_sample_def remote_channel_def change_at_def)
next
  case (Some s)
  have rel: "\<forall>k. rel_option (state_follows events k) (map_of (pol_channels p0) k) (map_of (pol_channels p) k)"
    and keys: "distinct (map fst (pol_channels p))"
    and flags: "pol_any_pending_realtime p = realtime_waiting p0 events"
      "pol_any_pending_on_change p = on_change_waiting p0 events"
    using assms by (simp_all add: policy_follows_def)
  obtain s0 where s0: "map_of (pol_channels p0) d = Some s0" "state_follows events d s0 s"
    using Some rel [rule_format, of d] by (auto elim: option.rel_cases)
  have config: "ps_config s = ps_config s0" using s0(2) by (simp add: state_follows_def)
  have rc: "remote_channel p0 d m st \<longleftrightarrow> st = s0 \<and> cy_destination_remote (ps_config s0) \<and>
              cy_mode (ps_config s0) = m" for m st
    using s0(1) by (auto simp: remote_channel_def)
  have ca: "change_at p0 events d v \<longleftrightarrow> cy_destination_remote (ps_config s0) \<and>
      cy_mode (ps_config s0) = KOnChange \<and> (\<not> ps_has_uploaded_value s \<or>
      d_less (cy_on_change_threshold (ps_config s)) (d_abs (d_sub v (ps_last_uploaded_value s))))"
    using moved_by_state [OF s0(2), of v] by (auto simp: change_at_def rc)
  note unchanged = rel_unchanged [OF rel, of d v t] and updated = rel_updated [OF rel s0(1), of v t]
  show ?thesis
  proof (cases "change_at p0 events d v")
    case True
    let ?s = "s\<lparr>ps_pending_on_change := True, ps_last_uploaded_value := v, ps_has_uploaded_value := True\<rparr>"
    have "state_follows (events @ [PolSample d v t]) d s0 ?s"
      using s0(2) True rc by (auto simp: state_follows_def change_at_def)
    with updated show ?thesis using True Some keys flags config ca
      by (simp add: policy_follows_def on_sample_def rc update_conv' distinct_update)
  next
    case False
    have same: "\<forall>k. rel_option (state_follows (events @ [PolSample d v t]) k)
                  (map_of (pol_channels p0) k) (map_of (pol_channels p) k)"
      using unchanged False s0(1) by (auto simp: change_at_def rc)
    have "state_follows (events @ [PolSample d v t]) d s0 (s\<lparr>ps_pending_realtime := True\<rparr>)"
      if "cy_mode (ps_config s0) = KRealtime"
      using s0(2) that by (simp add: state_follows_def)
    with updated same show ?thesis using False Some keys flags config ca
      by (cases "cy_mode (ps_config s0)")
         (simp_all add: policy_follows_def on_sample_def rc update_conv' distinct_update)
  qed
qed

lemma run_policy_follows: "fresh_policy p \<Longrightarrow> policy_follows p events (run_policy events p)"
proof (induction events rule: rev_induct)
  case Nil
  then show ?case by (simp add: run_policy_def policy_follows_fresh)
next
  case (snoc e events)
  then show ?case using policy_follows_sample policy_follows_flush
    by (cases e) (auto simp: run_policy_def)
qed

section \<open>Properties of the policy\<close>

lemma interval_over_run:
  assumes "policy_follows p0 events p"
  shows "list_ex (\<lambda>(_, s). cy_destination_remote (ps_config s) \<and> cy_mode (ps_config s) = KBatch \<and>
           cy_remote_interval (ps_config s) * 1000000000 \<le> now - ps_last_flush s) (pol_channels p)
         \<longleftrightarrow> interval_over p0 events now" (is "?l \<longleftrightarrow> _")
proof -
  have keys: "distinct (map fst (pol_channels p))"
    and rel: "rel_option (state_follows events c) (map_of (pol_channels p0) c) (map_of (pol_channels p) c)" for c
    using assms by (simp_all add: policy_follows_def)
  have "?l \<longleftrightarrow> (\<exists>c s. map_of (pol_channels p) c = Some s \<and> cy_destination_remote (ps_config s) \<and>
      cy_mode (ps_config s) = KBatch \<and>
      cy_remote_interval (ps_config s) * 1000000000 \<le> now - ps_last_flush s)"
    using keys by (auto simp: list_ex_iff)
  also have "\<dots> \<longleftrightarrow> interval_over p0 events now" (is "?m \<longleftrightarrow> _")
  proof
    assume ?m
    then obtain c s where s: "map_of (pol_channels p) c = Some s" "cy_destination_remote (ps_config s)"
        "cy_mode (ps_config s) = KBatch"
        "cy_remote_interval (ps_config s) * 1000000000 \<le> now - ps_last_flush s" by blast
    obtain s0 where "map_of (pol_channels p0) c = Some s0" "state_follows events c s0 s"
      using rel [of c] s(1) by (auto elim: option.rel_cases)
    then show "interval_over p0 events now" using s
      by (auto simp: interval_over_def remote_channel_def state_follows_def)
  next
    assume "interval_over p0 events now"
    then obtain c s0 where s0: "remote_channel p0 c KBatch s0"
        "cy_remote_interval (ps_config s0) * 1000000000
           \<le> now - last_flush_time (ps_last_flush s0) events" by (auto simp: interval_over_def)
    obtain s where "map_of (pol_channels p) c = Some s" "state_follows events c s0 s"
      using rel [of c] s0(1) by (auto simp: remote_channel_def elim: option.rel_cases)
    then show ?m using s0
      by (intro exI [of _ c] exI [of _ s]) (auto simp: remote_channel_def state_follows_def)
  qed
  finally show ?thesis .
qed

lemma should_flush_history:
  assumes "fresh_policy p"
  shows "should_flush now n max_batch (run_policy events p) \<longleftrightarrow>
           0 < n \<and> (0 < max_batch \<and> max_batch \<le> n \<or> realtime_waiting p events \<or>
                     on_change_waiting p events \<or> interval_over p events now)"
  using run_policy_follows [OF assms, of events] interval_over_run [OF run_policy_follows [OF assms], of now events]
  by (auto simp: should_flush_def policy_follows_def)

definition ex_channel :: "string \<Rightarrow> sync_mode \<Rightarrow> channel_sync_state" where
  "ex_channel c mode = \<lparr>cy_channel_id = c, cy_mode = mode, cy_priority = KNormal, cy_remote_interval = 60,
                        cy_on_change_threshold = Fin 0.5, cy_destination_remote = True\<rparr>"

definition ex_policy :: upload_policy where
  "ex_policy = configure_channel (ex_channel ''temp'' KOnChange) 0
                 (configure_channel (ex_channel ''door'' KRealtime) 0
                    (configure_channel (ex_channel ''air'' KBatch) 0 upload_policy_new))"

lemma ex_policy_fresh: "fresh_policy ex_policy"
  unfolding ex_policy_def by (intro fresh_new fresh_configure_channel)

text \<open>
  C22: The policy asks for a flush exactly when it should: there is something buffered, and either a
  full batch of it, or a sample of a remote realtime channel arrived since the last flush, or a
  value of a remote on-change channel left the dead band around the last value that did, or the
  interval of a remote batch channel has passed since the last flush or since it was configured.
\<close>

theorem upload_policy_flush_exact:
  assumes "fresh_policy p"
  shows "should_flush now n max_batch (run_policy events p) \<longleftrightarrow>
           0 < n \<and> (0 < max_batch \<and> max_batch \<le> n \<or> realtime_waiting p events \<or>
                     on_change_waiting p events \<or> interval_over p events now)"
  by (rule should_flush_history [OF assms])

theorem upload_policy_flush_exact_witness:
  "let events = [PolSample ''temp'' (Fin 20) 1, PolFlush 2, PolSample ''temp'' (Fin 20.75) 3]
   in should_flush 4 1 10 (run_policy events ex_policy) \<and> on_change_waiting ex_policy events"
proof -
  let ?events = "[PolSample ''temp'' (Fin 20) 1, PolFlush 2, PolSample ''temp'' (Fin 20.75) 3]"
  have s: "should_flush 4 1 10 (run_policy ?events ex_policy)" by code_simp
  have "list_ex (\<lambda>(_, st). cy_mode (ps_config st) = KBatch \<and>
          cy_remote_interval (ps_config st) * 1000000000 \<le> 4 - last_flush_time (ps_last_flush st) ?events)
          (pol_channels ex_policy) = False" by code_simp
  then have i: "\<not> interval_over ex_policy ?events 4"
    by (fastforce simp: interval_over_def remote_channel_def list_ex_iff dest: map_of_SomeD)
  have "list_ex (\<lambda>(c, st). c \<noteq> ''door'' \<and> cy_mode (ps_config st) = KRealtime) (pol_channels ex_policy) = False"
    by code_simp
  then have "\<not> remote_channel ex_policy ''temp'' KRealtime st" for st
    by (fastforce simp: remote_channel_def list_ex_iff dest: map_of_SomeD)
  then have "\<not> realtime_waiting ex_policy ?events"
    using realtime_waiting_snoc(2) [of ex_policy "[PolSample ''temp'' (Fin 20) 1, PolFlush 2]"]
      realtime_waiting_snoc(1) [of ex_policy "[PolSample ''temp'' (Fin 20) 1]" 2] by simp
  with s i show ?thesis using upload_policy_flush_exact [OF ex_policy_fresh, of 4 1 10 ?events] by simp
qed

lemma reference_stuck: "reference_after threshold (NaN # vs) = Some NaN"
proof (induction vs rule: rev_induct)
  case Nil
  then show ?case by (simp add: reference_after_def moved_def)
next
  case (snoc v vs)
  have "\<not> moved threshold (Some NaN) v" by (cases threshold; cases v) (simp_all add: moved_def d_sub_def)
  then show ?case using snoc reference_after_snoc [of threshold "NaN # vs" v] by simp
qed

text \<open>
  C23: A first reading that is not a number silences an on-change channel: the policy keeps \<open>NaN\<close> as
  the value to compare with, and no later value, however different, asks for an upload again (until
  the configuration is reloaded).
\<close>

theorem upload_policy_nan_silences:
  assumes "fresh_policy p" "pol_channels p = [(c, state)]"
    and "cy_mode (ps_config state) = KOnChange" "cy_destination_remote (ps_config state)"
    and "n < max_batch"
  shows "\<not> should_flush now n max_batch
           (run_policy (PolSample c NaN t # PolFlush t' # events) p)"
proof -
  let ?all = "PolSample c NaN t # PolFlush t' # events"
  have modes: "remote_channel p d m st \<Longrightarrow> d = c \<and> st = state \<and> m = KOnChange" for d m st
    using assms(2,3) by (auto simp: remote_channel_def split: if_splits)
  have "\<not> on_change_waiting p ?all"
  proof (induction events rule: rev_induct)
    case Nil
    then show ?case using on_change_waiting_snoc(1) [of p "[PolSample c NaN t]" t'] by simp
  next
    case (snoc e events)
    let ?before = "PolSample c NaN t # PolFlush t' # events"
    have "\<not> change_at p ?before d v" for d v
    proof
      assume "change_at p ?before d v"
      then obtain th where "moved th (Some NaN) v" using modes
        by (fastforce simp: change_at_def reference_stuck)
      then show False by (cases th; cases v) (simp_all add: moved_def d_sub_def)
    qed
    then show ?case using snoc on_change_waiting_snoc [of p ?before] by (cases e) auto
  qed
  moreover have "\<not> realtime_waiting p ?all" "\<not> interval_over p ?all now"
    using modes by (auto simp: realtime_waiting_def interval_over_def)
  ultimately show ?thesis using should_flush_history [OF assms(1), of now n max_batch ?all] assms(5) by auto
qed

theorem upload_policy_nan_silences_witness:
  "\<not> should_flush 9 3 10 (run_policy (PolSample ''temp'' NaN 1 # PolFlush 2 # [PolSample ''temp'' (Fin 900) 3])
       (configure_channel (ex_channel ''temp'' KOnChange) 0 upload_policy_new))"
proof -
  let ?p = "configure_channel (ex_channel ''temp'' KOnChange) 0 upload_policy_new"
  obtain state where "pol_channels ?p = [(''temp'', state)]" "ps_config state = ex_channel ''temp'' KOnChange"
    by (simp add: configure_channel_def ex_channel_def upload_policy_new_def)
  then show ?thesis
    by (intro upload_policy_nan_silences [of _ _ state] fresh_configure_channel fresh_new)
       (simp_all add: ex_channel_def)
qed

end
