(* ===== verification/Platform.thy ===== *)
theory Platform
  imports Telemetry "HOL-Library.Word"
begin

text \<open>
  What the program sees of its surroundings. Everything outside the repository whose answer
  the code cannot know in advance (clock readings, the outcome of a SQLite call, the reply of
  the server, the text \<open>nlohmann::json\<close> serialises to) is a parameter held in the \<open>world\<close>: a
  function that gives the answer to the \<open>n\<close>-th question, with a counter of the questions
  asked. The SQL statements of \<open>local_store.cpp\<close> are texts the engine reads: what SQLite
  documents of such texts is stated in \<open>Sqlite\<close>, and whether a statement succeeds is a parameter.
\<close>

section \<open>JSON values\<close>

datatype json =
    JNull
  | JBool bool
  | JInt int
  | JDouble double
  | JString string
  | JArray "json list"
  | JObject "(string \<times> json) list"

section \<open>The database file\<close>

text \<open>
  Columns of the table \<open>pending_uploads\<close>. A table is kept with the text of the statement that made it, as SQLite
  keeps it in \<open>sqlite_master\<close>, and with the counter of \<open>sqlite_sequence\<close> that an \<open>AUTOINCREMENT\<close> column has.
\<close>

record pending_upload =
  pu_id :: int
  pu_channel_id :: string
  pu_value :: double
  pu_unit :: string
  pu_timestamp_ms :: int
  pu_quality :: string
  pu_priority :: int
  pu_created_at_ms :: int

record sql_table =
  tb_sql :: string
  tb_rows :: "pending_upload list"
  tb_sequence :: int

type_synonym disk = "string \<rightharpoonup> sql_table"

text \<open>
  The calls into SQLite. The engine is not part of the repository: it is a parameter, four
  functions that answer the \<open>n\<close>-th call (\<open>sqlite3_open\<close>, \<open>sqlite3_close\<close>, \<open>sqlite3_exec\<close>, and the
  prepare-bind-step-finalize sequence of a statement) from the database file's name, the SQL
  text, the bound values and the contents of the disk. A cell of a result row is what the four
  \<open>sqlite3_column_*\<close> functions the code uses return for it.
\<close>

datatype sql_bind =
    BindText string
  | BindDouble double
  | BindInt64 int
  | BindInt int

record sql_cell =
  cell_int64 :: int
  cell_int :: int
  cell_double :: double
  cell_text :: "string option"

datatype sql_rc =
    SqlOk
  | SqlError "string option"    \<comment> \<open>the message, if there is one\<close>

datatype sql_result =
    PrepareFailed string
  | Stepped "sql_cell list list" "string option"
      \<comment> \<open>the rows delivered, then \<open>SQLITE_DONE\<close>, or an error with its message\<close>

record sqlite =
  sq_open :: "nat \<Rightarrow> string \<Rightarrow> disk \<Rightarrow> sql_rc \<times> disk"
  sq_close :: "nat \<Rightarrow> string \<Rightarrow> disk \<Rightarrow> disk"
  sq_exec :: "nat \<Rightarrow> string \<Rightarrow> string \<Rightarrow> disk \<Rightarrow> sql_rc \<times> disk"
  sq_run :: "nat \<Rightarrow> string \<Rightarrow> string \<Rightarrow> sql_bind list \<Rightarrow> disk \<Rightarrow> sql_result \<times> disk"

section \<open>HTTP messages\<close>

record http_response =
  hr_status_code :: int
  hr_body :: string
  hr_error :: string

record http_request =
  hq_url :: string
  hq_headers :: "(string \<times> string) list"
  hq_body :: string
  hq_timeout :: int

section \<open>I2C messages\<close>

text \<open>An \<open>i2c_msg\<close> of the Linux kernel interface; for a read the buffer before the transfer.\<close>

record i2c_msg =
  im_addr :: "16 word"
  im_read :: bool
  im_buf :: "8 word list"

section \<open>The world\<close>

record world =
  w_steady :: "nat \<Rightarrow> int"
  w_steady_n :: nat
  w_system :: "nat \<Rightarrow> int"
  w_system_n :: nat
  w_disk :: disk
  w_sqlite :: sqlite
  w_sql_n :: nat
  w_mkdir :: "string \<Rightarrow> string option"
  w_reply :: "nat \<Rightarrow> http_response"
  w_posts :: "http_request list"
  w_dump :: "json \<Rightarrow> string option"         \<comment> \<open>\<open>dump()\<close>; throws when the text is not UTF-8\<close>
  w_json_int :: "json \<Rightarrow> int option"       \<comment> \<open>\<open>get<int>()\<close>; throws when the value is not a number\<close>
  w_sin :: "double \<Rightarrow> double"
  w_cos :: "double \<Rightarrow> double"
  w_open_device :: "nat \<Rightarrow> string \<Rightarrow> int"
  w_ioctl :: "nat \<Rightarrow> i2c_msg list \<Rightarrow> int \<times> 8 word list"
  w_device_n :: nat
  w_undefined :: bool    \<comment> \<open>undefined behaviour was reached; the model says nothing of what follows\<close>

definition steady_now :: "world \<Rightarrow> int \<times> world" where
  "steady_now w = (w_steady w (w_steady_n w), w\<lparr>w_steady_n := w_steady_n w + 1\<rparr>)"

definition system_now :: "world \<Rightarrow> int \<times> world" where
  "system_now w = (w_system w (w_system_n w), w\<lparr>w_system_n := w_system_n w + 1\<rparr>)"

definition sql_open :: "string \<Rightarrow> world \<Rightarrow> sql_rc \<times> world" where
  "sql_open file w =
     (let (rc, disk') = sq_open (w_sqlite w) (w_sql_n w) file (w_disk w)
      in (rc, w\<lparr>w_disk := disk', w_sql_n := w_sql_n w + 1\<rparr>))"

definition sql_close :: "string \<Rightarrow> world \<Rightarrow> world" where
  "sql_close file w =
     w\<lparr>w_disk := sq_close (w_sqlite w) (w_sql_n w) file (w_disk w), w_sql_n := w_sql_n w + 1\<rparr>"

definition sql_exec :: "string \<Rightarrow> string \<Rightarrow> world \<Rightarrow> sql_rc \<times> world" where
  "sql_exec file sql w =
     (let (rc, disk') = sq_exec (w_sqlite w) (w_sql_n w) file sql (w_disk w)
      in (rc, w\<lparr>w_disk := disk', w_sql_n := w_sql_n w + 1\<rparr>))"

definition sql_run :: "string \<Rightarrow> string \<Rightarrow> sql_bind list \<Rightarrow> world \<Rightarrow> sql_result \<times> world" where
  "sql_run file sql binds w =
     (let (result, disk') = sq_run (w_sqlite w) (w_sql_n w) file sql binds (w_disk w)
      in (result, w\<lparr>w_disk := disk', w_sql_n := w_sql_n w + 1\<rparr>))"

definition open_device :: "string \<Rightarrow> world \<Rightarrow> int \<times> world" where
  \<comment> \<open>\<open>::open(path, O_RDWR)\<close>: a descriptor, negative on failure\<close>
  "open_device path w = (w_open_device w (w_device_n w) path, w\<lparr>w_device_n := w_device_n w + 1\<rparr>)"

definition i2c_ioctl :: "i2c_msg list \<Rightarrow> world \<Rightarrow> (int \<times> 8 word list) \<times> world" where
  \<comment> \<open>\<open>ioctl(fd, I2C_RDWR, ...)\<close>: the return value and the bytes received\<close>
  "i2c_ioctl messages w = (w_ioctl w (w_device_n w) messages, w\<lparr>w_device_n := w_device_n w + 1\<rparr>)"

definition http_post :: "http_request \<Rightarrow> world \<Rightarrow> http_response \<times> world" where
  \<comment> \<open>\<open>HttpClient::post\<close>: the requests sent are logged\<close>
  "http_post q w = (w_reply w (length (w_posts w)), w\<lparr>w_posts := w_posts w @ [q]\<rparr>)"

text \<open>The parts of the world a component leaves alone.\<close>

definition same_net :: "world \<Rightarrow> world \<Rightarrow> bool" where
  \<comment> \<open>no request sent, the parameters unchanged\<close>
  "same_net w w' \<longleftrightarrow> w_posts w' = w_posts w \<and> w_reply w' = w_reply w \<and> w_dump w' = w_dump w \<and>
     w_mkdir w' = w_mkdir w \<and> w_steady w' = w_steady w \<and> w_system w' = w_system w \<and>
     w_sqlite w' = w_sqlite w"

definition same_store :: "world \<Rightarrow> world \<Rightarrow> bool" where
  \<comment> \<open>the database files and the position in the sequence of SQLite calls unchanged\<close>
  "same_store w w' \<longleftrightarrow> w_disk w' = w_disk w \<and> w_sql_n w' = w_sql_n w \<and> w_sqlite w' = w_sqlite w"

lemma same_net_refl [simp]: "same_net w w"
  by (simp add: same_net_def)

lemma same_net_trans: "same_net w w' \<Longrightarrow> same_net w' w'' \<Longrightarrow> same_net w w''"
  by (simp add: same_net_def)

lemma same_net_updates [simp]:
  "same_net w (w'\<lparr>w_steady_n := a\<rparr>) = same_net w w'"
  "same_net w (w'\<lparr>w_system_n := a\<rparr>) = same_net w w'"
  "same_net w (w'\<lparr>w_sql_n := n\<rparr>) = same_net w w'"
  "same_net w (w'\<lparr>w_disk := d\<rparr>) = same_net w w'"
  "same_net w (w'\<lparr>w_device_n := n\<rparr>) = same_net w w'"
  "same_net w (w'\<lparr>w_undefined := b\<rparr>) = same_net w w'"
  by (simp_all add: same_net_def)

end
