(* ===== verification/Sqlite.thy ===== *)
theory Sqlite
  imports Platform
begin

text \<open>
  What \<open>local_store.cpp\<close> relies on of SQLite. The engine is the parameter \<open>w_sqlite\<close> of the world. Its laws
  are about SQL: they say what a statement of a given text does, for every list of columns, every order and
  every table definition the text can name, and not about the program's statements, whose texts
  (\<open>schema_sql\<close>, \<open>insert_sql\<close>, \<open>select_sql\<close>, \<open>delete_sql\<close>) are shown to be such statements further down. An
  identifier grows beyond every identifier ever used only in a table declared \<open>AUTOINCREMENT\<close>, a \<open>NaN\<close> is
  refused only by a column declared \<open>NOT NULL\<close>, the rows of a \<open>SELECT\<close> come in the order and with the columns
  its text asks for, and a database named \<open>:memory:\<close> or not named at all is gone when it is closed. A
  statement that fails leaves the table as it was. A reference engine with an arbitrary plan of failures
  satisfies the laws.
\<close>

section \<open>The program's statements\<close>

definition journal_sql :: string where
  "journal_sql = ''PRAGMA journal_mode=WAL;''"

definition synchronous_sql :: string where
  "synchronous_sql = ''PRAGMA synchronous=NORMAL;''"

definition schema_sql :: string where
  "schema_sql =
     ''CREATE TABLE IF NOT EXISTS pending_uploads ('' @
     ''  id INTEGER PRIMARY KEY AUTOINCREMENT,'' @
     ''  channel_id TEXT NOT NULL,'' @
     ''  value REAL NOT NULL,'' @
     ''  unit TEXT NOT NULL,'' @
     ''  timestamp_ms INTEGER NOT NULL,'' @
     ''  quality TEXT NOT NULL,'' @
     ''  priority INTEGER NOT NULL,'' @
     ''  created_at_ms INTEGER NOT NULL'' @
     '');''"

definition insert_sql :: string where
  "insert_sql =
     ''INSERT INTO pending_uploads '' @
     ''(channel_id, value, unit, timestamp_ms, quality, priority, '' @
     ''created_at_ms) VALUES (?, ?, ?, ?, ?, ?, ?);''"

definition select_sql :: string where
  "select_sql =
     ''SELECT id, channel_id, value, unit, timestamp_ms, quality, priority '' @
     ''FROM pending_uploads ORDER BY id ASC LIMIT ?;''"

definition delete_sql :: string where
  "delete_sql = ''DELETE FROM pending_uploads WHERE id = ?;''"

definition count_sql :: string where
  "count_sql = ''SELECT COUNT(*) FROM pending_uploads;''"

definition insert_binds :: "pending_upload \<Rightarrow> sql_bind list" where
  \<comment> \<open>the seven bound columns of a row; the identifier is the engine's\<close>
  "insert_binds r =
     [BindText (pu_channel_id r), BindDouble (pu_value r), BindText (pu_unit r),
      BindInt64 (pu_timestamp_ms r), BindText (pu_quality r), BindInt (pu_priority r),
      BindInt64 (pu_created_at_ms r)]"

section \<open>Statement texts\<close>

text \<open>The columns of \<open>pending_uploads\<close>, as a row of the table has them, and what a table definition says of one.\<close>

datatype sql_column = IdColumn | ChannelIdColumn | ValueColumn | UnitColumn | TimestampColumn | QualityColumn
  | PriorityColumn | CreatedAtColumn

datatype sql_type = IntegerType | RealType | TextType

datatype sql_constraint = PrimaryKey | PrimaryKeyAutoincrement | NotNull | Unconstrained

datatype sql_order = Ascending | Descending

type_synonym column_def = "sql_column \<times> sql_type \<times> sql_constraint"

fun column_name :: "sql_column \<Rightarrow> string" where
  "column_name IdColumn = ''id''"
| "column_name ChannelIdColumn = ''channel_id''"
| "column_name ValueColumn = ''value''"
| "column_name UnitColumn = ''unit''"
| "column_name TimestampColumn = ''timestamp_ms''"
| "column_name QualityColumn = ''quality''"
| "column_name PriorityColumn = ''priority''"
| "column_name CreatedAtColumn = ''created_at_ms''"

fun type_name :: "sql_type \<Rightarrow> string" where
  "type_name IntegerType = ''INTEGER''"
| "type_name RealType = ''REAL''"
| "type_name TextType = ''TEXT''"

fun constraint_text :: "sql_constraint \<Rightarrow> string" where
  "constraint_text PrimaryKey = '' PRIMARY KEY''"
| "constraint_text PrimaryKeyAutoincrement = '' PRIMARY KEY AUTOINCREMENT''"
| "constraint_text NotNull = '' NOT NULL''"
| "constraint_text Unconstrained = []"

fun order_text :: "sql_order \<Rightarrow> string" where
  "order_text Ascending = ''ASC''"
| "order_text Descending = ''DESC''"

fun separated :: "string \<Rightarrow> string list \<Rightarrow> string" where
  "separated sep [] = []"
| "separated sep [x] = x"
| "separated sep (x # y # ys) = x @ sep @ separated sep (y # ys)"

fun column_def_text :: "column_def \<Rightarrow> string" where
  "column_def_text (c, t, k) = ''  '' @ column_name c @ '' '' @ type_name t @ constraint_text k"

definition create_text :: "bool \<Rightarrow> column_def list \<Rightarrow> string" where
  "create_text if_not_exists defs =
     ''CREATE TABLE '' @ (if if_not_exists then ''IF NOT EXISTS '' else []) @ ''pending_uploads ('' @
     separated '','' (map column_def_text defs) @ '');''"

definition insert_text :: "sql_column list \<Rightarrow> string" where
  "insert_text columns =
     ''INSERT INTO pending_uploads ('' @ separated '', '' (map column_name columns) @ '') VALUES ('' @
     separated '', '' (map (\<lambda>_. ''?'') columns) @ '');''"

definition select_text :: "sql_column list \<Rightarrow> sql_order \<Rightarrow> string" where
  "select_text columns order =
     ''SELECT '' @ separated '', '' (map column_name columns) @
     '' FROM pending_uploads ORDER BY id '' @ order_text order @ '' LIMIT ?;''"

definition delete_text :: string where
  "delete_text = ''DELETE FROM pending_uploads WHERE id = ?;''"

definition count_text :: string where
  "count_text = ''SELECT COUNT(*) FROM pending_uploads;''"

definition journal_text :: "string \<Rightarrow> string" where
  "journal_text mode = ''PRAGMA journal_mode='' @ mode @ '';''"

definition synchronous_text :: "string \<Rightarrow> string" where
  "synchronous_text level = ''PRAGMA synchronous='' @ level @ '';''"

text \<open>What the program's texts say.\<close>

definition pending_defs :: "column_def list" where
  "pending_defs =
     [(IdColumn, IntegerType, PrimaryKeyAutoincrement), (ChannelIdColumn, TextType, NotNull),
      (ValueColumn, RealType, NotNull), (UnitColumn, TextType, NotNull), (TimestampColumn, IntegerType, NotNull),
      (QualityColumn, TextType, NotNull), (PriorityColumn, IntegerType, NotNull),
      (CreatedAtColumn, IntegerType, NotNull)]"

definition insert_columns :: "sql_column list" where
  "insert_columns = [ChannelIdColumn, ValueColumn, UnitColumn, TimestampColumn, QualityColumn, PriorityColumn,
     CreatedAtColumn]"

definition select_columns :: "sql_column list" where
  "select_columns = [IdColumn, ChannelIdColumn, ValueColumn, UnitColumn, TimestampColumn, QualityColumn,
     PriorityColumn]"

lemma statement_texts:
  "schema_sql = create_text True pending_defs" "insert_sql = insert_text insert_columns"
  "select_sql = select_text select_columns Ascending" "delete_sql = delete_text" "count_sql = count_text"
  "journal_sql = journal_text ''WAL''" "synchronous_sql = synchronous_text ''NORMAL''"
  by code_simp+

section \<open>Tables\<close>

definition new_table :: "string \<Rightarrow> sql_table" where
  \<comment> \<open>made by the given \<open>CREATE TABLE\<close>\<close>
  "new_table sql = \<lparr>tb_sql = sql, tb_rows = [], tb_sequence = 0\<rparr>"

definition declares :: "sql_table \<Rightarrow> column_def \<Rightarrow> bool" where
  "declares t column \<longleftrightarrow> (\<exists>b defs. tb_sql t = create_text b defs \<and> column \<in> set defs)"

fun column_type :: "sql_column \<Rightarrow> sql_type" where
  \<comment> \<open>the type whose values a column holds unchanged\<close>
  "column_type IdColumn = IntegerType"
| "column_type ChannelIdColumn = TextType"
| "column_type ValueColumn = RealType"
| "column_type UnitColumn = TextType"
| "column_type TimestampColumn = IntegerType"
| "column_type QualityColumn = TextType"
| "column_type PriorityColumn = IntegerType"
| "column_type CreatedAtColumn = IntegerType"

definition keyed :: "sql_table \<Rightarrow> bool" where
  \<comment> \<open>a table with all the columns, of their types, whose \<open>id\<close> is the row's identifier\<close>
  "keyed t \<longleftrightarrow> (\<forall>c. \<exists>k. declares t (c, column_type c, k)) \<and>
     (declares t (IdColumn, IntegerType, PrimaryKey) \<or> declares t (IdColumn, IntegerType, PrimaryKeyAutoincrement))"

definition in_order :: "sql_order \<Rightarrow> pending_upload list \<Rightarrow> pending_upload list" where
  "in_order order rows =
     (case order of Ascending \<Rightarrow> sort_key pu_id rows | Descending \<Rightarrow> rev (sort_key pu_id rows))"

definition insert_row :: "int \<Rightarrow> pending_upload \<Rightarrow> sql_table \<Rightarrow> sql_table" where
  "insert_row i r t = t\<lparr>tb_rows := tb_rows t @ [r\<lparr>pu_id := i\<rparr>], tb_sequence := i\<rparr>"

definition delete_row :: "int \<Rightarrow> sql_table \<Rightarrow> sql_table" where
  "delete_row i t = t\<lparr>tb_rows := filter (\<lambda>r. pu_id r \<noteq> i) (tb_rows t)\<rparr>"

definition empty_table :: sql_table where
  "empty_table = new_table schema_sql"

definition wf_table :: "sql_table \<Rightarrow> bool" where
  \<comment> \<open>a table the program made: its definition, rows by increasing identifier, none beyond the counter\<close>
  "wf_table t \<longleftrightarrow> tb_sql t = schema_sql \<and> sorted_wrt (<) (map pu_id (tb_rows t)) \<and>
                 (\<forall>r \<in> set (tb_rows t). pu_id r \<le> tb_sequence t)"

lemma wf_empty_table [wf_intros]: "wf_table empty_table"
  by (simp add: wf_table_def empty_table_def new_table_def)

lemma wf_insert_row [wf_intros]: "wf_table t \<Longrightarrow> tb_sequence t < i \<Longrightarrow> wf_table (insert_row i r t)"
  by (fastforce simp: wf_table_def insert_row_def sorted_wrt_append)

lemma wf_delete_row [wf_intros]: "wf_table t \<Longrightarrow> wf_table (delete_row i t)"
  by (auto simp: wf_table_def delete_row_def sorted_wrt_map intro: sorted_wrt_filter)

lemma insert_row_fresh: "wf_table t \<Longrightarrow> tb_sequence t < i \<Longrightarrow> i \<notin> pu_id ` set (tb_rows t)"
  by (auto simp: wf_table_def)

lemma in_order_wf: "wf_table t \<Longrightarrow> in_order Ascending (tb_rows t) = tb_rows t"
  by (simp add: in_order_def wf_table_def sort_key_id_if_sorted strict_sorted_iff)

text \<open>The columns of the program's own table.\<close>

lemma wf_declares:
  assumes "wf_table t"
  shows "declares t (IdColumn, IntegerType, PrimaryKeyAutoincrement)" "declares t (ValueColumn, RealType, NotNull)"
    and "keyed t"
proof -
  have d: "declares t column" if "column \<in> set pending_defs" for column
    using assms that unfolding declares_def wf_table_def statement_texts by blast
  show key: "declares t (IdColumn, IntegerType, PrimaryKeyAutoincrement)" "declares t (ValueColumn, RealType, NotNull)"
    by (rule d; simp add: pending_defs_def)+
  have "\<exists>k. (c, column_type c, k) \<in> set pending_defs" for c by (cases c) (auto simp: pending_defs_def)
  then show "keyed t" using d key unfolding keyed_def by meson
qed

section \<open>Rows by columns\<close>

fun set_column :: "sql_column \<Rightarrow> sql_bind \<Rightarrow> pending_upload \<Rightarrow> pending_upload option" where
  "set_column ChannelIdColumn (BindText x) r = Some (r\<lparr>pu_channel_id := x\<rparr>)"
| "set_column ValueColumn (BindDouble x) r = Some (r\<lparr>pu_value := x\<rparr>)"
| "set_column UnitColumn (BindText x) r = Some (r\<lparr>pu_unit := x\<rparr>)"
| "set_column TimestampColumn (BindInt64 x) r = Some (r\<lparr>pu_timestamp_ms := x\<rparr>)"
| "set_column QualityColumn (BindText x) r = Some (r\<lparr>pu_quality := x\<rparr>)"
| "set_column PriorityColumn (BindInt x) r = Some (r\<lparr>pu_priority := x\<rparr>)"
| "set_column CreatedAtColumn (BindInt64 x) r = Some (r\<lparr>pu_created_at_ms := x\<rparr>)"
| "set_column _ _ r = None"

fun bound_row :: "sql_column list \<Rightarrow> sql_bind list \<Rightarrow> pending_upload option" where
  \<comment> \<open>the row that the values bound to the columns make\<close>
  "bound_row [] [] = Some \<lparr>pu_id = 0, pu_channel_id = [], pu_value = NaN, pu_unit = [], pu_timestamp_ms = 0,
     pu_quality = [], pu_priority = 0, pu_created_at_ms = 0\<rparr>"
| "bound_row (c # cs) (b # bs) =
     (case bound_row cs bs of None \<Rightarrow> None | Some r \<Rightarrow> set_column c b r)"
| "bound_row _ _ = None"

fun reads_column :: "pending_upload \<Rightarrow> sql_column \<Rightarrow> sql_cell \<Rightarrow> bool" where
  \<comment> \<open>what the column function of a column's type returns\<close>
  "reads_column r IdColumn x = (cell_int64 x = pu_id r)"
| "reads_column r ChannelIdColumn x = (cell_text x = Some (pu_channel_id r))"
| "reads_column r ValueColumn x = (cell_double x = pu_value r)"
| "reads_column r UnitColumn x = (cell_text x = Some (pu_unit r))"
| "reads_column r TimestampColumn x = (cell_int64 x = pu_timestamp_ms r)"
| "reads_column r QualityColumn x = (cell_text x = Some (pu_quality r))"
| "reads_column r PriorityColumn x = (cell_int x = pu_priority r)"
| "reads_column r CreatedAtColumn x = (cell_int64 x = pu_created_at_ms r)"

definition reads_as :: "sql_cell list \<Rightarrow> pending_upload \<Rightarrow> bool" where
  \<comment> \<open>a row of the program's \<open>SELECT\<close>\<close>
  "reads_as row r \<longleftrightarrow> list_all2 (reads_column r) select_columns row"

lemma bound_insert: "bound_row insert_columns (insert_binds r) = Some (r\<lparr>pu_id := 0\<rparr>)"
  by (simp add: insert_columns_def insert_binds_def)

lemma insert_columns_all: "distinct insert_columns" "set insert_columns = - {IdColumn}"
proof -
  have "c \<in> set insert_columns \<longleftrightarrow> c \<in> - {IdColumn}" for c by (cases c) (simp_all add: insert_columns_def)
  then show "set insert_columns = - {IdColumn}" by blast
qed (simp add: insert_columns_def)

section \<open>The laws of the engine\<close>

definition durable_name :: "string \<Rightarrow> bool" where
  \<comment> \<open>the name of a file: not the empty name of a temporary database, not a special name such as \<open>:memory:\<close>,
      not a URI\<close>
  "durable_name name \<longleftrightarrow> name \<noteq> [] \<and> hd name \<noteq> CHR '':'' \<and> take 5 name \<noteq> ''file:''"

definition forget :: "string \<Rightarrow> disk \<Rightarrow> disk" where
  "forget name d = (if durable_name name then d else d(name := None))"

definition open_law :: "sqlite \<Rightarrow> bool" where
  \<comment> \<open>a database that is not a file is a new one for each connection\<close>
  "open_law e \<longleftrightarrow>
     (\<forall>n db d. case sq_open e n db d of (SqlOk, d') \<Rightarrow> d' = forget db d | (SqlError _, d') \<Rightarrow> d' = d)"

definition close_law :: "sqlite \<Rightarrow> bool" where
  "close_law e \<longleftrightarrow> (\<forall>n db d. sq_close e n db d = forget db d)"

definition pragma_law :: "sqlite \<Rightarrow> bool" where
  \<comment> \<open>the two settings change no table, whatever their value\<close>
  "pragma_law e \<longleftrightarrow>
     (\<forall>n db d. (\<forall>mode \<in> {''DELETE'', ''TRUNCATE'', ''PERSIST'', ''MEMORY'', ''WAL'', ''OFF''}.
                  snd (sq_exec e n db (journal_text mode) d) = d) \<and>
               (\<forall>level \<in> {''OFF'', ''NORMAL'', ''FULL'', ''EXTRA''}.
                  snd (sq_exec e n db (synchronous_text level) d) = d))"

definition schema_law :: "sqlite \<Rightarrow> bool" where
  "schema_law e \<longleftrightarrow>
     (\<forall>n db if_not_exists defs d. case sq_exec e n db (create_text if_not_exists defs) d of
        (SqlOk, d') \<Rightarrow>
          (if d db = None then d' = d(db \<mapsto> new_table (create_text if_not_exists defs))
           else if_not_exists \<and> d' = d)
      | (SqlError _, d') \<Rightarrow> d' = d)"

definition insert_law :: "sqlite \<Rightarrow> bool" where
  \<comment> \<open>the identifier of a row is one that no row has, and with \<open>AUTOINCREMENT\<close> one that no row ever had\<close>
  "insert_law e \<longleftrightarrow>
     (\<forall>n db columns binds r d t.
        d db = Some t \<and> distinct columns \<and> set columns = - {IdColumn} \<and> bound_row columns binds = Some r \<and>
        keyed t \<and> (pu_value r = NaN \<longrightarrow> declares t (ValueColumn, RealType, NotNull)) \<longrightarrow>
        (case sq_run e n db (insert_text columns) binds d of
           (Stepped [] None, d') \<Rightarrow> pu_value r \<noteq> NaN \<and>
             (\<exists>i. i \<notin> pu_id ` set (tb_rows t) \<and>
                  (declares t (IdColumn, IntegerType, PrimaryKeyAutoincrement) \<longrightarrow> tb_sequence t < i) \<and>
                  d' = d(db \<mapsto> insert_row i r t))
         | (_, d') \<Rightarrow> d' = d))"

definition select_law :: "sqlite \<Rightarrow> bool" where
  "select_law e \<longleftrightarrow>
     (\<forall>n db columns order limit d t. d db = Some t \<and> keyed t \<longrightarrow>
        (case sq_run e n db (select_text columns order) [BindInt64 (int limit)] d of
           (Stepped rows failure, d') \<Rightarrow> d' = d \<and>
             (\<exists>k \<le> limit. list_all2 (\<lambda>row r. list_all2 (reads_column r) columns row) rows
                           (take k (in_order order (tb_rows t))) \<and> (failure = None \<longrightarrow> k = limit))
         | (_, d') \<Rightarrow> d' = d))"

definition delete_law :: "sqlite \<Rightarrow> bool" where
  "delete_law e \<longleftrightarrow>
     (\<forall>n db i d t. d db = Some t \<longrightarrow> (case sq_run e n db delete_text [BindInt64 i] d of
        (Stepped [] None, d') \<Rightarrow> d' = d(db \<mapsto> delete_row i t)
      | (_, d') \<Rightarrow> d' = d))"

definition count_law :: "sqlite \<Rightarrow> bool" where
  "count_law e \<longleftrightarrow>
     (\<forall>n db d t. d db = Some t \<longrightarrow> (case sq_run e n db count_text [] d of
        (Stepped rows failure, d') \<Rightarrow> d' = d \<and>
          (\<forall>row \<in> set rows. cell_int64 (row ! 0) = int (length (tb_rows t))) \<and>
          (failure = None \<longrightarrow> rows \<noteq> [])
      | (_, d') \<Rightarrow> d' = d))"

definition sqlite_laws :: "sqlite \<Rightarrow> bool" where
  "sqlite_laws e \<longleftrightarrow> open_law e \<and> close_law e \<and> pragma_law e \<and> schema_law e \<and> insert_law e \<and> select_law e \<and>
     delete_law e \<and> count_law e"

section \<open>A reference engine\<close>

text \<open>The plan \<open>faults n\<close> says how the \<open>n\<close>-th call fails, if it does.\<close>

datatype sql_fault = FaultPrepare string | FaultStep nat string

definition cells :: "pending_upload \<Rightarrow> sql_cell list" where
  "cells r =
     (let number = (\<lambda>i. \<lparr>cell_int64 = i, cell_int = i, cell_double = Fin (of_int i), cell_text = None\<rparr>);
          chars = (\<lambda>t. \<lparr>cell_int64 = 0, cell_int = 0, cell_double = Fin 0, cell_text = Some t\<rparr>)
      in [number (pu_id r), chars (pu_channel_id r),
          \<lparr>cell_int64 = 0, cell_int = 0, cell_double = pu_value r, cell_text = None\<rparr>,
          chars (pu_unit r), number (pu_timestamp_ms r), chars (pu_quality r), number (pu_priority r)])"

definition next_id :: "sql_table \<Rightarrow> int" where
  "next_id t = fold max (map pu_id (tb_rows t)) (tb_sequence t) + 1"

definition ref_run :: "sql_fault option \<Rightarrow> string \<Rightarrow> string \<Rightarrow> sql_bind list \<Rightarrow> disk \<Rightarrow> sql_result \<times> disk" where
  "ref_run fault file sql binds d =
     (case (d file, fault) of
        (None, _) \<Rightarrow> (PrepareFailed ''no such table: pending_uploads'', d)
      | (_, Some (FaultPrepare m)) \<Rightarrow> (PrepareFailed m, d)
      | (Some t, _) \<Rightarrow>
         (if sql = insert_sql then
            (case (bound_row insert_columns binds, fault) of
               (Some r, None) \<Rightarrow>
                 if pu_value r = NaN
                 then (Stepped [] (Some ''NOT NULL constraint failed: pending_uploads.value''), d)
                 else (Stepped [] None, d(file \<mapsto> insert_row (next_id t) r t))
             | (_, Some (FaultStep _ m)) \<Rightarrow> (Stepped [] (Some m), d)
             | _ \<Rightarrow> (PrepareFailed ''bind'', d))
          else if sql = select_sql then
            (case (binds, fault) of
               ([BindInt64 n], None) \<Rightarrow> (Stepped (map cells (take (nat n) (sort_key pu_id (tb_rows t)))) None, d)
             | ([BindInt64 n], Some (FaultStep k m)) \<Rightarrow>
                 (Stepped (map cells (take (min k (nat n)) (sort_key pu_id (tb_rows t)))) (Some m), d)
             | _ \<Rightarrow> (PrepareFailed ''bind'', d))
          else if sql = delete_sql then
            (case (binds, fault) of
               ([BindInt64 i], None) \<Rightarrow> (Stepped [] None, d(file \<mapsto> delete_row i t))
             | (_, Some (FaultStep _ m)) \<Rightarrow> (Stepped [] (Some m), d)
             | _ \<Rightarrow> (PrepareFailed ''bind'', d))
          else if sql = count_sql then
            (case fault of
               None \<Rightarrow> (Stepped [[\<lparr>cell_int64 = int (length (tb_rows t)), cell_int = 0,
                                   cell_double = Fin 0, cell_text = None\<rparr>]] None, d)
             | _ \<Rightarrow> (Stepped [] (Some ''step''), d))
          else (PrepareFailed ''syntax error'', d)))"

definition ref_sqlite :: "(nat \<Rightarrow> sql_fault option) \<Rightarrow> sqlite" where
  "ref_sqlite faults =
     \<lparr>sq_open = (\<lambda>n file d. if faults n = None then (SqlOk, forget file d) else (SqlError (Some ''open''), d)),
      sq_close = (\<lambda>n file d. forget file d),
      sq_exec = (\<lambda>n file sql d.
        if faults n \<noteq> None then (SqlError (Some ''exec''), d)
        else if sql = schema_sql then (SqlOk, if d file = None then d(file \<mapsto> empty_table) else d)
        else if sql = journal_sql \<or> sql = synchronous_sql then (SqlOk, d)
        else (SqlError (Some ''syntax error''), d)),
      sq_run = (\<lambda>n. ref_run (faults n))\<rparr>"

lemma statements_differ:
  "insert_sql \<noteq> select_sql" "insert_sql \<noteq> delete_sql" "insert_sql \<noteq> count_sql"
  "select_sql \<noteq> delete_sql" "select_sql \<noteq> count_sql" "delete_sql \<noteq> count_sql"
  "journal_sql \<noteq> schema_sql" "synchronous_sql \<noteq> schema_sql"
  by (simp_all add: insert_sql_def select_sql_def delete_sql_def count_sql_def journal_sql_def
      synchronous_sql_def schema_sql_def)

lemma reads_as_cells: "reads_as (cells r) r"
  by (simp add: reads_as_def select_columns_def cells_def Let_def)

lemma list_all2_cells: "list_all2 reads_as (map cells rs) rs"
  by (simp add: list_all2_conv_all_nth reads_as_cells)

lemma insert_row_any_id: "insert_row i (r\<lparr>pu_id := j\<rparr>) t = insert_row i r t"
  by (simp add: insert_row_def)

lemmas differ = statements_differ statements_differ [symmetric]

subsection \<open>A text says which statement it is\<close>

text \<open>
  The engine knows the program's five texts, the laws are about all of them: that the engine keeps the laws
  rests on a text naming its columns and its order unambiguously.
\<close>

lemma column_name_chars: "x \<in> set (column_name c) \<Longrightarrow> x \<noteq> CHR '','' \<and> x \<noteq> CHR '')'' \<and> x \<noteq> CHR '' ''"
  by (cases c) auto

lemma column_name_inject: "column_name c = column_name c' \<longleftrightarrow> c = c'"
  by (cases c; cases c') simp_all

lemma separated_Cons:
  "separated sep (x # xs) = x @ (if xs = [] then [] else sep @ separated sep xs)"
  by (cases xs) simp_all

lemma column_name_start:
  assumes "stop = CHR '')'' \<or> stop = CHR '' ''"
  obtains x xs where "column_name c = x # xs" "x \<noteq> stop"
  using assms by (cases c) auto

lemma columns_inject:
  assumes "separated '', '' (map column_name cs) @ stop # rest = separated '', '' (map column_name ds) @ stop # rest'"
    and "stop = CHR '')'' \<or> stop = CHR '' ''"
  shows "cs = ds"
  using assms(1)
proof (induction cs arbitrary: ds)
  case Nil
  show ?case
  proof (cases ds)
    case (Cons d ds')
    obtain x xs where "column_name d = x # xs" "x \<noteq> stop" by (rule column_name_start [OF assms(2)])
    then show ?thesis using Nil Cons by (simp add: separated_Cons)
  qed simp
next
  case (Cons c cs)
  let ?name = "takeWhile (\<lambda>x. x \<noteq> CHR '','' \<and> x \<noteq> stop)"
  have read: "?name (separated '', '' (map column_name (k # ks)) @ stop # tail) = column_name k" for k ks tail
  proof -
    have "\<forall>x \<in> set (column_name k). x \<noteq> CHR '','' \<and> x \<noteq> stop" using column_name_chars [of _ k] assms(2) by auto
    then show ?thesis by (simp add: separated_Cons takeWhile_append2)
  qed
  show ?case
  proof (cases ds)
    case Nil
    obtain x xs where "column_name c = x # xs" "x \<noteq> stop" by (rule column_name_start [OF assms(2)])
    then show ?thesis using Cons.prems Nil by (simp add: separated_Cons)
  next
    case (Cons d ds')
    have "column_name c = column_name d"
      using arg_cong [OF Cons.prems, of ?name] unfolding Cons read .
    then have c: "c = d" by (simp add: column_name_inject)
    then have "(if cs = [] then [] else '', '' @ separated '', '' (map column_name cs)) @ stop # rest =
        (if ds' = [] then [] else '', '' @ separated '', '' (map column_name ds')) @ stop # rest'"
      using Cons.prems Cons by (simp add: separated_Cons split: if_splits)
    then have "separated '', '' (map column_name cs) @ stop # rest = separated '', '' (map column_name ds') @ stop # rest'"
      using assms(2) by (auto split: if_splits)
    then show ?thesis using Cons.IH c Cons by simp
  qed
qed

lemma insert_text_inject: "insert_text cs = insert_text ds \<Longrightarrow> cs = ds"
  by (rule columns_inject [where stop = "CHR '')''"]) (auto simp: insert_text_def)

lemma select_text_inject:
  assumes "select_text cs order = select_text ds order'"
  shows "cs = ds \<and> order = order'"
proof -
  have "cs = ds"
    by (rule columns_inject [where stop = "CHR '' ''"]) (use assms in \<open>auto simp: select_text_def\<close>)
  then show ?thesis using assms by (cases order; cases order') (auto simp: select_text_def)
qed

lemma text_kinds:
  "insert_text cs \<noteq> select_text ds order" "insert_text cs \<noteq> delete_text" "insert_text cs \<noteq> count_text"
  "select_text ds order \<noteq> delete_text" "select_text ds order \<noteq> count_text"
  "create_text b defs \<noteq> journal_text mode" "create_text b defs \<noteq> synchronous_text mode"
  "create_text False defs \<noteq> create_text True defs'" "journal_text mode \<noteq> synchronous_text mode'"
proof -
  show "select_text ds order \<noteq> count_text"
  proof (cases ds)
    case Nil
    then show ?thesis by (simp add: select_text_def count_text_def)
  next
    case (Cons d ds')
    obtain x xs where "column_name d = x # xs" "x \<noteq> CHR ''C''" by (cases d) auto
    then show ?thesis using Cons by (simp add: select_text_def count_text_def separated_Cons)
  qed
qed (simp_all add: insert_text_def select_text_def delete_text_def count_text_def create_text_def
       journal_text_def synchronous_text_def)

lemmas read_text = statement_texts text_kinds text_kinds [symmetric]

lemma cells_read: "list_all2 (\<lambda>row r. list_all2 (reads_column r) select_columns row) (map cells rs) rs"
  using list_all2_cells [of rs] unfolding reads_as_def [abs_def] .

lemma fold_max_le: "m \<le> fold max xs m \<and> (\<forall>x \<in> set xs. x \<le> fold max xs m)" for m :: int
proof (induction xs arbitrary: m)
  case (Cons x xs)
  show ?case using Cons.IH [of "max x m"] by auto
qed simp

lemma next_id_fresh: "tb_sequence t < next_id t" "next_id t \<notin> pu_id ` set (tb_rows t)"
proof -
  note m = fold_max_le [of "tb_sequence t" "map pu_id (tb_rows t)"]
  show "tb_sequence t < next_id t" using m by (simp add: next_id_def)
  show "next_id t \<notin> pu_id ` set (tb_rows t)"
  proof
    assume "next_id t \<in> pu_id ` set (tb_rows t)"
    then have "next_id t \<le> fold max (map pu_id (tb_rows t)) (tb_sequence t)" using m by auto
    then show False by (simp add: next_id_def)
  qed
qed

lemma ref_insert_law: "insert_law (ref_sqlite faults)"
  unfolding insert_law_def
proof (intro allI impI, elim conjE)
  fix n :: nat and db :: string and d :: disk and columns binds r t
  assume t: "d db = Some t" "bound_row columns binds = Some r"
  let ?run = "sq_run (ref_sqlite faults) n db (insert_text columns) binds d"
  show "case ?run of
      (Stepped [] None, d') \<Rightarrow> pu_value r \<noteq> NaN \<and>
        (\<exists>i. i \<notin> pu_id ` set (tb_rows t) \<and>
           (declares t (IdColumn, IntegerType, PrimaryKeyAutoincrement) \<longrightarrow> tb_sequence t < i) \<and>
           d' = d(db \<mapsto> insert_row i r t))
    | (_, d') \<Rightarrow> d' = d"
  proof (cases "columns = insert_columns")
    case True
    then show ?thesis using t next_id_fresh [of t]
      by (auto simp: ref_sqlite_def ref_run_def read_text split: option.splits sql_fault.splits intro!: exI [of _ "next_id t"])
  next
    case False
    then have "insert_text columns \<noteq> insert_text insert_columns" using insert_text_inject by blast
    then show ?thesis using t by (auto simp: ref_sqlite_def ref_run_def read_text split: option.splits sql_fault.splits)
  qed
qed

lemma ref_select_law: "select_law (ref_sqlite faults)"
  unfolding select_law_def
proof (intro allI impI, elim conjE)
  fix n limit :: nat and db :: string and d :: disk and columns order t
  assume t: "d db = Some t"
  let ?run = "sq_run (ref_sqlite faults) n db (select_text columns order) [BindInt64 (int limit)] d"
  show "case ?run of
      (Stepped rows failure, d') \<Rightarrow> d' = d \<and>
        (\<exists>k \<le> limit. list_all2 (\<lambda>row r. list_all2 (reads_column r) columns row) rows
                      (take k (in_order order (tb_rows t))) \<and> (failure = None \<longrightarrow> k = limit))
    | (_, d') \<Rightarrow> d' = d"
  proof (cases "columns = select_columns \<and> order = Ascending")
    case True
    then show ?thesis using t True cells_read
      by (auto simp: ref_sqlite_def ref_run_def read_text in_order_def split: option.splits sql_fault.splits)
        (metis cells_read min.cobounded2)
  next
    case False
    then have "select_text columns order \<noteq> select_text select_columns Ascending" using select_text_inject by blast
    then show ?thesis using t by (auto simp: ref_sqlite_def ref_run_def read_text split: option.splits sql_fault.splits)
  qed
qed

lemma ref_delete_law: "delete_law (ref_sqlite faults)"
  unfolding delete_law_def ref_sqlite_def ref_run_def statement_texts(4) [symmetric]
  by (auto simp: differ split: option.splits sql_fault.splits)

lemma ref_count_law: "count_law (ref_sqlite faults)"
  unfolding count_law_def ref_sqlite_def ref_run_def statement_texts(5) [symmetric]
  by (auto simp: differ split: option.splits sql_fault.splits)

lemma ref_schema_law: "schema_law (ref_sqlite faults)"
  unfolding schema_law_def
  by (intro allI, case_tac if_not_exists) (auto simp: ref_sqlite_def read_text empty_table_def)

lemma ref_sqlite_laws: "sqlite_laws (ref_sqlite faults)"
  using ref_insert_law ref_select_law ref_delete_law ref_count_law ref_schema_law
  by (auto simp: sqlite_laws_def open_law_def close_law_def pragma_law_def ref_sqlite_def read_text)

section \<open>Example worlds\<close>

definition ex_world :: world where
  \<comment> \<open>steady clock one second per reading, every SQLite call succeeds, the server answers 202,
      an I2C device with the chip id of a BME280 and otherwise zeros\<close>
  "ex_world =
     \<lparr>w_steady = (\<lambda>n. int n * 1000000000), w_steady_n = 0,
      w_system = (\<lambda>n. 1700000000000000000 + int n * 1500000), w_system_n = 0,
      w_disk = (\<lambda>_. None), w_sqlite = ref_sqlite (\<lambda>_. None), w_sql_n = 0, w_mkdir = (\<lambda>_. None),
      w_reply = (\<lambda>_. \<lparr>hr_status_code = 202, hr_body = [], hr_error = []\<rparr>), w_posts = [],
      w_dump = (\<lambda>_. Some ''{}''), w_json_int = (\<lambda>j. case j of JInt i \<Rightarrow> Some i | _ \<Rightarrow> None),
      w_sin = (\<lambda>_. Fin 0), w_cos = (\<lambda>_. Fin 1), w_open_device = (\<lambda>_ _. 3),
      w_ioctl = (\<lambda>_ _. (0, [0x60])), w_device_n = 0, w_undefined = False\<rparr>"

lemma ex_world_laws [simp]: "sqlite_laws (w_sqlite ex_world)"
  by (simp add: ex_world_def ref_sqlite_laws)

end
