(* ===== verification/LocalStore.thy ===== *)
theory LocalStore
  imports Sqlite Interfaces
begin

text \<open>
  The offline upload queue, \<open>src/storage/local_store.cpp\<close>. A \<open>LocalStore\<close> is the handle of an
  open database file and the last error; its operations thread the world, whose SQLite engine
  is a parameter. Rows are identified by a counter that never goes back.
\<close>

section \<open>Conversions\<close>

definition time_to_unix_ms :: "int \<Rightarrow> int" where
  "time_to_unix_ms timestamp = c_div timestamp 1000000"

definition unix_ms_to_time :: "int \<Rightarrow> int" where
  \<comment> \<open>the product is in nanoseconds; for a row that the program wrote it is within a millisecond of the time of the
      sample (\<open>time_roundtrip\<close>), for other rows its overflow of 64 bits is not modelled\<close>
  "unix_ms_to_time millis = millis * 1000000"

fun quality_to_string :: "sample_quality \<Rightarrow> string" where
  "quality_to_string KGood = ''good''"
| "quality_to_string KUncertain = ''uncertain''"
| "quality_to_string KBad = ''bad''"

fun quality_from_string :: "string option \<Rightarrow> sample_quality" where
  "quality_from_string None = KGood"
| "quality_from_string (Some text) =
     (if text = ''uncertain'' then KUncertain
      else if text = ''bad'' then KBad
      else KGood)"

definition priority_of_int :: "int \<Rightarrow> priority" where
  \<comment> \<open>\<open>static_cast<Priority>\<close> of a column that only ever holds 0, 1 or 2\<close>
  "priority_of_int n = (if n = 0 then KLow else if n = 1 then KNormal else KCritical)"

definition has_parent_path :: "string \<Rightarrow> bool" where
  "has_parent_path path \<longleftrightarrow> CHR ''/'' \<in> set path"

definition parent_path :: "string \<Rightarrow> string" where
  "parent_path path =
     (let is_slash = (\<lambda>c. c = CHR ''/'');
          directory = rev (dropWhile is_slash (dropWhile (\<lambda>c. \<not> is_slash c) (rev path)))
      in if directory = [] then ''/'' else directory)"

section \<open>State\<close>

record local_store =
  ls_db :: "string option"
  ls_last_error :: string

record pending_row =
  pr_id :: int
  pr_sample :: stored_sample

type_synonym store_state = "local_store \<times> world"

definition local_store_new :: local_store where
  "local_store_new = \<lparr>ls_db = None, ls_last_error = []\<rparr>"

section \<open>Operations\<close>

definition close_store :: "store_state \<Rightarrow> store_state" where
  "close_store = (\<lambda>(ls, w).
     (case ls_db ls of
        None \<Rightarrow> (ls, w)
      | Some db \<Rightarrow> (ls\<lparr>ls_db := None\<rparr>, sql_close db w)))"

definition exec_sql :: "string \<Rightarrow> store_state \<Rightarrow> bool \<times> store_state" where
  "exec_sql sql = (\<lambda>(ls, w).
     (case ls_db ls of
        None \<Rightarrow> (False, ls\<lparr>ls_last_error := ''sqlite exec failed''\<rparr>, w)
      | Some file \<Rightarrow>
         (case sql_exec file sql w of
            (SqlError message, w1) \<Rightarrow>
              (False, ls\<lparr>ls_last_error :=
                 (case message of Some m \<Rightarrow> m | None \<Rightarrow> ''sqlite exec failed'')\<rparr>, w1)
          | (SqlOk, w1) \<Rightarrow> (True, ls, w1))))"

definition ensure_schema :: "store_state \<Rightarrow> bool \<times> store_state" where
  "ensure_schema = exec_sql schema_sql"

definition open_store :: "string \<Rightarrow> store_state \<Rightarrow> bool \<times> store_state" where
  \<comment> \<open>\<open>sqlite3_open\<close> may leave a handle when it fails: then there is a message and a handle to close\<close>
  "open_store path = (\<lambda>s0.
     (let (ls, w) = close_store s0 in
      if path = [] then (False, ls\<lparr>ls_last_error := ''local store path is empty''\<rparr>, w)
      else
        (case (if has_parent_path path then w_mkdir w (parent_path path) else None) of
           Some message \<Rightarrow> (False, ls\<lparr>ls_last_error := ''cannot create directory: '' @ message\<rparr>, w)
         | None \<Rightarrow>
            (case sql_open (c_str path) w of
               (SqlError message, w1) \<Rightarrow>
                 (False, close_store (ls\<lparr>ls_db := (case message of Some m \<Rightarrow> Some (c_str path) | None \<Rightarrow> None),
                    ls_last_error := (case message of Some m \<Rightarrow> m | None \<Rightarrow> ''sqlite3_open failed'')\<rparr>, w1))
             | (SqlOk, w1) \<Rightarrow>
                (case exec_sql journal_sql (ls\<lparr>ls_db := Some (c_str path)\<rparr>, w1) of
                   (False, s2) \<Rightarrow> (False, close_store s2)
                 | (True, s2) \<Rightarrow>
                    (case exec_sql synchronous_sql s2 of
                       (False, s3) \<Rightarrow> (False, close_store s3)
                     | (True, s3) \<Rightarrow>
                        (case ensure_schema s3 of
                           (False, s4) \<Rightarrow> (False, close_store s4)
                         | (True, ls4, w4) \<Rightarrow> (True, ls4\<lparr>ls_last_error := []\<rparr>, w4))))))))"

definition row_of_sample :: "stored_sample \<Rightarrow> int \<Rightarrow> pending_upload" where
  \<comment> \<open>the values bound by \<open>enqueue\<close>; the identifier is assigned by the engine\<close>
  "row_of_sample s now_ms =
     \<lparr>pu_id = 0, pu_channel_id = c_str (ss_channel_id s), pu_value = ss_value s,
      pu_unit = c_str (ss_unit s), pu_timestamp_ms = time_to_unix_ms (ss_timestamp s),
      pu_quality = quality_to_string (ss_quality s),
      pu_priority = int (priority_code (ss_priority s)), pu_created_at_ms = now_ms\<rparr>"

definition store_enqueue :: "stored_sample \<Rightarrow> store_state \<Rightarrow> bool \<times> store_state" where
  "store_enqueue s = (\<lambda>(ls, w).
     (case ls_db ls of
        None \<Rightarrow> (False, ls\<lparr>ls_last_error := ''local store is not open''\<rparr>, w)
      | Some file \<Rightarrow>
         (let (now, w1) = system_now w in
          (case sql_run file insert_sql (insert_binds (row_of_sample s (time_to_unix_ms now))) w1 of
             (PrepareFailed message, w2) \<Rightarrow> (False, ls\<lparr>ls_last_error := message\<rparr>, w2)
           | (Stepped [] None, w2) \<Rightarrow> (True, ls\<lparr>ls_last_error := []\<rparr>, w2)
           | (Stepped [] (Some message), w2) \<Rightarrow> (False, ls\<lparr>ls_last_error := message\<rparr>, w2)
           | (Stepped (_ # _) _, w2) \<Rightarrow>
               (False, ls\<lparr>ls_last_error := ''another row available''\<rparr>, w2)))))"

definition snprintf_s :: "char list \<Rightarrow> string \<Rightarrow> char list" where
  \<comment> \<open>\<open>snprintf(array, sizeof(array), "%s", text)\<close>\<close>
  "snprintf_s buffer chars = array_write buffer (take (length buffer - 1) (c_str chars))"

definition decode_row :: "sql_cell list \<Rightarrow> pending_row" where
  "decode_row row =
     (let s = stored_sample_default;
          s = s\<lparr>ss_value := cell_double (row ! 2)\<rparr>;
          s = s\<lparr>ss_timestamp := unix_ms_to_time (cell_int64 (row ! 4))\<rparr>;
          s = s\<lparr>ss_quality := quality_from_string (cell_text (row ! 5))\<rparr>;
          s = s\<lparr>ss_priority := priority_of_int (cell_int (row ! 6))\<rparr>;
          s = (case cell_text (row ! 1) of
                 None \<Rightarrow> s
               | Some channel_id \<Rightarrow> s\<lparr>ss_channel_id := snprintf_s (ss_channel_id s) channel_id\<rparr>);
          s = (case cell_text (row ! 3) of
                 None \<Rightarrow> s
               | Some unit_text \<Rightarrow> s\<lparr>ss_unit := snprintf_s (ss_unit s) unit_text\<rparr>)
      in \<lparr>pr_id = cell_int64 (row ! 0), pr_sample = s\<rparr>)"

definition peek_batch :: "nat \<Rightarrow> store_state \<Rightarrow> pending_row list \<times> store_state" where
  "peek_batch max_count = (\<lambda>(ls, w).
     (case ls_db ls of
        None \<Rightarrow> ([], ls, w)
      | Some file \<Rightarrow>
         (if max_count = 0 then ([], ls, w)
          else (case sql_run file select_sql [BindInt64 (int max_count)] w of
                  (PrepareFailed _, w1) \<Rightarrow> ([], ls, w1)
                | (Stepped rows _, w1) \<Rightarrow> (map decode_row rows, ls, w1)))))"

definition acknowledge :: "int \<Rightarrow> store_state \<Rightarrow> bool \<times> store_state" where
  "acknowledge row_id = (\<lambda>(ls, w).
     (case ls_db ls of
        None \<Rightarrow> (False, ls\<lparr>ls_last_error := ''local store is not open''\<rparr>, w)
      | Some file \<Rightarrow>
         (case sql_run file delete_sql [BindInt64 row_id] w of
            (PrepareFailed message, w1) \<Rightarrow> (False, ls\<lparr>ls_last_error := message\<rparr>, w1)
          | (Stepped [] None, w1) \<Rightarrow> (True, ls, w1)
          | (Stepped [] (Some message), w1) \<Rightarrow> (False, ls\<lparr>ls_last_error := message\<rparr>, w1)
          | (Stepped (_ # _) _, w1) \<Rightarrow>
              (False, ls\<lparr>ls_last_error := ''another row available''\<rparr>, w1))))"

definition pending_count :: "store_state \<Rightarrow> nat \<times> store_state" where
  "pending_count = (\<lambda>(ls, w).
     (case ls_db ls of
        None \<Rightarrow> (0, ls, w)
      | Some file \<Rightarrow>
         (case sql_run file count_sql [] w of
            (PrepareFailed _, w1) \<Rightarrow> (0, ls, w1)
          | (Stepped [] _, w1) \<Rightarrow> (0, ls, w1)
          | (Stepped (row # _) _, w1) \<Rightarrow> (nat (cell_int64 (row ! 0)), ls, w1))))"

section \<open>What a store holds\<close>

definition sample_of_row :: "pending_upload \<Rightarrow> stored_sample" where
  "sample_of_row r =
     \<lparr>ss_channel_id = snprintf_s (replicate (kMaxChannelIdLength + 1) nul) (pu_channel_id r),
      ss_unit = snprintf_s (replicate (kMaxUnitLength + 1) nul) (pu_unit r),
      ss_value = pu_value r, ss_timestamp = unix_ms_to_time (pu_timestamp_ms r),
      ss_quality = quality_from_string (Some (pu_quality r)),
      ss_priority = priority_of_int (pu_priority r)\<rparr>"

fun store_table :: "store_state \<Rightarrow> sql_table" where
  "store_table (ls, w) =
     (case ls_db ls of None \<Rightarrow> empty_table
      | Some file \<Rightarrow> (case w_disk w file of None \<Rightarrow> empty_table | Some t \<Rightarrow> t))"

definition store_rows :: "store_state \<Rightarrow> (int \<times> stored_sample) list" where
  "store_rows s = map (\<lambda>r. (pu_id r, sample_of_row r)) (tb_rows (store_table s))"

definition saved_sample :: "stored_sample \<Rightarrow> stored_sample" where
  "saved_sample x = sample_of_row (row_of_sample x 0)"

fun store_wf :: "store_state \<Rightarrow> bool" where
  "store_wf (ls, w) \<longleftrightarrow>
     sqlite_laws (w_sqlite w) \<and> (\<forall>t \<in> ran (w_disk w). wf_table t) \<and>
     (\<forall>file. ls_db ls = Some file \<longrightarrow> w_disk w file \<noteq> None)"

lemma wf_store_table: "store_wf s \<Longrightarrow> wf_table (store_table s)"
  by (cases s) (auto simp: wf_empty_table ranI split: option.splits)

lemma decode_row_reads:
  "reads_as row r \<Longrightarrow> decode_row row = \<lparr>pr_id = pu_id r, pr_sample = sample_of_row r\<rparr>"
  by (auto simp: reads_as_def select_columns_def list_all2_Cons1 decode_row_def Let_def sample_of_row_def
        stored_sample_default_def)

lemma decode_rows_read:
  "list_all2 reads_as rows rs \<Longrightarrow>
   map decode_row rows = map (\<lambda>r. \<lparr>pr_id = pu_id r, pr_sample = sample_of_row r\<rparr>) rs"
  by (induction rule: list_all2_induct) (simp_all add: decode_row_reads)

subsection \<open>What survives the round trip\<close>

lemma priority_roundtrip [simp]: "priority_of_int (int (priority_code p)) = p"
  by (cases p) (simp_all add: priority_of_int_def)

lemma quality_roundtrip [simp]: "quality_from_string (Some (quality_to_string q)) = q"
  by (cases q) simp_all

lemma time_roundtrip: "\<bar>t - unix_ms_to_time (time_to_unix_ms t)\<bar> < 1000000"
  using c_div_mult_bounds [of 1000000 t] by (simp add: unix_ms_to_time_def time_to_unix_ms_def)

lemma c_str_snprintf: "c_str (snprintf_s buffer chars) = take (length buffer - 1) (c_str chars)"
proof -
  have "nul \<notin> set (take (length buffer - 1) (c_str chars))"
    using c_str_no_nul [of chars] by (meson in_set_takeD)
  then show ?thesis by (simp add: snprintf_s_def c_str_array_write c_str_id)
qed

lemma length_c_str_terminated: "nul \<in> set buffer \<Longrightarrow> length (c_str buffer) < length buffer"
  by (metis c_str_def c_str_no_nul length_c_str_le nat_less_le takeWhile_eq_take take_all_iff order_refl)

lemma wf_stored_saved [wf_intros]: "wf_stored (saved_sample x)"
  by (simp add: wf_stored_def saved_sample_def sample_of_row_def snprintf_s_def array_sizes
        array_write_def)

lemma saved_sample_texts:
  assumes "wf_stored x"
  shows "c_str (ss_channel_id (saved_sample x)) = c_str (ss_channel_id x)"
    and "c_str (ss_unit (saved_sample x)) = c_str (ss_unit x)"
  using assms length_c_str_terminated [of "ss_channel_id x"] length_c_str_terminated [of "ss_unit x"]
  by (simp_all add: saved_sample_def sample_of_row_def row_of_sample_def c_str_snprintf wf_stored_def)

lemma saved_sample_fields [simp]:
  "ss_value (saved_sample x) = ss_value x"
  "ss_quality (saved_sample x) = ss_quality x"
  "ss_priority (saved_sample x) = ss_priority x"
  "ss_timestamp (saved_sample x) = unix_ms_to_time (time_to_unix_ms (ss_timestamp x))"
  by (simp_all add: saved_sample_def sample_of_row_def row_of_sample_def
      del: quality_from_string.simps)

lemma sample_of_row_of_sample: "sample_of_row (row_of_sample x m\<lparr>pu_id := i\<rparr>) = saved_sample x"
  by (simp add: saved_sample_def sample_of_row_def row_of_sample_def)

section \<open>The operations on the table\<close>

text \<open>
  Each operation changes the table of the open file and no other file, and never the engine.
\<close>

definition same_file :: "store_state \<Rightarrow> store_state \<Rightarrow> bool" where
  "same_file s s' \<longleftrightarrow> ls_db (fst s') = ls_db (fst s) \<and> same_net (snd s) (snd s')"

lemma same_file_simps [simp]:
  "same_file (ls, w) (ls', w') \<longleftrightarrow> ls_db ls' = ls_db ls \<and> same_net w w'"
  by (simp add: same_file_def)

lemma same_file_trans: "same_file s s' \<Longrightarrow> same_file s' s'' \<Longrightarrow> same_file s s''"
  using same_net_trans by (auto simp: same_file_def)

lemma sql_frames [frame_simps]:
  "sql_run db sql binds w = (result, w') \<Longrightarrow>
     same_net w w' \<and> w' = w\<lparr>w_disk := w_disk w', w_sql_n := w_sql_n w + 1\<rparr>"
  "sql_exec db sql w = (rc, w') \<Longrightarrow>
     same_net w w' \<and> w' = w\<lparr>w_disk := w_disk w', w_sql_n := w_sql_n w + 1\<rparr>"
  "sql_open file w = (rc, w') \<Longrightarrow>
     same_net w w' \<and> w' = w\<lparr>w_disk := w_disk w', w_sql_n := w_sql_n w + 1\<rparr>"
  by (auto simp: sql_run_def sql_exec_def sql_open_def same_net_def split: prod.splits)

lemma sql_close_frame [simp]: "same_net w (sql_close db w)" "w_sqlite (sql_close db w) = w_sqlite w"
  by (simp_all add: sql_close_def)

lemma system_now_frame:
  "system_now w = (t, w') \<Longrightarrow> same_net w w' \<and> w_disk w' = w_disk w \<and> w_sqlite w' = w_sqlite w"
  by (auto simp: system_now_def same_net_def)

lemma sql_insert_cases:
  assumes "sql_run db insert_sql (insert_binds r) w = (result, w')"
    and "sqlite_laws (w_sqlite w)" "w_disk w db = Some t" "wf_table t"
  shows "if result = Stepped [] None
         then pu_value r \<noteq> NaN \<and> (\<exists>i > tb_sequence t. w_disk w' = (w_disk w)(db \<mapsto> insert_row i r t))
         else w_disk w' = w_disk w"
proof -
  have "insert_law (w_sqlite w)" using assms(2) by (simp add: sqlite_laws_def)
  note law = this [unfolded insert_law_def, rule_format, where n = "w_sql_n w" and d = "w_disk w" and db = db and t = t
      and columns = insert_columns and binds = "insert_binds r" and r = "r\<lparr>pu_id := 0\<rparr>",
      folded statement_texts(2), unfolded insert_row_any_id]
  have "w_disk w db = Some t \<and> distinct insert_columns \<and> set insert_columns = - {IdColumn} \<and>
      bound_row insert_columns (insert_binds r) = Some (r\<lparr>pu_id := 0\<rparr>) \<and> keyed t \<and>
      (pu_value (r\<lparr>pu_id := 0\<rparr>) = NaN \<longrightarrow> declares t (ValueColumn, RealType, NotNull))"
    using assms(3) insert_columns_all bound_insert [of r] wf_declares [OF assms(4)] by simp
  from law [OF this] show ?thesis using assms(1) wf_declares(1) [OF assms(4)]
    by (auto simp: sql_run_def split: prod.splits sql_result.splits list.splits option.splits)
qed

lemma sql_delete_cases:
  assumes "sql_run db delete_sql [BindInt64 i] w = (result, w')"
    and "sqlite_laws (w_sqlite w)" "w_disk w db = Some t"
  shows "w_disk w' = (if result = Stepped [] None then (w_disk w)(db \<mapsto> delete_row i t) else w_disk w)"
proof -
  have "delete_law (w_sqlite w)" using assms(2) by (simp add: sqlite_laws_def)
  from this [unfolded delete_law_def statement_texts(4) [symmetric], rule_format, where n = "w_sql_n w" and d = "w_disk w", OF assms(3), of i]
  show ?thesis using assms(1)
    by (auto simp: sql_run_def split: prod.splits sql_result.splits list.splits option.splits)
qed

lemma sql_select_cases:
  assumes "sql_run db select_sql [BindInt64 (int limit)] w = (result, w')"
    and "sqlite_laws (w_sqlite w)" "w_disk w db = Some t" "wf_table t"
  shows "w_disk w' = w_disk w \<and>
         (\<forall>rows failure. result = Stepped rows failure \<longrightarrow>
            (\<exists>k \<le> limit. list_all2 reads_as rows (take k (tb_rows t)) \<and> (failure = None \<longrightarrow> k = limit)))"
proof -
  have "select_law (w_sqlite w)" using assms(2) by (simp add: sqlite_laws_def)
  from this [unfolded select_law_def, rule_format, where n = "w_sql_n w" and d = "w_disk w" and db = db and t = t
      and columns = select_columns and order = Ascending and limit = limit,
      folded statement_texts(3), folded reads_as_def [abs_def], unfolded in_order_wf [OF assms(4)]]
  show ?thesis using assms(1,3) wf_declares(3) [OF assms(4)]
    by (auto simp: sql_run_def split: prod.splits sql_result.splits)
qed

lemma sql_count_cases:
  assumes "sql_run db count_sql [] w = (result, w')"
    and "sqlite_laws (w_sqlite w)" "w_disk w db = Some t"
  shows "w_disk w' = w_disk w \<and>
         (\<forall>rows failure. result = Stepped rows failure \<longrightarrow>
            (\<forall>row \<in> set rows. cell_int64 (row ! 0) = int (length (tb_rows t))) \<and>
            (failure = None \<longrightarrow> rows \<noteq> []))"
proof -
  have "count_law (w_sqlite w)" using assms(2) by (simp add: sqlite_laws_def)
  from this [unfolded count_law_def statement_texts(5) [symmetric], rule_format, where n = "w_sql_n w" and d = "w_disk w", OF assms(3)]
  show ?thesis using assms(1)
    by (auto simp: sql_run_def split: prod.splits sql_result.splits)
qed

definition put_table :: "store_state \<Rightarrow> sql_table \<Rightarrow> store_state \<Rightarrow> bool" where
  \<comment> \<open>the table of the open file is the given one, everything else on the disk as before\<close>
  "put_table s t s' \<longleftrightarrow> same_file s s' \<and>
     (case ls_db (fst s) of
        None \<Rightarrow> w_disk (snd s') = w_disk (snd s)
      | Some db \<Rightarrow> w_disk (snd s') = (w_disk (snd s))(db \<mapsto> t))"

lemma put_table_wf:
  assumes "store_wf s" "put_table s t s'" "wf_table t"
  shows "store_wf s' \<and> (ls_db (fst s) \<noteq> None \<longrightarrow> store_table s' = t)"
  using assms
  by (cases s; cases s') (auto simp: put_table_def same_net_def ran_def split: option.splits if_splits)

lemma put_table_same:
  "store_wf s \<Longrightarrow> same_file s s' \<Longrightarrow> w_disk (snd s') = w_disk (snd s) \<Longrightarrow> put_table s (store_table s) s'"
  by (cases s; cases s') (auto simp: put_table_def split: option.splits)

lemma store_enqueue_table:
  assumes "store_wf s" "store_enqueue x s = (ok, s')"
  shows "if ok then ls_db (fst s) \<noteq> None \<and> ss_value x \<noteq> NaN \<and> ls_last_error (fst s') = [] \<and>
           (\<exists>i m. tb_sequence (store_table s) < i \<and>
                  put_table s (insert_row i (row_of_sample x m) (store_table s)) s')
         else put_table s (store_table s) s'"
proof -
  obtain ls w where s: "s = (ls, w)" by fastforce
  show ?thesis
  proof (cases "ls_db ls")
    case None
    then show ?thesis using assms s by (auto simp: store_enqueue_def put_table_def)
  next
    case (Some db)
    obtain t where t: "w_disk w db = Some t" using assms(1) s Some by auto
    obtain now w1 where now: "system_now w = (now, w1)" by fastforce
    let ?r = "row_of_sample x (time_to_unix_ms now)"
    obtain result w2 where run: "sql_run db insert_sql (insert_binds ?r) w1 = (result, w2)"
      by fastforce
    have w1: "same_net w w1" "w_disk w1 = w_disk w" "w_sqlite w1 = w_sqlite w"
      using system_now_frame [OF now] by simp_all
    have w2: "same_net w w2" using sql_frames(1) [OF run] w1(1) same_net_trans by blast
    have laws: "sqlite_laws (w_sqlite w1)" "w_disk w1 db = Some t" "wf_table t"
      using assms(1) s t w1 by (auto simp: ranI)
    have "pu_value ?r = ss_value x" by (simp add: row_of_sample_def)
    with sql_insert_cases [OF run laws] show ?thesis
      using assms(2) s Some now run w1 w2 t
      by (auto simp: store_enqueue_def put_table_def split: sql_result.splits list.splits option.splits)
        blast
  qed
qed

lemma acknowledge_table:
  assumes "store_wf s" "acknowledge i s = (ok, s')"
  shows "put_table s (if ok then delete_row i (store_table s) else store_table s) s' \<and>
         (ok \<longrightarrow> ls_db (fst s) \<noteq> None)"
proof -
  obtain ls w where s: "s = (ls, w)" by fastforce
  show ?thesis
  proof (cases "ls_db ls")
    case None
    then show ?thesis using assms s by (auto simp: acknowledge_def put_table_def)
  next
    case (Some db)
    obtain t where t: "w_disk w db = Some t" using assms(1) s Some by auto
    obtain result w1 where run: "sql_run db delete_sql [BindInt64 i] w = (result, w1)" by fastforce
    have laws: "sqlite_laws (w_sqlite w)" using assms(1) s by simp
    from sql_delete_cases [OF run laws t] sql_frames(1) [OF run] show ?thesis
      using assms(2) s Some run t
      by (auto simp: acknowledge_def put_table_def split: sql_result.splits list.splits option.splits)
  qed
qed

lemma peek_batch_table:
  assumes "store_wf s" "peek_batch n s = (rows, s')"
  shows "put_table s (store_table s) s' \<and>
         (\<exists>k \<le> n. rows = map (\<lambda>r. \<lparr>pr_id = pu_id r, pr_sample = sample_of_row r\<rparr>)
                           (take k (tb_rows (store_table s))))"
proof -
  obtain ls w where s: "s = (ls, w)" by fastforce
  show ?thesis
  proof (cases "ls_db ls")
    case None
    then show ?thesis using assms s by (auto simp: peek_batch_def put_table_def empty_table_def)
  next
    case (Some db)
    obtain t where t: "w_disk w db = Some t" using assms(1) s Some by auto
    obtain result w1 where run: "sql_run db select_sql [BindInt64 (int n)] w = (result, w1)" by fastforce
    have laws: "sqlite_laws (w_sqlite w)" and wf: "wf_table t" using assms(1) s t by (auto simp: ranI)
    show ?thesis
    proof (cases "n = 0")
      case True
      then show ?thesis using assms s Some t by (auto simp: peek_batch_def put_table_def map_upd_triv)
    next
      case False
      have table: "store_table s = t" using s Some t by simp
      have w1: "w_disk w1 = w_disk w" "same_net w w1"
        using sql_select_cases [OF run laws t wf] sql_frames(1) [OF run] by simp_all
      have s': "s' = (ls, w1)" using assms(2) s Some run False
        by (auto simp: peek_batch_def split: sql_result.splits)
      have put: "put_table s (store_table s) s'" using s s' w1 Some t table
        by (simp add: put_table_def map_upd_triv)
      have "\<exists>k \<le> n. rows = map (\<lambda>r. \<lparr>pr_id = pu_id r, pr_sample = sample_of_row r\<rparr>) (take k (tb_rows t))"
      proof (cases result)
        case (PrepareFailed m)
        then have "rows = []" using assms(2) s Some run False by (simp add: peek_batch_def)
        then show ?thesis by (intro exI [of _ 0]) simp
      next
        case (Stepped cs f)
        then have "rows = map decode_row cs" using assms(2) s Some run False by (simp add: peek_batch_def)
        moreover obtain k where "k \<le> n" "list_all2 reads_as cs (take k (tb_rows t))"
          using sql_select_cases [OF run laws t wf] Stepped by blast
        ultimately show ?thesis using decode_rows_read by blast
      qed
      with put table show ?thesis by simp
    qed
  qed
qed

lemma pending_count_table:
  assumes "store_wf s" "pending_count s = (n, s')"
  shows "put_table s (store_table s) s' \<and> (n = 0 \<or> n = length (store_rows s))"
proof -
  obtain ls w where s: "s = (ls, w)" by fastforce
  show ?thesis
  proof (cases "ls_db ls")
    case None
    then show ?thesis using assms s by (auto simp: pending_count_def put_table_def)
  next
    case (Some db)
    obtain t where t: "w_disk w db = Some t" using assms(1) s Some by auto
    obtain result w1 where run: "sql_run db count_sql [] w = (result, w1)" by fastforce
    have laws: "sqlite_laws (w_sqlite w)" using assms(1) s by simp
    from sql_count_cases [OF run laws t] sql_frames(1) [OF run] show ?thesis
      using assms(2) s Some run t
      by (auto simp: pending_count_def put_table_def store_rows_def split: sql_result.splits list.splits)
  qed
qed

section \<open>Opening and closing\<close>

lemma exec_sql_cases:
  assumes "exec_sql sql (ls, w) = (ok, ls', w')" "ls_db ls = Some db"
  shows "\<exists>rc. sql_exec db sql w = (rc, w') \<and> (ok \<longleftrightarrow> rc = SqlOk) \<and> ls_db ls' = Some db \<and>
              (ok \<longrightarrow> ls' = ls)"
  using assms by (auto simp: exec_sql_def split: prod.splits sql_rc.splits)

lemma pragma_disk:
  assumes "exec_sql sql (ls, w) = (ok, ls', w')" "ls_db ls = Some db"
    and "sql = journal_sql \<or> sql = synchronous_sql" "sqlite_laws (w_sqlite w)"
  shows "same_net w w' \<and> w_disk w' = w_disk w \<and> ls_db ls' = Some db \<and> (ok \<longrightarrow> ls' = ls)"
proof -
  obtain rc where e: "sql_exec db sql w = (rc, w')" "ls_db ls' = Some db" "ok \<longrightarrow> ls' = ls"
    using exec_sql_cases [OF assms(1,2)] by blast
  have "pragma_law (w_sqlite w)" using assms(4) by (simp add: sqlite_laws_def)
  then have "snd (sq_exec (w_sqlite w) (w_sql_n w) db sql (w_disk w)) = w_disk w"
    using assms(3) unfolding pragma_law_def statement_texts by auto
  then have "w_disk w' = w_disk w" using e(1) by (auto simp: sql_exec_def split: prod.splits)
  then show ?thesis using e sql_frames(2) [OF e(1)] by simp
qed

lemma schema_disk:
  assumes "ensure_schema (ls, w) = (ok, ls', w')" "ls_db ls = Some db" "sqlite_laws (w_sqlite w)"
  shows "same_net w w' \<and> (ok \<longrightarrow> ls' = ls) \<and> ls_db ls' = Some db \<and>
         w_disk w' = (if ok \<and> w_disk w db = None then (w_disk w)(db \<mapsto> empty_table) else w_disk w)"
proof -
  obtain rc where e: "sql_exec db schema_sql w = (rc, w')" "ls_db ls' = Some db" "ok \<longleftrightarrow> rc = SqlOk"
      "ok \<longrightarrow> ls' = ls"
    using exec_sql_cases [OF assms(1) [unfolded ensure_schema_def] assms(2)] by blast
  have "schema_law (w_sqlite w)" using assms(3) by (simp add: sqlite_laws_def)
  from this [unfolded schema_law_def, rule_format, where n = "w_sql_n w" and db = db and d = "w_disk w"
      and if_not_exists = True and defs = pending_defs,
      folded statement_texts(1), folded empty_table_def]
  have "w_disk w' = (if ok \<and> w_disk w db = None then (w_disk w)(db \<mapsto> empty_table) else w_disk w)"
    using e(1,3) by (auto simp: sql_exec_def split: prod.splits sql_rc.splits)
  then show ?thesis using e sql_frames(2) [OF e(1)] by simp
qed

lemma sql_open_disk:
  "sql_open db w = (rc, w') \<Longrightarrow> sqlite_laws (w_sqlite w) \<Longrightarrow>
   same_net w w' \<and> w_disk w' = (if rc = SqlOk then forget db (w_disk w) else w_disk w)"
proof -
  assume o: "sql_open db w = (rc, w')" and laws: "sqlite_laws (w_sqlite w)"
  have "open_law (w_sqlite w)" using laws by (simp add: sqlite_laws_def)
  from this [unfolded open_law_def, rule_format, where n = "w_sql_n w" and d = "w_disk w" and db = db]
  have "w_disk w' = (if rc = SqlOk then forget db (w_disk w) else w_disk w)"
    using o by (auto simp: sql_open_def split: prod.splits sql_rc.splits)
  then show ?thesis using sql_frames(3) [OF o] by simp
qed

lemma sql_close_disk: "sqlite_laws (w_sqlite w) \<Longrightarrow> w_disk (sql_close db w) = forget db (w_disk w)"
  by (simp add: sql_close_def sqlite_laws_def close_law_def)

definition closed_disk :: "store_state \<Rightarrow> disk" where
  "closed_disk s = (case ls_db (fst s) of None \<Rightarrow> w_disk (snd s) | Some db \<Rightarrow> forget db (w_disk (snd s)))"

lemma close_store_effect:
  assumes "sqlite_laws (w_sqlite w)"
  shows "ls_db (fst (close_store (ls, w))) = None \<and> same_net w (snd (close_store (ls, w))) \<and>
         w_disk (snd (close_store (ls, w))) = closed_disk (ls, w)"
  using sql_close_disk [OF assms] by (simp add: close_store_def closed_disk_def split: option.splits)

lemma forget_simps [simp]:
  "forget db (forget db d) = forget db d"
  "durable_name file \<Longrightarrow> forget db d file = d file"
  "d db = None \<Longrightarrow> forget db d db = None"
  by (auto simp: forget_def split: if_splits)

lemma ran_forget: "ran (forget db d) \<subseteq> ran d"
  by (auto simp: forget_def ran_def)

lemma closed_disk_simps [simp]:
  "durable_name file \<Longrightarrow> closed_disk s file = w_disk (snd s) file"
  "ls_db (fst s) = None \<Longrightarrow> closed_disk s = w_disk (snd s)"
  by (auto simp: closed_disk_def split: option.splits)

lemma ran_closed_disk: "ran (closed_disk s) \<subseteq> ran (w_disk (snd s))"
  using ran_forget by (auto simp: closed_disk_def split: option.splits)

definition opened_disk :: "string \<Rightarrow> disk \<Rightarrow> disk" where
  \<comment> \<open>after a successful opening: the tables of the file, or a new table\<close>
  "opened_disk db d =
     (if forget db d db = None then (forget db d)(db \<mapsto> empty_table) else forget db d)"

lemma open_store_disk:
  assumes "open_store path (ls, w) = (ok, ls', w')" "sqlite_laws (w_sqlite w)"
  shows "same_net w w' \<and>
    (if ok then path \<noteq> [] \<and> ls_db ls' = Some (c_str path) \<and> ls_last_error ls' = [] \<and>
        w_disk w' = opened_disk (c_str path) (closed_disk (ls, w))
     else ls_db ls' = None \<and>
        (w_disk w' = closed_disk (ls, w) \<or> w_disk w' = forget (c_str path) (closed_disk (ls, w))))"
proof -
  let ?db = "c_str path"
  obtain l0 w0 where c0: "close_store (ls, w) = (l0, w0)" by fastforce
  have w0: "ls_db l0 = None" "same_net w w0" "w_disk w0 = closed_disk (ls, w)" "sqlite_laws (w_sqlite w0)"
    using close_store_effect [OF assms(2), of ls] c0 assms(2) by (simp_all add: same_net_def)
  have fails: "ls_db (fst (close_store (l, v))) = None \<and> same_net w (snd (close_store (l, v))) \<and>
      (w_disk (snd (close_store (l, v))) = closed_disk (ls, w) \<or>
       w_disk (snd (close_store (l, v))) = forget ?db (closed_disk (ls, w)))"
    if "same_net w v" "ls_db l = None \<or> ls_db l = Some ?db"
      "w_disk v = closed_disk (ls, w) \<or> w_disk v = forget ?db (closed_disk (ls, w))" "ls_db l = None \<longrightarrow> w_disk v = closed_disk (ls, w)"
    for l v
  proof -
    have "sqlite_laws (w_sqlite v)" using that(1) assms(2) by (simp add: same_net_def)
    from close_store_effect [OF this, of l] show ?thesis
      using that same_net_trans [OF that(1)] by (auto simp: closed_disk_def)
  qed
  show ?thesis
  proof (cases "path = [] \<or> (if has_parent_path path then w_mkdir w0 (parent_path path) else None) \<noteq> None")
    case True
    then show ?thesis using assms(1) w0 by (auto simp: open_store_def Let_def c0 split: if_splits)
  next
    case False
    obtain rc w1 where o: "sql_open ?db w0 = (rc, w1)" by fastforce
    have w1: "same_net w w1" "w_disk w1 = (if rc = SqlOk then forget ?db (closed_disk (ls, w)) else closed_disk (ls, w))"
      "sqlite_laws (w_sqlite w1)"
      using sql_open_disk [OF o w0(4)] w0 same_net_trans [of w w0 w1] by (auto simp: same_net_def)
    show ?thesis
    proof (cases rc)
      case (SqlError m)
      then show ?thesis using assms(1) False o w1
          fails [of w1 "l0\<lparr>ls_db := map_option (\<lambda>_. ?db) m, ls_last_error := (case m of Some m \<Rightarrow> m | None \<Rightarrow> ''sqlite3_open failed'')\<rparr>"]
        by (auto simp: open_store_def Let_def c0 split: option.splits)
    next
      case SqlOk
      let ?ls1 = "l0\<lparr>ls_db := Some ?db\<rparr>" and ?d = "forget ?db (closed_disk (ls, w))"
      obtain ok2 ls2 w2 where j: "exec_sql journal_sql (?ls1, w1) = (ok2, ls2, w2)" by (metis prod_cases3)
      have w2: "same_net w w2" "w_disk w2 = ?d" "ls_db ls2 = Some ?db" "sqlite_laws (w_sqlite w2)"
        using pragma_disk [OF j, of ?db] w1 SqlOk same_net_trans [of w w1 w2] by (auto simp: same_net_def)
      obtain ok3 ls3 w3 where y: "exec_sql synchronous_sql (ls2, w2) = (ok3, ls3, w3)" by (metis prod_cases3)
      have w3: "same_net w w3" "w_disk w3 = ?d" "ls_db ls3 = Some ?db" "sqlite_laws (w_sqlite w3)"
        using pragma_disk [OF y, of ?db] w2 same_net_trans [of w w2 w3] by (auto simp: same_net_def)
      obtain ok4 ls4 w4 where c: "ensure_schema (ls3, w3) = (ok4, ls4, w4)" by (metis prod_cases3)
      have w4: "same_net w w4" "ls_db ls4 = Some ?db"
        "w_disk w4 = (if ok4 \<and> ?d ?db = None then ?d(?db \<mapsto> empty_table) else ?d)"
        using schema_disk [OF c w3(3,4)] w3(1,2) same_net_trans [of w w3 w4] by auto
      show ?thesis
        using assms(1) False o SqlOk j y c w2 w3 w4 fails [of w2 ls2] fails [of w3 ls3] fails [of w4 ls4]
        by (auto simp: open_store_def Let_def c0 opened_disk_def split: if_splits bool.splits)
    qed
  qed
qed

lemma ran_opened_disk: "ran (opened_disk db d) \<subseteq> insert empty_table (ran d)"
  using ran_forget [of db d] by (auto simp: opened_disk_def ran_def forget_def split: if_splits)

lemma open_store_wf:
  assumes "open_store path s = (ok, s')" "store_wf s"
  shows "store_wf s'"
proof -
  obtain ls w ls' w' where s: "s = (ls, w)" "s' = (ls', w')" by fastforce
  have e: "same_net w w'" "if ok then ls_db ls' = Some (c_str path) \<and> w_disk w' = opened_disk (c_str path) (closed_disk s)
      else ls_db ls' = None \<and> (w_disk w' = closed_disk s \<or> w_disk w' = forget (c_str path) (closed_disk s))"
    using open_store_disk [of path ls w ok ls' w'] assms s by auto
  have "ran (w_disk w') \<subseteq> insert empty_table (ran (w_disk w))"
    using e(2) ran_closed_disk [of s] ran_forget [of "c_str path" "closed_disk s"]
      ran_opened_disk [of "c_str path" "closed_disk s"] s by (auto split: if_splits)
  moreover have "ok \<longrightarrow> w_disk w' (c_str path) \<noteq> None" using e(2) by (simp add: opened_disk_def)
  ultimately show ?thesis using e assms(2) s wf_empty_table by (auto simp: same_net_def split: if_splits)
qed

section \<open>The store is a persistent queue\<close>

definition peek_pairs :: "nat \<Rightarrow> store_state \<Rightarrow> (int \<times> stored_sample) list \<times> store_state" where
  \<comment> \<open>\<open>peek_batch\<close> with its rows as pairs\<close>
  "peek_pairs n s = (let (rows, s') = peek_batch n s in (map (\<lambda>r. (pr_id r, pr_sample r)) rows, s'))"

lemma put_table_rows:
  assumes "store_wf s" "put_table s t s'" "wf_table t" "ls_db (fst s) \<noteq> None \<or> t = store_table s"
  shows "store_wf s' \<and> store_rows s' = map (\<lambda>r. (pu_id r, sample_of_row r)) (tb_rows t)"
proof (cases "ls_db (fst s) = None")
  case True
  then show ?thesis using assms
    by (cases s; cases s') (auto simp: put_table_def same_net_def store_rows_def)
next
  case False
  with put_table_wf [OF assms(1-3)] show ?thesis by (simp add: store_rows_def)
qed

lemma put_table_keeps:
  "store_wf s \<Longrightarrow> put_table s (store_table s) s' \<Longrightarrow> store_wf s' \<and> store_rows s' = store_rows s"
  using put_table_rows [of s "store_table s" s'] wf_store_table [of s] by (simp add: store_rows_def)

lemma store_enqueue_rows:
  assumes "store_wf s" "store_enqueue x s = (ok, s')"
  shows "store_wf s' \<and>
    (if ok then ss_value x \<noteq> NaN \<and> (\<exists>i. (\<forall>j \<in> fst ` set (store_rows s). j < i) \<and>
                  tb_sequence (store_table s) < i \<and> store_rows s' = store_rows s @ [(i, saved_sample x)])
     else store_rows s' = store_rows s)"
proof (cases ok)
  case True
  then obtain i m where p: "tb_sequence (store_table s) < i" "ls_db (fst s) \<noteq> None" "ss_value x \<noteq> NaN"
      "put_table s (insert_row i (row_of_sample x m) (store_table s)) s'"
    using store_enqueue_table [OF assms] by auto
  have "\<forall>j \<in> fst ` set (store_rows s). j < i"
    using wf_store_table [OF assms(1)] p(1) by (fastforce simp: wf_table_def store_rows_def)
  moreover have "store_wf s' \<and> store_rows s' = store_rows s @ [(i, saved_sample x)]"
    using put_table_rows [OF assms(1) p(4) wf_insert_row [OF wf_store_table [OF assms(1)] p(1)]] p(2)
    by (simp add: store_rows_def insert_row_def sample_of_row_of_sample)
  ultimately show ?thesis using True p(1,3) by auto
next
  case False
  with store_enqueue_table [OF assms] put_table_keeps [OF assms(1)] show ?thesis by simp
qed

lemma acknowledge_rows:
  assumes "store_wf s" "acknowledge i s = (ok, s')"
  shows "store_wf s' \<and> store_rows s' =
           (if ok then filter (\<lambda>r. fst r \<noteq> i) (store_rows s) else store_rows s)"
proof (cases ok)
  case True
  have p: "put_table s (delete_row i (store_table s)) s'" "ls_db (fst s) \<noteq> None"
    using acknowledge_table [OF assms] True by simp_all
  from put_table_rows [OF assms(1) p(1) wf_delete_row [OF wf_store_table [OF assms(1)]]] p(2) True
  show ?thesis by (simp add: store_rows_def delete_row_def filter_map comp_def)
next
  case False
  with acknowledge_table [OF assms] put_table_keeps [OF assms(1)] show ?thesis by simp
qed

lemma peek_batch_rows:
  assumes "store_wf s" "peek_batch n s = (rows, s')"
  shows "store_wf s' \<and> store_rows s' = store_rows s \<and>
         (\<exists>k \<le> n. map (\<lambda>r. (pr_id r, pr_sample r)) rows = take k (store_rows s))"
  using peek_batch_table [OF assms] put_table_keeps [OF assms(1)]
  by (auto simp: store_rows_def take_map)

interpretation store: offline_queue store_enqueue peek_pairs acknowledge store_rows saved_sample store_wf
proof
  fix s :: store_state and x :: stored_sample and i :: int and n :: nat
  assume wf: "store_wf s"
  obtain ok s1 where e: "store_enqueue x s = (ok, s1)" by (metis surj_pair)
  obtain ok2 s2 where a: "acknowledge i s = (ok2, s2)" by (metis surj_pair)
  obtain rows s3 where p: "peek_batch n s = (rows, s3)" by (metis surj_pair)
  show "store_wf (snd (store_enqueue x s))" using store_enqueue_rows [OF wf e] e by simp
  show "fst (store_enqueue x s) \<Longrightarrow> \<exists>i. i \<notin> fst ` set (store_rows s) \<and>
          store_rows (snd (store_enqueue x s)) = store_rows s @ [(i, saved_sample x)]"
    using store_enqueue_rows [OF wf e] e by fastforce
  show "\<not> fst (store_enqueue x s) \<Longrightarrow> store_rows (snd (store_enqueue x s)) = store_rows s"
    using store_enqueue_rows [OF wf e] e by simp
  show "store_wf (snd (peek_pairs n s))" "store_rows (snd (peek_pairs n s)) = store_rows s"
    "\<exists>k\<le>n. fst (peek_pairs n s) = take k (store_rows s)"
    using peek_batch_rows [OF wf p] p by (simp_all add: peek_pairs_def)
  show "store_wf (snd (acknowledge i s))" using acknowledge_rows [OF wf a] a by simp
  show "fst (acknowledge i s) \<Longrightarrow>
          store_rows (snd (acknowledge i s)) = filter (\<lambda>r. fst r \<noteq> i) (store_rows s)"
    "\<not> fst (acknowledge i s) \<Longrightarrow> store_rows (snd (acknowledge i s)) = store_rows s"
    using acknowledge_rows [OF wf a] a by simp_all
qed

section \<open>An engine that does not fail\<close>

definition insert_works :: "sqlite \<Rightarrow> bool" where
  \<comment> \<open>disk space, locks and memory never get in the way of an insertion\<close>
  "insert_works e \<longleftrightarrow> (\<forall>n db r d. d db \<noteq> None \<longrightarrow> pu_value r \<noteq> NaN \<longrightarrow>
     fst (sq_run e n db insert_sql (insert_binds r) d) = Stepped [] None)"

lemma ref_insert_works: "insert_works (ref_sqlite (\<lambda>_. None))"
  by (auto simp: insert_works_def ref_sqlite_def ref_run_def bound_insert)

lemma store_enqueue_works:
  assumes "store_wf s" "ls_db (fst s) \<noteq> None" "insert_works (w_sqlite (snd s))" "ss_value x \<noteq> NaN"
  shows "fst (store_enqueue x s)"
proof -
  obtain ls w where s: "s = (ls, w)" by fastforce
  obtain db where db: "ls_db ls = Some db" using assms(2) s by auto
  obtain now w1 where now: "system_now w = (now, w1)" by fastforce
  let ?r = "row_of_sample x (time_to_unix_ms now)"
  have "w_disk w1 db \<noteq> None" "insert_works (w_sqlite w1)"
    using assms(1,3) s db system_now_frame [OF now] by simp_all
  moreover have "pu_value ?r \<noteq> NaN" using assms(4) by (simp add: row_of_sample_def)
  ultimately have "fst (sql_run db insert_sql (insert_binds ?r) w1) = Stepped [] None"
    by (simp add: insert_works_def sql_run_def case_prod_beta)
  then show ?thesis using s db now by (auto simp: store_enqueue_def split: prod.splits)
qed

lemma put_table_file: "put_table s t s' \<Longrightarrow> same_file s s'"
  by (simp add: put_table_def)

lemma store_enqueue_file: "store_wf s \<Longrightarrow> same_file s (snd (store_enqueue x s))"
  using store_enqueue_table [OF _ prod.collapse [symmetric], of s x] by (meson put_table_file)

lemma acknowledge_file: "store_wf s \<Longrightarrow> same_file s (snd (acknowledge i s))"
  using acknowledge_table [OF _ prod.collapse [symmetric], of s i] by (meson put_table_file)

lemma peek_batch_file: "store_wf s \<Longrightarrow> same_file s (snd (peek_batch n s))"
  using peek_batch_table [OF _ prod.collapse [symmetric], of s n] by (meson put_table_file)

lemma pending_count_file: "store_wf s \<Longrightarrow> same_file s (snd (pending_count s))"
  using pending_count_table [OF _ prod.collapse [symmetric], of s] by (meson put_table_file)

lemma same_file_refl [simp]: "same_file s s"
  by (simp add: same_file_def)

lemma enqueue_all_file: "store_wf s \<Longrightarrow> same_file s (snd (put_all store_enqueue xs s))"
  by (rule store.put_all_related [where R = same_file]) (assumption, erule store_enqueue_file, rule same_file_refl, erule same_file_trans)

lemma acknowledge_all_file: "store_wf s \<Longrightarrow> same_file s (ack_all acknowledge ids s)"
  by (rule store.ack_all_related [where R = same_file]) (assumption, erule acknowledge_file, rule same_file_refl, erule same_file_trans)




section \<open>Runs of a store\<close>

inductive store_step :: "store_state \<Rightarrow> store_state \<Rightarrow> bool" where
  step_open: "open_store path s = (ok, s') \<Longrightarrow> store_step s s'"
| step_close: "store_step s (close_store s)"
| step_enqueue: "store_enqueue x s = (ok, s') \<Longrightarrow> store_step s s'"
| step_peek: "peek_batch n s = (rows, s') \<Longrightarrow> store_step s s'"
| step_acknowledge: "acknowledge i s = (ok, s') \<Longrightarrow> store_step s s'"
| step_count: "pending_count s = (n, s') \<Longrightarrow> store_step s s'"

definition table_ids :: "sql_table \<Rightarrow> int set" where
  "table_ids t = pu_id ` set (tb_rows t)"

definition grows_to :: "sql_table \<Rightarrow> sql_table \<Rightarrow> bool" where
  \<comment> \<open>the counter did not go back, and every new row has an identifier beyond the old counter\<close>
  "grows_to t t' \<longleftrightarrow> tb_sequence t \<le> tb_sequence t' \<and>
     table_ids t' \<subseteq> table_ids t \<union> {i. tb_sequence t < i}"

lemma grows_refl [simp]: "grows_to t t"
  by (simp add: grows_to_def)

lemma grows_trans: "grows_to t t' \<Longrightarrow> grows_to t' t'' \<Longrightarrow> grows_to t t''"
  by (force simp: grows_to_def)

lemma grows_insert: "tb_sequence t < i \<Longrightarrow> grows_to t (insert_row i r t)"
  by (auto simp: grows_to_def insert_row_def table_ids_def)

lemma grows_delete: "grows_to t (delete_row i t)"
  by (auto simp: grows_to_def delete_row_def table_ids_def)

definition disk_grows :: "store_state \<Rightarrow> store_state \<Rightarrow> bool" where
  \<comment> \<open>of the databases that are files\<close>
  "disk_grows s s' \<longleftrightarrow>
     (\<forall>db t. durable_name db \<and> w_disk (snd s) db = Some t \<longrightarrow> (\<exists>t'. w_disk (snd s') db = Some t' \<and> grows_to t t'))"

lemma disk_grows_refl: "w_disk (snd s') = w_disk (snd s) \<Longrightarrow> disk_grows s s'"
  by (simp add: disk_grows_def)

lemma put_table_grows:
  assumes "store_wf s" "put_table s t s'" "grows_to (store_table s) t"
  shows "disk_grows s s'"
  using assms by (cases s) (auto simp: disk_grows_def put_table_def split: option.splits)

lemma close_store_wf:
  assumes "store_wf s"
  shows "store_wf (close_store s) \<and> w_disk (snd (close_store s)) = closed_disk s \<and> ls_db (fst (close_store s)) = None"
  using assms close_store_effect [of "snd s" "fst s"] ran_closed_disk [of s]
  by (cases s; cases "close_store s") (auto simp: same_net_def)

lemma store_step_grows:
  assumes "store_step s s'" "store_wf s"
  shows "store_wf s' \<and> disk_grows s s'"
  using assms(1)
proof cases
  case (step_open path ok)
  obtain ls w ls' w' where s: "s = (ls, w)" "s' = (ls', w')" by (metis surj_pair)
  have "\<forall>db t. durable_name db \<and> w_disk w db = Some t \<longrightarrow> w_disk w' db = Some t"
    using open_store_disk [of path ls w ok ls' w'] step_open s assms(2)
    by (auto simp: opened_disk_def split: if_splits)
  then have "disk_grows s s'" using s by (auto simp: disk_grows_def)
  with open_store_wf [OF step_open assms(2)] show ?thesis by simp
next
  case step_close
  then show ?thesis using close_store_wf [OF assms(2)] by (simp add: disk_grows_def)
next
  case (step_enqueue x ok)
  have "\<exists>t. put_table s t s' \<and> grows_to (store_table s) t"
    using store_enqueue_table [OF assms(2) step_enqueue]
    by (meson grows_insert grows_refl)
  then have "disk_grows s s'" using put_table_grows [OF assms(2)] by blast
  with store_enqueue_rows [OF assms(2) step_enqueue] show ?thesis by simp
next
  case (step_peek n rows)
  have "disk_grows s s'"
    using peek_batch_table [OF assms(2) step_peek] put_table_grows [OF assms(2) _ grows_refl] by blast
  with peek_batch_rows [OF assms(2) step_peek] show ?thesis by blast
next
  case (step_acknowledge i ok)
  have "disk_grows s s'"
    using acknowledge_table [OF assms(2) step_acknowledge] put_table_grows [OF assms(2)]
    by (metis grows_delete grows_refl)
  with acknowledge_rows [OF assms(2) step_acknowledge] show ?thesis by blast
next
  case (step_count n)
  then have "put_table s (store_table s) s'" using pending_count_table [OF assms(2)] by blast
  then show ?thesis using put_table_grows [OF assms(2) _ grows_refl] put_table_keeps [OF assms(2)] by blast
qed

lemma store_steps_grow:
  assumes "store_step\<^sup>*\<^sup>* s s'" "store_wf s"
  shows "store_wf s' \<and> disk_grows s s'"
  using assms
proof (induction rule: rtranclp_induct)
  case base
  then show ?case by (simp add: disk_grows_refl)
next
  case (step y z)
  then have y: "store_wf y" "disk_grows s y" by simp_all
  from store_step_grows [OF step.hyps(2) y(1)] y(2) show ?case
    by (auto simp: disk_grows_def) (meson grows_trans)
qed

section \<open>Properties of the store\<close>

definition ex_file :: string where
  "ex_file = ''/var/lib/bossa/queue.db''"

definition ex_store :: store_state where
  \<comment> \<open>a store opened on a new file in \<open>ex_world\<close>\<close>
  "ex_store = snd (open_store ex_file (local_store_new, ex_world))"

definition ex_reading :: stored_sample where
  "ex_reading = (ex_sample ''lab/temperature'' KCritical 21.5)\<lparr>ss_timestamp := 1700000000123456789\<rparr>"

lemma ex_world_wf: "store_wf (local_store_new, ex_world)"
  by (simp add: local_store_new_def) (simp add: ex_world_def)

lemma ex_store_wf: "store_wf ex_store"
  using open_store_wf [OF prod.collapse [symmetric] ex_world_wf, of ex_file] by (simp add: ex_store_def)

text \<open>
  C18: A sample the store accepts is read back as it went in. Whatever \<open>peek_batch\<close> reads after a successful
  \<open>enqueue\<close>, if the reading got as far as the new row, is the rows from before and then one row, with an
  identifier above all of theirs, whose decoded sample has the same channel id, unit, value, quality and
  priority, and the timestamp cut to whole milliseconds.
\<close>

theorem store_enqueue_roundtrip:
  assumes "store_wf s" "wf_stored x" "store_enqueue x s = (True, s1)"
    and "peek_batch n s1 = (rows, s2)" "length (store_rows s) < length rows"
  shows "\<exists>earlier row. rows = earlier @ [row] \<and>
           map (\<lambda>r. (pr_id r, pr_sample r)) earlier = store_rows s \<and> (\<forall>r \<in> set earlier. pr_id r < pr_id row) \<and>
           c_str (ss_channel_id (pr_sample row)) = c_str (ss_channel_id x) \<and>
           c_str (ss_unit (pr_sample row)) = c_str (ss_unit x) \<and>
           ss_value (pr_sample row) = ss_value x \<and> ss_quality (pr_sample row) = ss_quality x \<and>
           ss_priority (pr_sample row) = ss_priority x \<and>
           \<bar>ss_timestamp x - ss_timestamp (pr_sample row)\<bar> < 1000000"
proof -
  let ?pair = "\<lambda>r. (pr_id r, pr_sample r)"
  obtain i where i: "store_rows s1 = store_rows s @ [(i, saved_sample x)]" "\<forall>j \<in> fst ` set (store_rows s). j < i"
      and wf: "store_wf s1"
    using store_enqueue_rows [OF assms(1,3)] by auto
  obtain k where k: "map ?pair rows = take k (store_rows s1)" using peek_batch_rows [OF wf assms(4)] by blast
  then have "length rows = min k (length (store_rows s1))" by (metis length_map length_take min.commute)
  then have all: "map ?pair rows = store_rows s @ [(i, saved_sample x)]" using k i(1) assms(5) by simp
  then obtain earlier row where r: "rows = earlier @ [row]" "map ?pair earlier = store_rows s"
      "pr_id row = i" "pr_sample row = saved_sample x"
    by (cases rows rule: rev_exhaust) auto
  have "pr_id ` set earlier = fst ` set (store_rows s)" by (simp add: r(2) [symmetric] image_image)
  then have "\<forall>r \<in> set earlier. pr_id r < pr_id row" using i(2) r(3) by blast
  then show ?thesis using r saved_sample_texts [OF assms(2)] time_roundtrip [of "ss_timestamp x"] by auto
qed

theorem store_enqueue_roundtrip_witness:
  "\<exists>earlier row. fst (peek_batch 5 (snd (store_enqueue ex_reading ex_store))) = earlier @ [row] \<and>
     ss_value (pr_sample row) = Fin 21.5 \<and> ss_priority (pr_sample row) = KCritical"
proof -
  let ?s1 = "snd (store_enqueue ex_reading ex_store)"
  have "fst (store_enqueue ex_reading ex_store)" by code_simp
  then have e: "store_enqueue ex_reading ex_store = (True, ?s1)" by (simp add: prod_eq_iff)
  have x: "wf_stored ex_reading" "ss_value ex_reading = Fin 21.5" "ss_priority ex_reading = KCritical" by code_simp+
  have l: "length (store_rows ex_store) < length (fst (peek_batch 5 ?s1))" by code_simp
  from store_enqueue_roundtrip [OF ex_store_wf x(1) e prod.collapse [symmetric] l] x(2,3) show ?thesis by metis
qed

text \<open>
  A sample whose value is not a number cannot be stored: the column is \<open>NOT NULL\<close> and SQLite
  binds \<open>NaN\<close> as \<open>NULL\<close>, so \<open>enqueue\<close> returns \<open>false\<close> and the queue keeps what it had.
\<close>

theorem store_refuses_nan:
  assumes "store_wf s" "ss_value x = NaN"
  shows "\<not> fst (store_enqueue x s) \<and> store_rows (snd (store_enqueue x s)) = store_rows s"
proof -
  obtain ok s' where e: "store_enqueue x s = (ok, s')" by (metis surj_pair)
  with store_enqueue_rows [OF assms(1) e] assms(2) show ?thesis by (auto split: if_splits)
qed

theorem store_refuses_nan_witness:
  "\<not> fst (store_enqueue (ex_reading\<lparr>ss_value := NaN\<rparr>) ex_store)"
  using store_refuses_nan [OF ex_store_wf, of "ex_reading\<lparr>ss_value := NaN\<rparr>"] by simp




text \<open>
  C20: Row identifiers are never reused: once an identifier was given out and its row is gone, no run
  of openings, closings, insertions, readings and acknowledgements, with any failures, brings it
  back in a database that is a file, so a late \<open>acknowledge\<close> can never delete another sample's row. SQLite
  promises this for a table declared \<open>AUTOINCREMENT\<close>, as the program's is, and for no other.
\<close>

theorem store_ids_never_reused:
  assumes "store_step\<^sup>*\<^sup>* s s'" "store_wf s" "durable_name db" "w_disk (snd s) db = Some t"
    and "i \<le> tb_sequence t" "i \<notin> table_ids t"
  shows "\<exists>t'. w_disk (snd s') db = Some t' \<and> i \<le> tb_sequence t' \<and> i \<notin> table_ids t'"
  using store_steps_grow [OF assms(1,2)] assms(3-6)
  by (force simp: disk_grows_def grows_to_def)

theorem store_ids_never_reused_witness:
  "let s0 = snd (store_enqueue ex_reading ex_store);
       s1 = snd (acknowledge 1 s0);
       s2 = snd (store_enqueue ex_reading s1)
   in \<exists>t. w_disk (snd s2) ex_file = Some t \<and> 1 \<notin> table_ids t"
proof -
  define s0 where "s0 = snd (store_enqueue ex_reading ex_store)"
  define s1 where "s1 = snd (acknowledge 1 s0)"
  define s2 where "s2 = snd (store_enqueue ex_reading s1)"
  have wf: "store_wf s0" "store_wf s1"
    using store.put_invar [OF ex_store_wf, of ex_reading] store.ack_invar [of s0 1]
    by (simp_all add: s0_def s1_def)
  have steps: "store_step\<^sup>*\<^sup>* s1 s2"
    by (metis r_into_rtranclp s2_def step_enqueue surj_pair snd_conv)
  have "map_option (\<lambda>t. (map pu_id (tb_rows t), tb_sequence t))
          (w_disk (snd (snd (acknowledge 1 (snd (store_enqueue ex_reading ex_store))))) ex_file) = Some ([], 1)"
    by code_simp
  then obtain t where "w_disk (snd s1) ex_file = Some t" "tb_rows t = []" "tb_sequence t = 1"
    by (auto simp: s1_def s0_def)
  moreover have "durable_name ex_file" by code_simp
  ultimately show ?thesis using store_ids_never_reused [OF steps wf(2)] unfolding s0_def [symmetric]
      s1_def [symmetric] s2_def [symmetric] Let_def by (fastforce simp: table_ids_def)
qed

text \<open>
  C21: The laws the uploader relies on hold of the store, for any engine that keeps SQLite's laws and
  any failures: \<open>peek_batch\<close> returns a prefix of the queue, oldest first and no longer than asked,
  and changes nothing, and \<open>acknowledge\<close> removes exactly the row it names, or nothing when it fails.
\<close>

theorem store_peek_acknowledge:
  assumes "store_wf s"
  shows "(\<exists>k \<le> n. map (\<lambda>r. (pr_id r, pr_sample r)) (fst (peek_batch n s)) = take k (store_rows s)) \<and>
         store_rows (snd (peek_batch n s)) = store_rows s \<and>
         store_rows (snd (acknowledge i s)) =
           (if fst (acknowledge i s) then filter (\<lambda>r. fst r \<noteq> i) (store_rows s) else store_rows s)"
  using peek_batch_rows [OF assms prod.collapse [symmetric]]
    acknowledge_rows [OF assms prod.collapse [symmetric]] by blast

theorem store_peek_acknowledge_witness:
  "store_rows (snd (peek_batch 5 ex_store)) = store_rows ex_store"
  using store_peek_acknowledge [OF ex_store_wf] by simp

end
