(* ===== verification/TimeFormat.thy ===== *)
theory TimeFormat
  imports Prelude
begin

text \<open>
  The timestamps of the upload payload, \<open>format_time\<close> of \<open>src/sync/http_uploader.cpp\<close>: the
  calendar date \<open>gmtime_r\<close> computes in the proleptic Gregorian calendar, and its rendering by
  \<open>put_time\<close>. Reading the text back gives the second it came from.
\<close>

section \<open>The calendar\<close>

definition leap_year :: "int \<Rightarrow> bool" where
  "leap_year y \<longleftrightarrow> 4 dvd y \<and> (\<not> 100 dvd y \<or> 400 dvd y)"

definition year_length :: "int \<Rightarrow> int" where
  "year_length y = (if leap_year y then 366 else 365)"

definition month_lengths :: "int \<Rightarrow> int list" where
  "month_lengths y = [31, if leap_year y then 29 else 28, 31, 30, 31, 30, 31, 31, 30, 31, 30, 31]"

lemma year_length_pos [simp]: "0 < year_length y"
  by (simp add: year_length_def)

function year_up :: "int \<Rightarrow> int \<Rightarrow> int \<times> int" where
  "year_up y d = (if year_length y \<le> d then year_up (y + 1) (d - year_length y) else (y, d))"
  by pat_completeness auto
termination
  by (relation "measure (\<lambda>(y, d). nat d)") (auto simp: year_length_def split: if_splits)

function year_down :: "int \<Rightarrow> int \<Rightarrow> int \<times> int" where
  "year_down y d = (if d < 0 then year_down (y - 1) (d + year_length (y - 1)) else (y, d))"
  by pat_completeness auto
termination
  by (relation "measure (\<lambda>(y, d). nat (- d))") auto

declare year_up.simps [simp del] year_down.simps [simp del]

fun month_of :: "int list \<Rightarrow> int \<Rightarrow> int \<Rightarrow> int \<times> int" where
  "month_of [] m d = (m, d)"
| "month_of (len # lens) m d = (if d < len then (m, d) else month_of lens (m + 1) (d - len))"

record tm =
  tm_year :: int
  tm_mon :: int
  tm_mday :: int
  tm_hour :: int
  tm_min :: int
  tm_sec :: int

definition gmtime :: "int \<Rightarrow> tm" where
  "gmtime time =
     (let d = time div 86400; s = time mod 86400;
          (y, yd) = (if 0 \<le> d then year_up 1970 d else year_down 1970 d);
          (m, md) = month_of (month_lengths y) 1 yd
      in \<lparr>tm_year = y, tm_mon = m, tm_mday = md + 1,
          tm_hour = s div 3600, tm_min = s mod 3600 div 60, tm_sec = s mod 60\<rparr>)"

section \<open>The text\<close>

definition digit :: "int \<Rightarrow> char" where
  "digit n = char_of (48 + nat n)"

definition pad2 :: "int \<Rightarrow> string" where
  "pad2 n = [digit (n div 10), digit (n mod 10)]"

definition pad4 :: "int \<Rightarrow> string" where
  "pad4 n = pad2 (n div 100) @ pad2 (n mod 100)"

definition put_time :: "tm \<Rightarrow> string" where
  \<comment> \<open>format \<open>%Y-%m-%dT%H:%M:%SZ\<close>, for the years 0 to 9999\<close>
  "put_time t = pad4 (tm_year t) @ ''-'' @ pad2 (tm_mon t) @ ''-'' @ pad2 (tm_mday t) @ ''T'' @
                pad2 (tm_hour t) @ '':'' @ pad2 (tm_min t) @ '':'' @ pad2 (tm_sec t) @ ''Z''"

definition to_time_t :: "int \<Rightarrow> int" where
  \<comment> \<open>\<open>system_clock::to_time_t\<close>: nanoseconds to seconds, towards zero\<close>
  "to_time_t timestamp = c_div timestamp 1000000000"

definition format_time :: "int \<Rightarrow> string" where
  "format_time timestamp = put_time (gmtime (to_time_t timestamp))"

section \<open>Reading the text back\<close>

definition days_before :: "int \<Rightarrow> int" where
  \<comment> \<open>days from the epoch to the first day of the year\<close>
  "days_before y = 365 * y + ((y - 1) div 4 - (y - 1) div 100 + (y - 1) div 400) - 719527"

definition undigit :: "char \<Rightarrow> int" where
  "undigit c = int (of_char c) - 48"

definition read2 :: "string \<Rightarrow> int" where
  "read2 s = undigit (s ! 0) * 10 + undigit (s ! 1)"

definition parse_time :: "string \<Rightarrow> int" where
  "parse_time s =
     (let y = read2 s * 100 + read2 (drop 2 s); m = read2 (drop 5 s); d = read2 (drop 8 s)
      in (days_before y + sum_list (take (nat (m - 1)) (month_lengths y)) + d - 1) * 86400 +
         read2 (drop 11 s) * 3600 + read2 (drop 14 s) * 60 + read2 (drop 17 s))"

lemma div_bounds:
  assumes "0 < (k :: int)"
  shows "x div k * k \<le> x" "x < x div k * k + k" "x = x div k * k + x mod k"
  using minus_mod_eq_div_mult [of x k] pos_mod_sign [OF assms, of x] pos_mod_bound [OF assms, of x]
  by simp_all

lemma div_step:
  assumes k: "0 < (k :: int)"
  shows "y div k - (y - 1) div k = (if k dvd y then 1 else 0)"
proof (cases "k dvd y")
  case True
  then obtain q where y: "y = k * q" by (rule dvdE)
  have "(k * q - 1) div k = q - 1"
    by (rule int_div_pos_eq [where r = "k - 1"]) (use k in \<open>simp_all add: right_diff_distrib\<close>)
  with k y show ?thesis by simp
next
  case False
  have r: "0 < y mod k" using k False pos_mod_sign [of k y] by (auto simp: dvd_eq_mod_eq_0 order_less_le)
  have "y - 1 = k * (y div k) + (y mod k - 1)" using mult_div_mod_eq [of k y] by linarith
  moreover have "y mod k - 1 < k" using pos_mod_bound [OF k, of y] by linarith
  ultimately have "(y - 1) div k = y div k"
    using r by (intro int_div_pos_eq [where r = "y mod k - 1"]) (assumption, simp, assumption)
  with False show ?thesis by simp
qed

lemma days_before_Suc: "days_before (y + 1) = days_before y + year_length y"
proof -
  have n: "(100 :: int) dvd 400" "(4 :: int) dvd 100" by simp_all
  have d: "400 dvd y \<Longrightarrow> 100 dvd y" "100 dvd y \<Longrightarrow> 4 dvd y"
    by (rule dvd_trans [OF n(1)], assumption) (rule dvd_trans [OF n(2)], assumption)
  have leaps: "(if P then 1 else 0) - (if Q then 1 else 0) + (if R then 1 else 0)
                 = (if P \<and> (\<not> Q \<or> R) then 366 else 365) - (365 :: int)"
    if "R \<Longrightarrow> Q" "Q \<Longrightarrow> P" for P Q R using that by (cases P; cases Q; cases R) simp_all
  have l: "(if 4 dvd y then 1 else 0) - (if 100 dvd y then 1 else 0) + (if 400 dvd y then 1 else (0::int))
             = year_length y - 365"
    unfolding year_length_def leap_year_def by (rule leaps [OF d])
  have sum: "365 * (y + 1) + (a' - b' + c') - n = 365 * y + (a - b + c) - n + len"
    if "a' - a = p" "b' - b = q" "c' - c = r" "p - q + r = len - 365" for a a' b b' c c' n p q r len :: int
    using that by simp
  show ?thesis unfolding days_before_def add_diff_cancel_right'
    by (rule sum [OF div_step div_step div_step l]) (rule zero_less_numeral)+
qed

lemma year_up_correct:
  "0 \<le> d \<Longrightarrow> year_up y d = (y', d') \<Longrightarrow>
   days_before y + d = days_before y' + d' \<and> 0 \<le> d' \<and> d' < year_length y' \<and> y \<le> y'"
proof (induction y d rule: year_up.induct)
  case (1 y d)
  then show ?case using days_before_Suc [of y]
    by (cases "year_length y \<le> d") (auto simp: year_up.simps [of y d])
qed

lemma year_down_correct:
  "d < year_length y \<Longrightarrow> year_down y d = (y', d') \<Longrightarrow>
   days_before y + d = days_before y' + d' \<and> 0 \<le> d' \<and> d' < year_length y' \<and> y' \<le> y"
proof (induction y d rule: year_down.induct)
  case (1 y d)
  then show ?case using days_before_Suc [of "y - 1"]
    by (cases "d < 0") (fastforce simp: year_down.simps [of y d])+
qed

lemma month_of_correct:
  "0 \<le> d \<Longrightarrow> d < sum_list lens \<Longrightarrow> month_of lens m d = (m', d') \<Longrightarrow>
   \<exists>k < length lens. m' = m + int k \<and> d = sum_list (take k lens) + d' \<and> 0 \<le> d' \<and> d' < lens ! k"
proof (induction lens m d arbitrary: rule: month_of.induct)
  case (1 m d)
  then show ?case by simp
next
  case (2 len lens m d)
  show ?case
  proof (cases "d < len")
    case True
    then show ?thesis using 2 by (intro exI [of _ 0]) auto
  next
    case False
    then obtain k where "k < length lens" "m' = m + 1 + int k"
        "d - len = sum_list (take k lens) + d'" "0 \<le> d'" "d' < lens ! k"
      using 2 by auto
    then show ?thesis by (intro exI [of _ "Suc k"]) auto
  qed
qed

lemma sum_month_lengths: "sum_list (month_lengths y) = year_length y"
  by (simp add: month_lengths_def year_length_def)

lemma month_length_bound: "k < 12 \<Longrightarrow> month_lengths y ! k \<le> 31"
  by (auto simp: month_lengths_def less_Suc_eq numeral_eq_Suc)

lemma length_month_lengths [simp]: "length (month_lengths y) = 12"
  by (simp add: month_lengths_def)

lemma undigit_digit: "0 \<le> n \<Longrightarrow> n < 10 \<Longrightarrow> undigit (digit n) = n"
  by (simp add: undigit_def digit_def of_char_of take_bit_eq_mod)

lemma read2_pad2: "0 \<le> n \<Longrightarrow> n < 100 \<Longrightarrow> read2 (pad2 n @ s) = n"
  by (simp add: read2_def pad2_def undigit_digit)

lemma length_pad2 [simp]: "length (pad2 n) = 2"
  by (simp add: pad2_def)

lemma drop_pad2 [simp]: "2 \<le> k \<Longrightarrow> drop k (pad2 n @ s) = drop (k - 2) s"
  by simp

lemma mult_less_bound: "q * k \<le> x \<Longrightarrow> x < n \<Longrightarrow> n = b * k \<Longrightarrow> 0 < k \<Longrightarrow> q < (b :: int)"
  by (meson less_le_trans linorder_not_less mult_le_cancel_right_pos nle_le order_le_less_trans)

lemma clock_split:
  assumes "0 \<le> s" "s < (86400 :: int)"
  obtains h m where "s div 3600 = h" "s mod 3600 div 60 = m" "s = h * 3600 + m * 60 + s mod 60"
    "0 \<le> h" "h < 24" "0 \<le> m" "m < 60" "0 \<le> s mod 60" "s mod 60 < 60"
proof
  have m: "s mod 3600 mod 60 = s mod 60" by (simp add: mod_mod_cancel)
  have split: "s = s div 3600 * 3600 + s mod 3600" "s mod 3600 = s mod 3600 div 60 * 60 + s mod 3600 mod 60"
    using div_bounds(3) zero_less_numeral by blast+
  show "s = s div 3600 * 3600 + s mod 3600 div 60 * 60 + s mod 60"
    using split unfolding m by (metis add.assoc)
  show "0 \<le> s div 3600" "0 \<le> s mod 3600 div 60" "0 \<le> s mod 60" "s mod 60 < 60"
    using assms by simp_all
  show "s div 3600 < 24"
    using div_bounds(1) [OF zero_less_numeral, of s] assms(2) by (rule mult_less_bound) simp_all
  show "s mod 3600 div 60 < 60"
    using div_bounds(1) [OF zero_less_numeral, of "s mod 3600"] pos_mod_bound [OF zero_less_numeral]
    by (rule mult_less_bound) simp_all
qed (rule refl)+

lemma gmtime_correct:
  assumes "gmtime time = t"
  shows "\<exists>yd k. time = (days_before (tm_year t) + yd) * 86400 + tm_hour t * 3600 + tm_min t * 60 + tm_sec t \<and>
           0 \<le> yd \<and> yd < year_length (tm_year t) \<and> k < 12 \<and> tm_mon t = 1 + int k \<and>
           yd = sum_list (take k (month_lengths (tm_year t))) + tm_mday t - 1 \<and>
           1 \<le> tm_mday t \<and> tm_mday t \<le> 31 \<and> 0 \<le> tm_hour t \<and> tm_hour t < 24 \<and>
           0 \<le> tm_min t \<and> tm_min t < 60 \<and> 0 \<le> tm_sec t \<and> tm_sec t < 60"
proof -
  define d s where "d = time div 86400" and "s = time mod 86400"
  have time: "time = d * 86400 + s" unfolding d_def s_def using div_bounds(3) zero_less_numeral by blast
  obtain y yd where y: "(if 0 \<le> d then year_up 1970 d else year_down 1970 d) = (y, yd)" by fastforce
  have "days_before 1970 = 0" by (simp add: days_before_def)
  moreover have "d < 0 \<Longrightarrow> d < year_length 1970" using year_length_pos [of 1970] by linarith
  ultimately have yd: "d = days_before y + yd" "0 \<le> yd" "yd < year_length y"
    using y year_up_correct [of d 1970 y yd] year_down_correct [of d 1970 y yd] by (auto split: if_splits)
  obtain m md where m: "month_of (month_lengths y) 1 yd = (m, md)" by fastforce
  then obtain k where k: "k < 12" "m = 1 + int k" "yd = sum_list (take k (month_lengths y)) + md" "0 \<le> md"
      "md < month_lengths y ! k"
    using month_of_correct [of yd "month_lengths y" 1 m md] yd sum_month_lengths by auto
  have "0 \<le> s" "s < 86400" by (simp_all add: s_def)
  then obtain h mi where h: "s div 3600 = h" "s mod 3600 div 60 = mi" "s = h * 3600 + mi * 60 + s mod 60"
    "0 \<le> h" "h < 24" "0 \<le> mi" "mi < 60" "0 \<le> s mod 60" "s mod 60 < 60" by (rule clock_split)
  obtain sec where sec: "s mod 60 = sec" by simp
  have t: "t = \<lparr>tm_year = y, tm_mon = m, tm_mday = md + 1, tm_hour = h, tm_min = mi, tm_sec = sec\<rparr>"
    using assms y m h(1,2) sec by (simp add: gmtime_def Let_def d_def [symmetric] s_def [symmetric])
  show ?thesis unfolding t time
    using yd k h(3-) [unfolded sec] month_length_bound [of k y]
    by (intro exI [of _ yd] exI [of _ k]) simp
qed

lemma year_window:
  fixes y :: int
  assumes "365 * y + e - 719527 + yd = d" "97 * y - 1000 \<le> 400 * e" "400 * e \<le> 97 * y + 400"
    and "0 \<le> yd" "yd < 367" "-106752 \<le> d" "d \<le> 106752"
  shows "1600 \<le> y \<and> y < 2300"
proof -
  have "146097 * y \<le> 330512600" using assms(1,2,4,7) by linarith
  moreover have "244963000 \<le> 146097 * y" using assms(1,3,5,6) by linarith
  ultimately show ?thesis by simp
qed

lemma leap_days_window:
  fixes y :: int
  assumes "a * 4 \<le> y - 1" "y - 1 < a * 4 + 4" "b * 100 \<le> y - 1" "y - 1 < b * 100 + 100"
    and "c * 400 \<le> y - 1" "y - 1 < c * 400 + 400"
  shows "97 * y - 1000 \<le> 400 * (a - b + c) \<and> 400 * (a - b + c) \<le> 97 * y + 400"
proof -
  have "400 * a - 400 * b + 400 * c \<le> 97 * y + 400" using assms(1,4,5) by linarith
  moreover have "97 * y - 1000 \<le> 400 * a - 400 * b + 400 * c" using assms(2,3,6) by linarith
  ultimately show ?thesis by simp
qed

lemma year_bounds:
  assumes "days_before y + yd = d" "0 \<le> yd" "yd < year_length y" "-106752 \<le> d" "d \<le> 106752"
  shows "1600 \<le> y \<and> y < 2300"
proof -
  have "yd < 367" using assms(3) by (simp add: year_length_def split: if_splits)
  moreover have "97 * y - 1000 \<le> 400 * ((y - 1) div 4 - (y - 1) div 100 + (y - 1) div 400) \<and>
      400 * ((y - 1) div 4 - (y - 1) div 100 + (y - 1) div 400) \<le> 97 * y + 400"
    by (rule leap_days_window) (rule div_bounds, rule zero_less_numeral)+
  ultimately show ?thesis using year_window [OF assms(1) [unfolded days_before_def] _ _ assms(2)] assms(4,5)
    by blast
qed

lemma parse_put_time:
  assumes "0 \<le> tm_year t" "tm_year t < 10000" "1 \<le> tm_mon t" "tm_mon t \<le> 12" "1 \<le> tm_mday t" "tm_mday t \<le> 31"
    and "0 \<le> tm_hour t" "tm_hour t < 24" "0 \<le> tm_min t" "tm_min t < 60" "0 \<le> tm_sec t" "tm_sec t < 60"
  shows "parse_time (put_time t) =
           (days_before (tm_year t) + sum_list (take (nat (tm_mon t - 1)) (month_lengths (tm_year t)))
              + tm_mday t - 1) * 86400 + tm_hour t * 3600 + tm_min t * 60 + tm_sec t"
proof -
  have y: "tm_year t div 100 * 100 + tm_year t mod 100 = tm_year t" "0 \<le> tm_year t div 100"
    "tm_year t div 100 < 100" using assms(1,2) by simp_all
  show ?thesis using assms y
    by (simp add: parse_time_def put_time_def pad4_def read2_pad2 Let_def)
qed

lemma to_time_t_bounds:
  assumes "\<bar>timestamp\<bar> \<le> 2 ^ 63"
  shows "-106752 \<le> to_time_t timestamp div 86400" "to_time_t timestamp div 86400 \<le> 106752"
proof -
  have b: "\<bar>timestamp - to_time_t timestamp * 1000000000\<bar> < 1000000000"
    using c_div_mult_bounds [of 1000000000 timestamp] by (simp add: to_time_t_def)
  have "\<bar>timestamp\<bar> \<le> 9223372036854775808" using assms by simp
  with b have "-9223372038 \<le> to_time_t timestamp" "to_time_t timestamp \<le> 9223372038" by linarith+
  then show "-106752 \<le> to_time_t timestamp div 86400" "to_time_t timestamp div 86400 \<le> 106752"
    using div_bounds(1,2) [of 86400 "to_time_t timestamp", OF zero_less_numeral] by linarith+
qed

lemma parse_format_time:
  assumes "\<bar>timestamp\<bar> \<le> 2 ^ 63"
  shows "parse_time (format_time timestamp) = to_time_t timestamp"
proof -
  let ?t = "gmtime (to_time_t timestamp)"
  obtain yd k where g: "to_time_t timestamp =
        (days_before (tm_year ?t) + yd) * 86400 + tm_hour ?t * 3600 + tm_min ?t * 60 + tm_sec ?t"
      "0 \<le> yd" "yd < year_length (tm_year ?t)" "k < 12" "tm_mon ?t = 1 + int k"
      "yd = sum_list (take k (month_lengths (tm_year ?t))) + tm_mday ?t - 1"
      "1 \<le> tm_mday ?t" "tm_mday ?t \<le> 31" "0 \<le> tm_hour ?t" "tm_hour ?t < 24"
      "0 \<le> tm_min ?t" "tm_min ?t < 60" "0 \<le> tm_sec ?t" "tm_sec ?t < 60"
    using gmtime_correct [of "to_time_t timestamp", OF refl] by blast
  have "days_before (tm_year ?t) + yd = to_time_t timestamp div 86400"
  proof -
    have "0 \<le> tm_hour ?t * 3600 + tm_min ?t * 60 + tm_sec ?t"
      "tm_hour ?t * 3600 + tm_min ?t * 60 + tm_sec ?t < 86400" using g by linarith+
    then show ?thesis using g(1)
      by (intro int_div_pos_eq [symmetric, where r = "tm_hour ?t * 3600 + tm_min ?t * 60 + tm_sec ?t"]) auto
  qed
  then have "1600 \<le> tm_year ?t \<and> tm_year ?t < 2300"
    using year_bounds [OF _ g(2,3)] to_time_t_bounds [OF assms] by blast
  then show ?thesis using g parse_put_time [of ?t] by (simp add: format_time_def)
qed

section \<open>Property\<close>

text \<open>
  C24: Upload timestamps carry the second of the sample and nothing finer: for every 64-bit
  nanosecond time the text is the calendar date of that second, which reading it back recovers, so
  two samples get the same timestamp exactly when they fall into the same second.
\<close>

theorem format_time_seconds:
  assumes "\<bar>t\<bar> \<le> 2 ^ 63" "\<bar>u\<bar> \<le> 2 ^ 63"
  shows "parse_time (format_time t) = to_time_t t \<and>
         (format_time t = format_time u \<longleftrightarrow> to_time_t t = to_time_t u)"
  using parse_format_time [OF assms(1)] parse_format_time [OF assms(2)] by (metis format_time_def)

theorem format_time_seconds_witness:
  "format_time 1700000000123456789 = ''2023-11-14T22:13:20Z'' \<and>
   format_time 1700000000123456789 = format_time 1700000000999999999"
proof -
  have h: "\<bar>1700000000123456789 :: int\<bar> \<le> 2 ^ 63" "\<bar>1700000000999999999 :: int\<bar> \<le> 2 ^ 63" by simp_all
  have "format_time 1700000000123456789 = ''2023-11-14T22:13:20Z''" by code_simp
  with format_time_seconds [OF h] show ?thesis by (simp add: to_time_t_def)
qed

end
