(* ===== verification/HttpUploader.thy ===== *)
theory HttpUploader
  imports LocalStore TimeFormat
begin

text \<open>
  Uploading batches, \<open>src/sync/http_uploader.cpp\<close>: the JSON payload, the reading of the
  server's answer, the fall-back to the offline store and the retry from it. The HTTP client and
  the JSON serialiser are parameters of the world; a serialiser that throws (text that is not
  UTF-8) is an exception of \<open>upload\<close> and \<open>retry_pending\<close>.
\<close>

section \<open>State and data\<close>

datatype upload_result = KAccepted | KRejected | KTransientFailure

record http_uploader =
  up_has_store :: bool            \<comment> \<open>\<open>store_ != nullptr\<close>\<close>
  up_server_url :: string
  up_node_id :: string
  up_api_key :: string
  up_timeout_seconds :: int

definition kTelemetryPath :: string where
  "kTelemetryPath = ''/api/v1/telemetry''"

section \<open>Operations\<close>

definition join_url :: "string \<Rightarrow> string \<Rightarrow> string" where
  "join_url base path =
     (let base = (if base \<noteq> [] \<and> last base = CHR ''/'' then butlast base else base) in base @ path)"

fun payload_quality :: "sample_quality \<Rightarrow> string" where
  \<comment> \<open>the uploader's own \<open>quality_to_string\<close>\<close>
  "payload_quality KGood = ''good''"
| "payload_quality KUncertain = ''uncertain''"
| "payload_quality KBad = ''bad''"

definition sample_json :: "stored_sample \<Rightarrow> json" where
  "sample_json s =
     JObject [(''channel_id'', JString (c_str (ss_channel_id s))),
              (''timestamp'', JString (format_time (ss_timestamp s))),
              (''value'', JDouble (ss_value s)),
              (''unit'', JString (c_str (ss_unit s))),
              (''quality'', JString (payload_quality (ss_quality s)))]"

definition payload_json :: "string \<Rightarrow> int \<Rightarrow> stored_sample list \<Rightarrow> json" where
  "payload_json node_id sent_at samples =
     JObject [(''node_id'', JString node_id), (''sent_at'', JString (format_time sent_at)),
              (''samples'', JArray (map sample_json samples))]"

definition build_payload :: "http_uploader \<Rightarrow> stored_sample list \<Rightarrow> world \<Rightarrow> (cpp_exn + string) \<times> world" where
  "build_payload u samples w =
     (let (now, w1) = system_now w in
      (case w_dump w1 (payload_json (up_node_id u) now samples) of
         None \<Rightarrow> (Inl JsonTypeError, w1)
       | Some body \<Rightarrow> (Inr body, w1)))"

definition interpret_response :: "http_response \<Rightarrow> upload_result" where
  "interpret_response r =
     (if hr_error r \<noteq> [] \<or> hr_status_code r = 0 then KTransientFailure
      else if hr_status_code r = 202 \<or> hr_status_code r = 200 then KAccepted
      else if hr_status_code r = 400 then KRejected
      else if hr_status_code r = 401 \<or> hr_status_code r = 503 \<or> 500 \<le> hr_status_code r
           then KTransientFailure
      else KTransientFailure)"

definition persist_all :: "http_uploader \<Rightarrow> stored_sample list \<Rightarrow> store_state \<Rightarrow> bool \<times> store_state" where
  "persist_all u samples s = (if \<not> up_has_store u then (False, s) else put_all store_enqueue samples s)"

definition upload_headers :: "http_uploader \<Rightarrow> (string \<times> string) list" where
  "upload_headers u = (if up_api_key u \<noteq> [] then [(''Authorization'', ''Bearer '' @ up_api_key u)] else [])"

definition upload_request :: "http_uploader \<Rightarrow> string \<Rightarrow> http_request" where
  "upload_request u body =
     \<lparr>hq_url = join_url (up_server_url u) kTelemetryPath, hq_headers = upload_headers u,
      hq_body = body, hq_timeout = up_timeout_seconds u\<rparr>"

definition upload :: "http_uploader \<Rightarrow> stored_sample list \<Rightarrow> store_state \<Rightarrow>
                      (cpp_exn + upload_result) \<times> store_state" where
  "upload u samples = (\<lambda>(ls, w).
     (if samples = [] then (Inr KAccepted, ls, w)
      else (case build_payload u samples w of
              (Inl e, w1) \<Rightarrow> (Inl e, ls, w1)
            | (Inr body, w1) \<Rightarrow>
                (let (response, w2) = http_post (upload_request u body) w1;
                     result = interpret_response response
                 in if result = KAccepted then (Inr result, ls, w2)
                    else if result = KRejected then (Inr result, ls, w2)
                    else (let (_, s3) = persist_all u samples (ls, w2) in (Inr KTransientFailure, s3))))))"

definition retry_pending :: "http_uploader \<Rightarrow> nat \<Rightarrow> store_state \<Rightarrow>
                             (cpp_exn + upload_result) \<times> store_state" where
  "retry_pending u max_batch s =
     (if \<not> up_has_store u then (Inr KAccepted, s)
      else (case peek_batch max_batch s of (rows, ls, w) \<Rightarrow>
        (if rows = [] then (Inr KAccepted, ls, w)
         else (case build_payload u (map pr_sample rows) w of
                 (Inl e, w1) \<Rightarrow> (Inl e, ls, w1)
               | (Inr body, w1) \<Rightarrow>
                   (let (response, w2) = http_post (upload_request u body) w1;
                        result = interpret_response response
                    in if result \<noteq> KAccepted then (Inr result, ls, w2)
                       else (Inr KAccepted, ack_all acknowledge (map pr_id rows) (ls, w2)))))))"

section \<open>Lemmas\<close>

text \<open>What the store sees of a step outside it: nothing.\<close>

lemma store_unchanged:
  assumes "w_disk w' = w_disk w" "w_sqlite w' = w_sqlite w"
  shows "store_wf (ls, w') = store_wf (ls, w)" "store_rows (ls, w') = store_rows (ls, w)"
  using assms by (simp_all add: store_rows_def split: option.splits)

lemma build_payload_world:
  "build_payload u samples w = (r, w') \<Longrightarrow>
     w_disk w' = w_disk w \<and> w_sqlite w' = w_sqlite w \<and> w_posts w' = w_posts w \<and> w_reply w' = w_reply w \<and>
     w_dump w' = w_dump w \<and>
     r = (case w_dump w (payload_json (up_node_id u) (fst (system_now w)) samples) of
            None \<Rightarrow> Inl JsonTypeError | Some body \<Rightarrow> Inr body)"
  by (auto simp: build_payload_def system_now_def Let_def split: prod.splits option.splits)

lemma http_post_world:
  "http_post q w = (r, w') \<Longrightarrow> w_disk w' = w_disk w \<and> w_sqlite w' = w_sqlite w \<and>
     w_posts w' = w_posts w @ [q] \<and> w_dump w' = w_dump w \<and> w_reply w' = w_reply w \<and>
     r = w_reply w (length (w_posts w))"
  by (auto simp: http_post_def)

lemma interpret_response_cases:
  "interpret_response r = KAccepted \<longleftrightarrow> hr_error r = [] \<and> hr_status_code r \<in> {200, 202}"
  "interpret_response r = KRejected \<longleftrightarrow> hr_error r = [] \<and> hr_status_code r = 400"
  by (auto simp: interpret_response_def)

lemma to_time_t_of_saved: "to_time_t (unix_ms_to_time (time_to_unix_ms t)) = to_time_t t"
proof -
  have d: "a div 1000000 * 1000000 div 1000000000 = a div (1000000000 :: int)" for a
  proof -
    have "a div 1000000 * 1000000 div (1000000 * 1000) = a div 1000000 div (1000 :: int)" by simp
    also have "\<dots> = a div (1000000 * 1000)" by (rule zdiv_zmult2_eq [symmetric]) simp
    finally show ?thesis by simp
  qed
  show ?thesis
  proof (cases "0 \<le> t")
    case True
    then show ?thesis using d [of t] by (simp add: to_time_t_def unix_ms_to_time_def time_to_unix_ms_def)
  next
    case False
    define q where "q = (- t) div 1000000"
    have "0 \<le> q" using False by (simp add: q_def)
    have "c_div (- q * 1000000) 1000000000 = - (q * 1000000 div 1000000000)"
      using \<open>0 \<le> q\<close> by (cases "q = 0") (simp_all add: c_div_def)
    then show ?thesis using False d [of "- t"]
      by (simp add: to_time_t_def unix_ms_to_time_def time_to_unix_ms_def c_div_def q_def)
  qed
qed

lemma payload_quality_stored: "payload_quality q = quality_to_string q"
  \<comment> \<open>the texts sent and the texts stored agree\<close>
  by (cases q) simp_all

lemma sample_json_saved: "wf_stored x \<Longrightarrow> sample_json (saved_sample x) = sample_json x"
  by (simp add: sample_json_def saved_sample_texts format_time_def to_time_t_of_saved)

section \<open>The two paths of a sample\<close>

text \<open>The request a batch becomes when the payload can be serialised.\<close>

definition batch_request :: "http_uploader \<Rightarrow> stored_sample list \<Rightarrow> world \<Rightarrow> http_request option" where
  "batch_request u samples w =
     map_option (upload_request u) (w_dump w (payload_json (up_node_id u) (fst (system_now w)) samples))"

lemma batch_request_total: "\<forall>j. w_dump w j \<noteq> None \<Longrightarrow> \<exists>q. batch_request u samples w = Some q"
  by (auto simp: batch_request_def)

definition next_reply :: "world \<Rightarrow> upload_result" where
  "next_reply w = interpret_response (w_reply w (length (w_posts w)))"

lemma store_wf_cong [simp]:
  "store_wf (ls, w\<lparr>w_system_n := n\<rparr>) = store_wf (ls, w)"
  "store_wf (ls, w\<lparr>w_posts := ps\<rparr>) = store_wf (ls, w)"
  "store_wf (ls, w\<lparr>w_reply := f\<rparr>) = store_wf (ls, w)"
  "store_rows (ls, w\<lparr>w_system_n := n\<rparr>) = store_rows (ls, w)"
  "store_rows (ls, w\<lparr>w_posts := ps\<rparr>) = store_rows (ls, w)"
  by (simp_all add: store_rows_def split: option.splits)

lemma persist_all_rows:
  assumes "store_wf s" "persist_all u samples s = (ok, s')"
  shows "store_wf s' \<and> same_file s s' \<and>
    (\<exists>kept. subseq kept samples \<and>
       map snd (store_rows s') = map snd (store_rows s) @ map saved_sample kept \<and>
       (\<exists>fresh. store_rows s' = store_rows s @ fresh) \<and> (ok \<longrightarrow> kept = samples))"
proof (cases "up_has_store u")
  case True
  then have s': "s' = snd (put_all store_enqueue samples s)" "ok = fst (put_all store_enqueue samples s)"
    using assms(2) by (simp_all add: persist_all_def)
  show ?thesis unfolding s'
    using store.put_all_rows [OF assms(1), of samples] store.put_all_invar [OF assms(1), of samples]
      enqueue_all_file [OF assms(1), of samples] by blast
next
  case False
  then show ?thesis using assms by (auto simp: persist_all_def intro!: exI [of _ "[]"])
qed

lemma persist_all_works:
  assumes "store_wf s" "up_has_store u" "ls_db (fst s) \<noteq> None" "insert_works (w_sqlite (snd s))"
    and "\<forall>x \<in> set samples. ss_value x \<noteq> NaN"
  shows "fst (persist_all u samples s)"
proof -
  have "fst (put_all store_enqueue samples s)"
    by (rule store.put_all_ok [where Q = "\<lambda>s. ls_db (fst s) \<noteq> None \<and> insert_works (w_sqlite (snd s))"])
       (use assms store_enqueue_works store_enqueue_file in \<open>auto simp: same_file_def same_net_def\<close>)
  then show ?thesis using assms(2) by (simp add: persist_all_def)
qed

definition upload_spec :: "http_uploader \<Rightarrow> stored_sample list \<Rightarrow> store_state \<Rightarrow>
    cpp_exn + upload_result \<Rightarrow> store_state \<Rightarrow> bool" where
  "upload_spec u samples s r s' \<longleftrightarrow>
     (case batch_request u samples (snd s) of
        None \<Rightarrow> r = Inl JsonTypeError \<and> w_posts (snd s') = w_posts (snd s) \<and> store_rows s' = store_rows s
      | Some q \<Rightarrow> r = Inr (next_reply (snd s)) \<and> w_posts (snd s') = w_posts (snd s) @ [q] \<and>
          (if next_reply (snd s) = KTransientFailure
           then \<exists>kept. subseq kept samples \<and>
                  map snd (store_rows s') = map snd (store_rows s) @ map saved_sample kept \<and>
                  (up_has_store u \<and> ls_db (fst s) \<noteq> None \<and> insert_works (w_sqlite (snd s)) \<and>
                   (\<forall>x \<in> set samples. ss_value x \<noteq> NaN) \<longrightarrow> kept = samples)
           else store_rows s' = store_rows s))"

lemma upload_result_exhaust: "r \<noteq> KAccepted \<Longrightarrow> r \<noteq> KRejected \<Longrightarrow> r = KTransientFailure"
  by (cases r) simp_all

lemma upload_effect:
  assumes "store_wf s" "samples \<noteq> []" "upload u samples s = (r, s')"
  shows "store_wf s' \<and> upload_spec u samples s r s'"
proof -
  obtain ls w where s: "s = (ls, w)" by fastforce
  obtain p w1 where b: "build_payload u samples w = (p, w1)" by fastforce
  note b' = build_payload_world [OF b]
  have s1: "store_wf (ls, w1)" "store_rows (ls, w1) = store_rows s"
    using store_unchanged [of w1 w ls] b' assms(1) s by simp_all
  show ?thesis
  proof (cases "batch_request u samples w")
    case None
    then have "p = Inl JsonTypeError" using b' by (auto simp: batch_request_def split: option.splits)
    then show ?thesis using assms(2,3) s b b' s1 None by (auto simp: upload_def upload_spec_def)
  next
    case (Some q)
    then obtain body where body: "p = Inr body" "q = upload_request u body"
      using b' by (auto simp: batch_request_def split: option.splits)
    obtain resp w2 where h: "http_post q w1 = (resp, w2)" by fastforce
    note h' = http_post_world [OF h]
    have reply: "interpret_response resp = next_reply w" using h' b' by (simp add: next_reply_def)
    have s2: "store_wf (ls, w2)" "store_rows (ls, w2) = store_rows s"
      using store_unchanged [of w2 w1 ls] h' s1 by simp_all
    have posts: "w_posts w2 = w_posts w @ [q]" using h' b' by simp
    show ?thesis
    proof (cases "next_reply w = KTransientFailure")
      case False
      then show ?thesis using assms(2,3) s b body h reply s2 posts Some upload_result_exhaust
        by (auto simp: upload_def upload_spec_def Let_def split: if_splits)
    next
      case True
      obtain ok s3 where p: "persist_all u samples (ls, w2) = (ok, s3)" by (metis surj_pair)
      note p' = persist_all_rows [OF s2(1) p]
      have s': "s' = s3" "r = Inr KTransientFailure"
        using assms(2,3) s b body h reply True p by (auto simp: upload_def Let_def)
      have posts3: "w_posts (snd s3) = w_posts w @ [q]"
        using p' posts by (cases s3) (auto simp: same_net_def)
      obtain kept where kept: "subseq kept samples"
          "map snd (store_rows s3) = map snd (store_rows s) @ map saved_sample kept" "ok \<longrightarrow> kept = samples"
        using p' s2(2) by auto
      have "up_has_store u \<and> ls_db ls \<noteq> None \<and> insert_works (w_sqlite w) \<and>
              (\<forall>x \<in> set samples. ss_value x \<noteq> NaN) \<longrightarrow> ok"
        using persist_all_works [of "(ls, w2)" u samples] s2(1) p h' b' by auto
      then show ?thesis using s s' True Some kept posts3 p' by (auto simp: upload_spec_def)
    qed
  qed
qed

lemma upload_nothing: "upload u [] s = (Inr KAccepted, s)"
  by (simp add: upload_def case_prod_beta)

definition retry_spec :: "http_uploader \<Rightarrow> (int \<times> stored_sample) list \<Rightarrow> store_state \<Rightarrow>
    cpp_exn + upload_result \<Rightarrow> store_state \<Rightarrow> bool" where
  "retry_spec u batch s r s' \<longleftrightarrow>
     (if batch = [] then r = Inr KAccepted \<and> w_posts (snd s') = w_posts (snd s) \<and> store_rows s' = store_rows s
      else case batch_request u (map snd batch) (snd s) of
        None \<Rightarrow> r = Inl JsonTypeError \<and> w_posts (snd s') = w_posts (snd s) \<and> store_rows s' = store_rows s
      | Some q \<Rightarrow> r = Inr (next_reply (snd s)) \<and> w_posts (snd s') = w_posts (snd s) @ [q] \<and>
          (if next_reply (snd s) = KAccepted
           then \<exists>gone \<subseteq> fst ` set batch. store_rows s' = filter (\<lambda>row. fst row \<notin> gone) (store_rows s)
           else store_rows s' = store_rows s))"

lemma batch_request_cong:
  "w_dump w' = w_dump w \<Longrightarrow> w_system w' = w_system w \<Longrightarrow> w_system_n w' = w_system_n w \<Longrightarrow>
   batch_request u samples w' = batch_request u samples w"
  by (simp add: batch_request_def system_now_def)

lemma peek_batch_clock: "w_system_n (snd (snd (peek_batch n s))) = w_system_n (snd s)"
proof -
  obtain ls w where s: "s = (ls, w)" by fastforce
  show ?thesis
    by (auto simp: s peek_batch_def sql_run_def Let_def split: option.splits prod.splits sql_result.splits)
qed

lemma retry_effect_peeked:
  assumes "store_wf s" "up_has_store u" "retry_pending u n s = (r, s')" "peek_batch n s = (rows, s1)"
  defines "batch \<equiv> map (\<lambda>r. (pr_id r, pr_sample r)) rows"
  shows "store_wf s' \<and> retry_spec u batch s r s'"
proof -
  obtain ls w where pk: "peek_batch n s = (rows, ls, w)" using assms(4) by (metis surj_pair)
  note p = peek_batch_rows [OF assms(1) pk]
  have batch: "map snd batch = map pr_sample rows" "fst ` set batch = set (map pr_id rows)"
    "batch = [] \<longleftrightarrow> rows = []"
    unfolding batch_def by (force simp: comp_def)+
  have frame: "same_net (snd s) w" using peek_batch_file [OF assms(1), of n] pk by (cases s) simp
  have clock: "w_system_n w = w_system_n (snd s)" using peek_batch_clock [of n s] pk by simp
  have eqs: "batch_request u samples w = batch_request u samples (snd s)" "next_reply w = next_reply (snd s)"
    "w_posts w = w_posts (snd s)" for samples
    using frame clock batch_request_cong [of w "snd s"] by (auto simp: same_net_def next_reply_def)
  have wf: "store_wf (ls, w)" "store_rows (ls, w) = store_rows s" using p by simp_all
  show ?thesis
  proof (cases "rows = []")
    case True
    then show ?thesis using assms(2,3) pk wf batch(3) eqs(3) by (auto simp: retry_pending_def retry_spec_def)
  next
    case False
    let ?samples = "map pr_sample rows"
    obtain pl w1 where b: "build_payload u ?samples w = (pl, w1)" by fastforce
    note b' = build_payload_world [OF b]
    have s1: "store_wf (ls, w1)" "store_rows (ls, w1) = store_rows s"
      using store_unchanged [of w1 w ls] b' wf by simp_all
    show ?thesis
    proof (cases "batch_request u ?samples w")
      case None
      then have "pl = Inl JsonTypeError" using b' by (auto simp: batch_request_def split: option.splits)
      then show ?thesis using assms(2,3) pk b b' s1 None False batch eqs
        by (auto simp: retry_pending_def retry_spec_def)
    next
      case (Some q)
      then obtain body where body: "pl = Inr body" "q = upload_request u body"
        using b' by (auto simp: batch_request_def split: option.splits)
      obtain resp w2 where h: "http_post q w1 = (resp, w2)" by fastforce
      note h' = http_post_world [OF h]
      have reply: "interpret_response resp = next_reply w" using h' b' by (simp add: next_reply_def)
      have s2: "store_wf (ls, w2)" "store_rows (ls, w2) = store_rows s"
        using store_unchanged [of w2 w1 ls] h' s1 by simp_all
      have posts: "w_posts w2 = w_posts w @ [q]" using h' b' by simp
      let ?ack = "ack_all acknowledge (map pr_id rows) (ls, w2)"
      have ack: "store_wf ?ack" "w_posts (snd ?ack) = w_posts w2"
        "\<exists>gone \<subseteq> set (map pr_id rows). store_rows ?ack = filter (\<lambda>r. fst r \<notin> gone) (store_rows s)"
        using store.ack_all_invar [OF s2(1)] acknowledge_all_file [OF s2(1), of "map pr_id rows"]
          store.ack_all_rows [OF s2(1), of "map pr_id rows"] s2(2)
        by (simp_all add: same_file_def same_net_def)
      have res: "r = Inr (next_reply w)" "s' = (if next_reply w = KAccepted then ?ack else (ls, w2))"
        using assms(2,3) pk False b body h reply by (auto simp: retry_pending_def Let_def split: if_splits)
      show ?thesis
        using res ack s2 posts Some eqs batch False
        by (cases "next_reply w = KAccepted") (simp_all add: retry_spec_def)
    qed
  qed
qed

lemma retry_effect:
  assumes "store_wf s" "up_has_store u" "retry_pending u n s = (r, s')"
  shows "store_wf s' \<and> (\<exists>k \<le> n. retry_spec u (take k (store_rows s)) s r s')"
proof -
  obtain rows ls w where pk: "peek_batch n s = (rows, ls, w)" by (metis surj_pair)
  obtain k where "k \<le> n" "map (\<lambda>r. (pr_id r, pr_sample r)) rows = take k (store_rows s)"
    using peek_batch_rows [OF assms(1) pk] by blast
  with retry_effect_peeked [OF assms pk] show ?thesis by auto
qed

section \<open>Properties of the uploader\<close>

definition ex_uploader :: http_uploader where
  "ex_uploader = \<lparr>up_has_store = True, up_server_url = ''https://t.example.com/'', up_node_id = ''lab-1'',
                  up_api_key = ''k'', up_timeout_seconds = 30\<rparr>"

definition ex_offline :: store_state where
  \<comment> \<open>the example store, with a server that cannot be reached\<close>
  "ex_offline = (fst ex_store, (snd ex_store)
     \<lparr>w_reply := \<lambda>_. \<lparr>hr_status_code = 0, hr_body = [], hr_error = ''timeout''\<rparr>\<rparr>)"

lemma store_wf_reply: "store_wf s \<Longrightarrow> store_wf (fst s, (snd s)\<lparr>w_reply := f\<rparr>)"
  by (cases s) simp

lemma ex_offline_wf: "store_wf ex_offline"
  unfolding ex_offline_def by (rule store_wf_reply [OF ex_store_wf])

text \<open>
  C25: No sample of a batch is lost by \<open>upload\<close>: the batch is posted once, to the telemetry endpoint
  with the payload of exactly these samples; if the server neither accepts nor rejects it, the
  samples go to the offline store in their order, all of them when the store is open, the database
  works and no value is \<open>NaN\<close>, and nothing stored before is touched. When the payload cannot be
  serialised the exception leaves \<open>upload\<close> with the batch neither posted nor stored.
\<close>

theorem upload_posts_or_persists:
  assumes "store_wf s" "samples \<noteq> []" "upload u samples s = (r, s')"
  shows "case batch_request u samples (snd s) of
      None \<Rightarrow> r = Inl JsonTypeError \<and> w_posts (snd s') = w_posts (snd s) \<and> store_rows s' = store_rows s
    | Some q \<Rightarrow> r = Inr (next_reply (snd s)) \<and> w_posts (snd s') = w_posts (snd s) @ [q] \<and>
        (if next_reply (snd s) = KTransientFailure
         then \<exists>kept. subseq kept samples \<and>
                map snd (store_rows s') = map snd (store_rows s) @ map saved_sample kept \<and>
                (up_has_store u \<and> ls_db (fst s) \<noteq> None \<and> insert_works (w_sqlite (snd s)) \<and>
                 (\<forall>x \<in> set samples. ss_value x \<noteq> NaN) \<longrightarrow> kept = samples)
         else store_rows s' = store_rows s)"
  using upload_effect [OF assms] unfolding upload_spec_def by blast

theorem upload_posts_or_persists_witness:
  "fst (upload ex_uploader [ex_reading] ex_offline) = Inr KTransientFailure \<and>
   map snd (store_rows (snd (upload ex_uploader [ex_reading] ex_offline))) = [saved_sample ex_reading]"
proof -
  have h: "[ex_reading] \<noteq> []" by simp
  note up = upload_posts_or_persists [OF ex_offline_wf h prod.collapse [symmetric], of ex_uploader]
  have c: "batch_request ex_uploader [ex_reading] (snd ex_offline) \<noteq> None"
    "next_reply (snd ex_offline) = KTransientFailure" "store_rows ex_offline = []"
    "up_has_store ex_uploader" "ls_db (fst ex_offline) \<noteq> None" "ss_value ex_reading \<noteq> NaN"
    by code_simp+
  have "w_sqlite (snd ex_offline) = w_sqlite (snd ex_store)" by (simp add: ex_offline_def)
  also have "\<dots> = ref_sqlite (\<lambda>_. None)"
    using open_store_disk [of ex_file local_store_new ex_world "fst (open_store ex_file (local_store_new, ex_world))"
        "fst ex_store" "snd ex_store"] ex_world_laws
    by (simp add: ex_store_def same_net_def) (simp add: ex_world_def)
  finally have "insert_works (w_sqlite (snd ex_offline))" by (simp add: ref_insert_works)
  with up c show ?thesis by auto
qed

text \<open>
  C26: Rows leave the offline store only after the server took them: \<open>retry_pending\<close> posts the
  payload of the oldest rows, and deletes, from among these rows only, after the answer to that very
  request was 200 or 202; on any other answer, a 400 included, and when the payload cannot be
  serialised, the queue is as before. With nothing to read it posts nothing and reports success.
\<close>

theorem retry_acknowledges_after_accept:
  assumes "store_wf s" "up_has_store u" "retry_pending u n s = (r, s')"
  shows "\<exists>k \<le> n. let batch = take k (store_rows s) in
     if batch = [] then r = Inr KAccepted \<and> w_posts (snd s') = w_posts (snd s) \<and> store_rows s' = store_rows s
     else case batch_request u (map snd batch) (snd s) of
        None \<Rightarrow> r = Inl JsonTypeError \<and> w_posts (snd s') = w_posts (snd s) \<and> store_rows s' = store_rows s
      | Some q \<Rightarrow> r = Inr (next_reply (snd s)) \<and> w_posts (snd s') = w_posts (snd s) @ [q] \<and>
          (if next_reply (snd s) = KAccepted
           then \<exists>gone \<subseteq> fst ` set batch. store_rows s' = filter (\<lambda>row. fst row \<notin> gone) (store_rows s)
           else store_rows s' = store_rows s)"
  using retry_effect [OF assms] unfolding retry_spec_def Let_def by blast

theorem retry_acknowledges_after_accept_witness:
  "let s = snd (store_enqueue ex_reading ex_offline)
   in store_rows (snd (retry_pending ex_uploader 10 s)) = store_rows s"
proof -
  let ?s = "snd (store_enqueue ex_reading ex_offline)"
  have wf: "store_wf ?s" using store.put_invar [OF ex_offline_wf] .
  have c: "up_has_store ex_uploader" "next_reply (snd ?s) = KTransientFailure" by code_simp+
  show ?thesis
    using retry_acknowledges_after_accept [OF wf c(1) prod.collapse [symmetric], of 10] c(2)
    by (auto simp: Let_def split: if_splits option.splits)
qed

text \<open>
  A sample that took the way through the offline store is uploaded as it would have been at
  once: the store keeps it to the millisecond, the payload shows the second, and the JSON of the
  batch read back equals the JSON of the batch that went in.
\<close>

theorem offline_payload_identical:
  assumes "\<forall>x \<in> set samples. wf_stored x"
  shows "payload_json node sent_at (map saved_sample samples) = payload_json node sent_at samples"
  using assms by (simp add: payload_json_def sample_json_saved)

theorem offline_payload_identical_witness:
  "payload_json ''lab-1'' 0 (map saved_sample [ex_reading]) = payload_json ''lab-1'' 0 [ex_reading] \<and>
   saved_sample ex_reading \<noteq> ex_reading"
proof -
  have "saved_sample ex_reading \<noteq> ex_reading" "\<forall>x \<in> set [ex_reading]. wf_stored x" by code_simp+
  then show ?thesis using offline_payload_identical [of "[ex_reading]"] by auto
qed

end
