(* ===== verification/CurlClient.thy ===== *)
theory CurlClient
  imports HttpUploader
begin

text \<open>
  The production HTTP client, \<open>src/sync/curl_http_client.cpp\<close>. libcurl is a parameter: whether it hands
  out a handle, what a transfer with given options returns, and its error texts. The rest of the
  development knows the client only by its interface, the next response of the world.
\<close>

section \<open>The transfer\<close>

record curl_transfer =
  \<comment> \<open>the options set on the handle\<close>
  ct_url :: string
  ct_headers :: "string list"
  ct_post :: bool
  ct_body :: string
  ct_timeout :: int

record curl_outcome =
  co_code :: int                  \<comment> \<open>\<open>CURLcode\<close>, zero is \<open>CURLE_OK\<close>\<close>
  co_status :: int                \<comment> \<open>\<open>CURLINFO_RESPONSE_CODE\<close>\<close>
  co_received :: "string list"    \<comment> \<open>the blocks given to the write callback\<close>

record curl =
  cu_handle :: bool               \<comment> \<open>\<open>curl_easy_init\<close> succeeds\<close>
  cu_perform :: "curl_transfer \<Rightarrow> curl_outcome"
  cu_strerror :: "int \<Rightarrow> string"

definition write_callback :: "string \<Rightarrow> http_response \<Rightarrow> http_response" where
  "write_callback block response = response\<lparr>hr_body := hr_body response @ block\<rparr>"

definition header_list :: "(string \<times> string) list \<Rightarrow> string list" where
  "header_list headers =
     ''Content-Type: application/json'' # map (\<lambda>(key, v). c_str (key @ '': '' @ v)) headers"

definition curl_transfer_of :: "http_request \<Rightarrow> curl_transfer" where
  "curl_transfer_of q =
     \<lparr>ct_url = c_str (hq_url q), ct_headers = header_list (hq_headers q), ct_post = True,
      ct_body = hq_body q, ct_timeout = hq_timeout q\<rparr>"

definition http_response_new :: http_response where
  "http_response_new = \<lparr>hr_status_code = 0, hr_body = [], hr_error = []\<rparr>"

definition curl_post :: "curl \<Rightarrow> http_request \<Rightarrow> http_response" where
  "curl_post lib q =
     (if \<not> cu_handle lib then http_response_new\<lparr>hr_error := ''curl_easy_init failed''\<rparr>
      else (let outcome = cu_perform lib (curl_transfer_of q);
                response = fold write_callback (co_received outcome) http_response_new
            in if co_code outcome \<noteq> 0 then response\<lparr>hr_error := cu_strerror lib (co_code outcome)\<rparr>
               else response\<lparr>hr_status_code := co_status outcome\<rparr>))"

section \<open>Lemmas\<close>

lemma fold_write_callback:
  "fold write_callback blocks response = response\<lparr>hr_body := hr_body response @ concat blocks\<rparr>"
  by (induction blocks arbitrary: response) (simp_all add: write_callback_def)

lemma curl_post_failed:
  "\<not> cu_handle lib \<or> co_code (cu_perform lib (curl_transfer_of q)) \<noteq> 0 \<Longrightarrow> hr_status_code (curl_post lib q) = 0"
  by (auto simp: curl_post_def fold_write_callback http_response_new_def Let_def)

lemma curl_post_completed:
  "cu_handle lib \<Longrightarrow> co_code (cu_perform lib (curl_transfer_of q)) = 0 \<Longrightarrow>
   curl_post lib q = \<lparr>hr_status_code = co_status (cu_perform lib (curl_transfer_of q)),
     hr_body = concat (co_received (cu_perform lib (curl_transfer_of q))), hr_error = []\<rparr>"
  by (simp add: curl_post_def fold_write_callback http_response_new_def Let_def)

section \<open>Properties\<close>

text \<open>
  With the production client, samples count as delivered or as rejected only on a completed transfer:
  the uploader takes an answer as accepted exactly when libcurl gave a handle, reported success and the
  status was 200 or 202, as rejected exactly when it reported success and the status was 400, and
  as a transient failure, whose batch is persisted, in every other case, a failed transfer of which
  part of a reply had arrived included. The status of a failed transfer is never looked at.
\<close>

theorem curl_verdicts:
  "let outcome = cu_perform lib (curl_transfer_of q); completed = cu_handle lib \<and> co_code outcome = 0 in
   interpret_response (curl_post lib q) =
     (if completed \<and> (co_status outcome = 200 \<or> co_status outcome = 202) then KAccepted
      else if completed \<and> co_status outcome = 400 then KRejected
      else KTransientFailure)"
proof (cases "cu_handle lib \<and> co_code (cu_perform lib (curl_transfer_of q)) = 0")
  case True
  then show ?thesis using curl_post_completed [of lib q] by (simp add: interpret_response_def Let_def)
next
  case False
  then have "hr_status_code (curl_post lib q) = 0" using curl_post_failed by blast
  then show ?thesis using False by (auto simp: interpret_response_def Let_def)
qed

end
