(* ===== verification/Drivers.thy ===== *)
theory Drivers
  imports Platform
begin

text \<open>
  The driver interface, the registry of factories and the drivers that need no hardware:
  \<open>include/bossa/drivers/driver.hpp\<close>, \<open>src/drivers/registry.cpp\<close>, \<open>drivers/sim\<close> and the three
  fakes. The library functions \<open>sin\<close> and \<open>cos\<close> are parameters of the world.
\<close>

section \<open>The interface\<close>

definition kMaxSamples :: nat where
  "kMaxSamples = 8"

record read_result =
  rr_samples :: "sample list"
  rr_sample_count :: nat

definition read_result_new :: read_result where
  "read_result_new = \<lparr>rr_samples = replicate kMaxSamples sample_default, rr_sample_count = 0\<rparr>"

definition wf_read :: "read_result \<Rightarrow> bool" where
  \<comment> \<open>an array of eight samples, the count within it\<close>
  "wf_read r \<longleftrightarrow> length (rr_samples r) = kMaxSamples \<and> rr_sample_count r \<le> kMaxSamples"

definition set_sample :: "nat \<Rightarrow> sample \<Rightarrow> read_result \<Rightarrow> read_result" where
  "set_sample i s r = r\<lparr>rr_samples := (rr_samples r)[i := s]\<rparr>"

lemma wf_read_new [simp]: "wf_read read_result_new"
  by (simp add: wf_read_def read_result_new_def)

lemma wf_read_set_sample [simp]: "wf_read (set_sample i s r) = wf_read r"
  by (simp add: wf_read_def set_sample_def)

lemma wf_read_count [simp]: "n \<le> kMaxSamples \<Longrightarrow> wf_read r \<Longrightarrow> wf_read (r\<lparr>rr_sample_count := n\<rparr>)"
  by (simp add: wf_read_def)

text \<open>
  What the runtime relies on: \<open>read\<close> returns no more samples than the array has, none before
  the driver was configured, and a successful \<open>configure\<close> makes the driver ready for good.
\<close>

locale sensor_driver =
  fixes start :: "json \<Rightarrow> 'd \<times> world \<Rightarrow> cpp_exn option \<times> 'd \<times> world"
    and sense :: "'d \<times> world \<Rightarrow> read_result \<times> 'd \<times> world"
    and ready :: "'d \<Rightarrow> bool"
  assumes sense_wf: "wf_read (fst (sense (d, w)))"
    and sense_unready: "\<not> ready d \<Longrightarrow> rr_sample_count (fst (sense (d, w))) = 0"
    and sense_ready: "ready (fst (snd (sense (d, w)))) = ready d"
    and start_ready: "start p (d, w) = (None, d', w') \<Longrightarrow> ready d'"
begin

definition emitted :: "'d \<times> world \<Rightarrow> sample list" where
  "emitted s = take (rr_sample_count (fst (sense s))) (rr_samples (fst (sense s)))"

lemma emitted_length: "length (emitted s) = rr_sample_count (fst (sense s))"
  using sense_wf [of "fst s" "snd s"] by (simp add: emitted_def wf_read_def)

lemma emitted_nth: "i < rr_sample_count (fst (sense s)) \<Longrightarrow> emitted s ! i = rr_samples (fst (sense s)) ! i"
  by (simp add: emitted_def)

lemma emitted_bound: "length (emitted s) \<le> 8"
  using sense_wf [of "fst s" "snd s"] by (simp add: emitted_length wf_read_def kMaxSamples_def)

end

section \<open>JSON parameters\<close>

fun json_contains :: "json \<Rightarrow> string \<Rightarrow> bool" where
  "json_contains (JObject members) key = (map_of members key \<noteq> None)"
| "json_contains _ key = False"

fun json_at :: "json \<Rightarrow> string \<Rightarrow> json" where
  \<comment> \<open>\<open>operator[]\<close> of a constant object, used after \<open>contains\<close> only\<close>
  "json_at (JObject members) key = (case map_of members key of Some v \<Rightarrow> v | None \<Rightarrow> JNull)"
| "json_at _ key = JNull"

fun json_string :: "json \<Rightarrow> string option" where
  \<comment> \<open>\<open>get<std::string>()\<close>, and \<open>is_string()\<close> when it is \<open>Some\<close>\<close>
  "json_string (JString s) = Some s"
| "json_string _ = None"

fun json_number :: "json \<Rightarrow> double option" where
  \<comment> \<open>\<open>is_number()\<close> and \<open>get<double>()\<close>\<close>
  "json_number (JInt i) = Some (d64 (of_int i))"
| "json_number (JDouble d) = Some d"
| "json_number _ = None"

section \<open>The registry\<close>

type_synonym 'f registry = "string \<rightharpoonup> 'f"

definition register_driver :: "string \<Rightarrow> 'f option \<Rightarrow> 'f registry \<Rightarrow> bool \<times> 'f registry" where
  \<comment> \<open>\<open>None\<close> is an empty \<open>std::function\<close>\<close>
  "register_driver name factory regs =
     (if name = [] \<or> factory = None then (False, regs) else (True, regs(name := factory)))"

definition registry_create :: "string \<Rightarrow> 'f registry \<Rightarrow> 'f option" where
  "registry_create name regs = (case regs name of None \<Rightarrow> None | Some factory \<Rightarrow> Some factory)"

definition registry_contains :: "string \<Rightarrow> 'f registry \<Rightarrow> bool" where
  "registry_contains name regs = (regs name \<noteq> None)"

section \<open>The simulated sensor\<close>

record sim_driver =
  sim_configured :: bool
  sim_channel_id :: string
  sim_unit :: string
  sim_base_value :: double
  sim_step :: double
  sim_sample_index :: "64 word"

definition sim_new :: sim_driver where
  "sim_new = \<lparr>sim_configured = False, sim_channel_id = [], sim_unit = ''count'', sim_base_value = Fin 0,
              sim_step = Fin 1, sim_sample_index = 0\<rparr>"

definition sim_name :: string where
  "sim_name = ''sim''"

definition sim_configure :: "json \<Rightarrow> sim_driver \<times> world \<Rightarrow> cpp_exn option \<times> sim_driver \<times> world" where
  "sim_configure p = (\<lambda>(d, w).
     (case (if json_contains p ''channel_id'' then json_string (json_at p ''channel_id'') else None) of
        None \<Rightarrow> (Some (RuntimeError ''sim driver requires non-empty channel_id''), d, w)
      | Some channel_id \<Rightarrow>
         (if channel_id = [] then (Some (RuntimeError ''sim driver requires non-empty channel_id''), d, w)
          else
            (let d = d\<lparr>sim_channel_id := channel_id\<rparr>;
                 d = (case (if json_contains p ''unit'' then json_string (json_at p ''unit'') else None) of
                        None \<Rightarrow> d | Some u \<Rightarrow> d\<lparr>sim_unit := u\<rparr>);
                 d = (case (if json_contains p ''base_value'' then json_number (json_at p ''base_value'') else None) of
                        None \<Rightarrow> d | Some v \<Rightarrow> d\<lparr>sim_base_value := v\<rparr>);
                 d = (case (if json_contains p ''step'' then json_number (json_at p ''step'') else None) of
                        None \<Rightarrow> d | Some v \<Rightarrow> d\<lparr>sim_step := v\<rparr>)
             in (None, d\<lparr>sim_sample_index := 0, sim_configured := True\<rparr>, w)))))"

definition index_double :: "64 word \<Rightarrow> double" where
  \<comment> \<open>\<open>static_cast<double>(sample_index_)\<close>\<close>
  "index_double i = d64 (of_int (uint i))"

definition sim_read :: "sim_driver \<times> world \<Rightarrow> read_result \<times> sim_driver \<times> world" where
  "sim_read = (\<lambda>(d, w).
     (if \<not> sim_configured d then (read_result_new, d, w)
      else (let (now, w1) = system_now w;
                s = \<lparr>sa_channel_id = sim_channel_id d,
                     sa_value = d_add (sim_base_value d) (d_mul (index_double (sim_sample_index d)) (sim_step d)),
                     sa_timestamp = now, sa_unit = sim_unit d, sa_quality = KGood\<rparr>;
                r = (set_sample 0 s read_result_new)\<lparr>rr_sample_count := 1\<rparr>
            in (r, d\<lparr>sim_sample_index := sim_sample_index d + 1\<rparr>, w1))))"

definition sim_write :: "json \<Rightarrow> sim_driver \<times> world \<Rightarrow> cpp_exn option \<times> sim_driver \<times> world" where
  "sim_write command s = (None, s)"

interpretation sim: sensor_driver sim_configure sim_read sim_configured
  by unfold_locales
     (auto simp: sim_read_def sim_configure_def Let_def read_result_new_def kMaxSamples_def
        wf_read_def set_sample_def split: prod.splits option.splits if_splits)

section \<open>The fake environment sensor\<close>

record fake_bme280 =
  fb_configured :: bool
  fb_temp_channel_id :: string
  fb_hum_channel_id :: string
  fb_press_channel_id :: string
  fb_sample_index :: "64 word"

definition fake_bme280_new :: fake_bme280 where
  "fake_bme280_new = \<lparr>fb_configured = False, fb_temp_channel_id = ''temperature'',
     fb_hum_channel_id = ''humidity'', fb_press_channel_id = ''pressure'', fb_sample_index = 0\<rparr>"

definition json_text_field :: "json \<Rightarrow> string \<Rightarrow> string \<Rightarrow> cpp_exn + string" where
  \<comment> \<open>the field's text if there is the field (an exception if it is not text), else the old value\<close>
  "json_text_field p key old =
     (if json_contains p key
      then (case json_string (json_at p key) of None \<Rightarrow> Inl JsonTypeError | Some t \<Rightarrow> Inr t)
      else Inr old)"

definition fake_bme280_name :: string where
  "fake_bme280_name = ''fake-bme280''"

definition fake_bme280_configure :: "json \<Rightarrow> fake_bme280 \<times> world \<Rightarrow> cpp_exn option \<times> fake_bme280 \<times> world" where
  "fake_bme280_configure p = (\<lambda>(d, w).
     (case json_text_field p ''temperature_channel_id'' (fb_temp_channel_id d) of
        Inl e \<Rightarrow> (Some e, d, w)
      | Inr t \<Rightarrow> (let d = d\<lparr>fb_temp_channel_id := t\<rparr> in
         (case json_text_field p ''humidity_channel_id'' (fb_hum_channel_id d) of
            Inl e \<Rightarrow> (Some e, d, w)
          | Inr t \<Rightarrow> (let d = d\<lparr>fb_hum_channel_id := t\<rparr> in
             (case json_text_field p ''pressure_channel_id'' (fb_press_channel_id d) of
                Inl e \<Rightarrow> (Some e, d, w)
              | Inr t \<Rightarrow> (None, d\<lparr>fb_press_channel_id := t, fb_sample_index := 0, fb_configured := True\<rparr>, w)))))))"

definition wave :: "(double \<Rightarrow> double) \<Rightarrow> rat \<Rightarrow> rat \<Rightarrow> 64 word \<Rightarrow> rat \<Rightarrow> double" where
  \<comment> \<open>\<open>offset + amplitude * f(index * rate)\<close> in double arithmetic, the constants as literals\<close>
  "wave f offset amplitude i rate = d_add (d64 offset) (d_mul (d64 amplitude) (f (d_mul (index_double i) (d64 rate))))"

definition good_sample :: "string \<Rightarrow> string \<Rightarrow> double \<Rightarrow> int \<Rightarrow> sample" where
  "good_sample channel_id u v t =
     \<lparr>sa_channel_id = channel_id, sa_value = v, sa_timestamp = t, sa_unit = u, sa_quality = KGood\<rparr>"

definition fake_bme280_write :: "json \<Rightarrow> fake_bme280 \<times> world \<Rightarrow> cpp_exn option \<times> fake_bme280 \<times> world" where
  "fake_bme280_write command s = (None, s)"

definition fake_bme280_read :: "fake_bme280 \<times> world \<Rightarrow> read_result \<times> fake_bme280 \<times> world" where
  "fake_bme280_read = (\<lambda>(d, w).
     (if \<not> fb_configured d then (read_result_new, d, w)
      else (let (t, w1) = system_now w;
                i = fb_sample_index d;
                temp_val = wave (w_sin w1) 22 2 i 0.1;
                hum_val = wave (w_cos w1) 45 5 i 0.1;
                press_val = wave (w_sin w1) 1013.25 1 i 0.05;
                r = set_sample 0 (good_sample (fb_temp_channel_id d) ''celsius'' temp_val t) read_result_new;
                r = set_sample 1 (good_sample (fb_hum_channel_id d) ''percent'' hum_val t) r;
                r = set_sample 2 (good_sample (fb_press_channel_id d) ''hPa'' press_val t) r
            in (r\<lparr>rr_sample_count := 3\<rparr>, d\<lparr>fb_sample_index := i + 1\<rparr>, w1))))"

interpretation fake_bme280: sensor_driver fake_bme280_configure fake_bme280_read fb_configured
  by unfold_locales
     (auto simp: fake_bme280_read_def fake_bme280_configure_def Let_def read_result_new_def kMaxSamples_def
        wf_read_def set_sample_def split: prod.splits sum.splits if_splits)

section \<open>The fake accelerometer\<close>

record fake_mpu6050 =
  fm_configured :: bool
  fm_accel_x_id :: string
  fm_accel_y_id :: string
  fm_accel_z_id :: string
  fm_sample_index :: "64 word"

definition fake_mpu6050_new :: fake_mpu6050 where
  "fake_mpu6050_new = \<lparr>fm_configured = False, fm_accel_x_id = ''accel_x'', fm_accel_y_id = ''accel_y'',
     fm_accel_z_id = ''accel_z'', fm_sample_index = 0\<rparr>"

definition fake_mpu6050_name :: string where
  "fake_mpu6050_name = ''fake-mpu6050''"

definition fake_mpu6050_configure :: "json \<Rightarrow> fake_mpu6050 \<times> world \<Rightarrow> cpp_exn option \<times> fake_mpu6050 \<times> world" where
  "fake_mpu6050_configure p = (\<lambda>(d, w).
     (case json_text_field p ''accel_x_id'' (fm_accel_x_id d) of
        Inl e \<Rightarrow> (Some e, d, w)
      | Inr t \<Rightarrow> (let d = d\<lparr>fm_accel_x_id := t\<rparr> in
         (case json_text_field p ''accel_y_id'' (fm_accel_y_id d) of
            Inl e \<Rightarrow> (Some e, d, w)
          | Inr t \<Rightarrow> (let d = d\<lparr>fm_accel_y_id := t\<rparr> in
             (case json_text_field p ''accel_z_id'' (fm_accel_z_id d) of
                Inl e \<Rightarrow> (Some e, d, w)
              | Inr t \<Rightarrow> (None, d\<lparr>fm_accel_z_id := t, fm_sample_index := 0, fm_configured := True\<rparr>, w)))))))"

definition fake_mpu6050_write :: "json \<Rightarrow> fake_mpu6050 \<times> world \<Rightarrow> cpp_exn option \<times> fake_mpu6050 \<times> world" where
  "fake_mpu6050_write command s = (None, s)"

definition fake_mpu6050_read :: "fake_mpu6050 \<times> world \<Rightarrow> read_result \<times> fake_mpu6050 \<times> world" where
  "fake_mpu6050_read = (\<lambda>(d, w).
     (if \<not> fm_configured d then (read_result_new, d, w)
      else (let (t, w1) = system_now w;
                i = fm_sample_index d;
                r = set_sample 0 (good_sample (fm_accel_x_id d) ''g'' (wave (w_sin w1) 0 0.1 i 0.2) t) read_result_new;
                r = set_sample 1 (good_sample (fm_accel_y_id d) ''g'' (wave (w_cos w1) 0 0.1 i 0.2) t) r;
                r = set_sample 2 (good_sample (fm_accel_z_id d) ''g'' (wave (w_sin w1) 1 0.05 i 0.1) t) r
            in (r\<lparr>rr_sample_count := 3\<rparr>, d\<lparr>fm_sample_index := i + 1\<rparr>, w1))))"

interpretation fake_mpu6050: sensor_driver fake_mpu6050_configure fake_mpu6050_read fm_configured
  by unfold_locales
     (auto simp: fake_mpu6050_read_def fake_mpu6050_configure_def Let_def read_result_new_def kMaxSamples_def
        wf_read_def set_sample_def split: prod.splits sum.splits if_splits)

section \<open>The fake light sensor\<close>

record fake_tsl2561 =
  ft_configured :: bool
  ft_lux_id :: string
  ft_sample_index :: "64 word"

definition fake_tsl2561_new :: fake_tsl2561 where
  "fake_tsl2561_new = \<lparr>ft_configured = False, ft_lux_id = ''lux'', ft_sample_index = 0\<rparr>"

definition fake_tsl2561_name :: string where
  "fake_tsl2561_name = ''fake-tsl2561''"

definition fake_tsl2561_configure :: "json \<Rightarrow> fake_tsl2561 \<times> world \<Rightarrow> cpp_exn option \<times> fake_tsl2561 \<times> world" where
  "fake_tsl2561_configure p = (\<lambda>(d, w).
     (case json_text_field p ''lux_id'' (ft_lux_id d) of
        Inl e \<Rightarrow> (Some e, d, w)
      | Inr t \<Rightarrow> (None, d\<lparr>ft_lux_id := t, ft_sample_index := 0, ft_configured := True\<rparr>, w)))"

definition fake_tsl2561_write :: "json \<Rightarrow> fake_tsl2561 \<times> world \<Rightarrow> cpp_exn option \<times> fake_tsl2561 \<times> world" where
  "fake_tsl2561_write command s = (None, s)"

definition fake_tsl2561_read :: "fake_tsl2561 \<times> world \<Rightarrow> read_result \<times> fake_tsl2561 \<times> world" where
  "fake_tsl2561_read = (\<lambda>(d, w).
     (if \<not> ft_configured d then (read_result_new, d, w)
      else (let (t, w1) = system_now w;
                i = ft_sample_index d;
                r = set_sample 0 (good_sample (ft_lux_id d) ''lux'' (wave (w_sin w1) 500 200 i 0.05) t) read_result_new
            in (r\<lparr>rr_sample_count := 1\<rparr>, d\<lparr>ft_sample_index := i + 1\<rparr>, w1))))"

interpretation fake_tsl2561: sensor_driver fake_tsl2561_configure fake_tsl2561_read ft_configured
  by unfold_locales
     (auto simp: fake_tsl2561_read_def fake_tsl2561_configure_def Let_def read_result_new_def kMaxSamples_def
        wf_read_def set_sample_def split: prod.splits sum.splits if_splits)

section \<open>Properties\<close>

fun reads :: "nat \<Rightarrow> ('d \<times> world \<Rightarrow> read_result \<times> 'd \<times> world) \<Rightarrow> 'd \<times> world \<Rightarrow> 'd \<times> world" where
  "reads 0 sense s = s"
| "reads (Suc n) sense s = reads n sense (snd (sense s))"

lemma sim_reads_state:
  "sim_configured d \<Longrightarrow>
   \<exists>w'. reads n sim_read (d, w) = (d\<lparr>sim_sample_index := sim_sample_index d + of_nat n\<rparr>, w')"
proof (induction n arbitrary: d w)
  case (Suc n)
  let ?d = "d\<lparr>sim_sample_index := sim_sample_index d + 1\<rparr>"
  obtain w1 where "snd (sim_read (d, w)) = (?d, w1)"
    using Suc.prems by (cases "system_now w") (auto simp: sim_read_def Let_def)
  then show ?case using Suc.IH [of ?d w1] Suc.prems by (simp add: ac_simps)
qed simp

text \<open>
  The simulated sensor is a deterministic ramp: after \<open>configure\<close> its \<open>n\<close>-th reading (counted
  from zero, for every \<open>n\<close> a 64-bit counter can hold) is one good sample of the configured channel
  with the value \<open>base_value + n * step\<close> of double arithmetic.
\<close>

theorem sim_nth_reading:
  assumes "sim_configure p (d0, w0) = (None, d, w)" "n < 2 ^ 64"
  shows "let (r, d', w') = sim_read (reads n sim_read (d, w)) in
           rr_sample_count r = 1 \<and>
           sa_channel_id (rr_samples r ! 0) = sim_channel_id d \<and> sim_channel_id d \<noteq> [] \<and>
           sa_value (rr_samples r ! 0)
             = d_add (sim_base_value d) (d_mul (d64 (of_nat n)) (sim_step d)) \<and>
           sa_quality (rr_samples r ! 0) = KGood"
proof -
  have d: "sim_configured d" "sim_sample_index d = 0" "sim_channel_id d \<noteq> []"
    using assms(1) by (auto simp: sim_configure_def Let_def split: option.splits if_splits)
  obtain w' where r: "reads n sim_read (d, w) = (d\<lparr>sim_sample_index := of_nat n\<rparr>, w')"
    using sim_reads_state [OF d(1), of n w] d(2) by auto
  have "uint (of_nat n :: 64 word) = int n" using assms(2)
    by (simp only: unsigned_of_nat) (simp add: take_bit_nat_eq_self)
  then have "index_double (of_nat n) = d64 (of_nat n)" by (simp add: index_double_def)
  moreover have "sim_read (d\<lparr>sim_sample_index := of_nat n\<rparr>, w') =
      ((set_sample 0 \<lparr>sa_channel_id = sim_channel_id d,
          sa_value = d_add (sim_base_value d) (d_mul (index_double (of_nat n)) (sim_step d)),
          sa_timestamp = fst (system_now w'), sa_unit = sim_unit d, sa_quality = KGood\<rparr> read_result_new)
         \<lparr>rr_sample_count := 1\<rparr>, d\<lparr>sim_sample_index := of_nat n + 1\<rparr>, snd (system_now w'))"
    using d(1) by (simp add: sim_read_def case_prod_beta Let_def)
  ultimately show ?thesis using d(3)
    by (simp add: r set_sample_def read_result_new_def kMaxSamples_def)
qed

theorem sim_nth_reading_witness:
  "let (e, d, w) = sim_configure (JObject [(''channel_id'', JString ''ramp''), (''step'', JDouble (d64 0.5))]) (sim_new, w0)
   in e = None \<and> sa_value (rr_samples (fst (sim_read (reads 7 sim_read (d, w)))) ! 0) = Fin 3.5"
proof -
  let ?p = "JObject [(''channel_id'', JString ''ramp''), (''step'', JDouble (d64 0.5))]"
  let ?d = "sim_new\<lparr>sim_channel_id := ''ramp'', sim_step := d64 0.5, sim_configured := True\<rparr>"
  have c: "sim_configure ?p (sim_new, w0) = (None, ?d, w0)"
    by (simp add: sim_configure_def sim_new_def Let_def)
  have "d_add (Fin 0) (d_mul (d64 7) (d64 0.5)) = Fin 3.5" by code_simp
  then have "d_add (sim_base_value ?d) (d_mul (d64 (of_nat 7)) (sim_step ?d)) = Fin 3.5"
    by (simp add: sim_new_def)
  then show ?thesis using sim_nth_reading [OF c, of 7] c by (simp add: case_prod_beta Let_def)
qed

lemma wave_between:
  assumes "\<And>x. \<exists>r. f x = Fin r \<and> \<bar>r\<bar> \<le> 1" "d64 m = Fin m" "d64 a = Fin a"
    and "d64 (m - a) = Fin (m - a)" "d64 (m + a) = Fin (m + a)" "0 < a" "a < m" "m + a \<le> 2 powi 1023"
  shows "\<exists>r. wave f m a i rate = Fin r \<and> m - a \<le> r \<and> r \<le> m + a"
proof -
  obtain s where s: "f (d_mul (index_double i) (d64 rate)) = Fin s" "\<bar>s\<bar> \<le> 1" using assms(1) by blast
  have "\<bar>a * s\<bar> \<le> a" using s(2) assms(6) by (simp add: abs_mult mult_left_le)
  then obtain r where r: "d64 (a * s) = Fin r" "\<bar>r\<bar> \<le> a"
    using d64_abs_le [of "a * s" a] assms by fastforce
  then have "m - a \<le> m + r" "m + r \<le> m + a" by (simp_all add: abs_le_iff)
  then show ?thesis
    using d64_between [of "m - a" "m + r" "m + a"] assms r s by (simp add: wave_def)
qed

definition unit_range :: "(double \<Rightarrow> double) \<Rightarrow> bool" where
  \<comment> \<open>what \<open>sin\<close> and \<open>cos\<close> of the C library promise: a finite value of magnitude at most one\<close>
  "unit_range f \<longleftrightarrow> (\<forall>x. \<exists>r. f x = Fin r \<and> \<bar>r\<bar> \<le> 1)"

definition ex_trig_world :: world where
  "ex_trig_world =
     \<lparr>w_steady = (\<lambda>_. 0), w_steady_n = 0, w_system = (\<lambda>_. 0), w_system_n = 0, w_disk = (\<lambda>_. None),
      w_sqlite = \<lparr>sq_open = (\<lambda>_ _ d. (SqlOk, d)), sq_close = (\<lambda>_ _ d. d), sq_exec = (\<lambda>_ _ _ d. (SqlOk, d)),
                  sq_run = (\<lambda>_ _ _ _ d. (PrepareFailed [], d))\<rparr>,
      w_sql_n = 0, w_mkdir = (\<lambda>_. None),
      w_reply = (\<lambda>_. \<lparr>hr_status_code = 0, hr_body = [], hr_error = []\<rparr>), w_posts = [],
      w_dump = (\<lambda>_. None), w_json_int = (\<lambda>_. None), w_sin = (\<lambda>_. Fin 0), w_cos = (\<lambda>_. Fin 1),
      w_open_device = (\<lambda>_ _. 3), w_ioctl = (\<lambda>_ _. (0, [])), w_device_n = 0, w_undefined = False\<rparr>"

text \<open>
  The fake BME280 stays within its advertised ranges for ever: every reading has three good
  samples with a temperature of 20 to 24, a humidity of 40 to 50 and a pressure of 1012.25 to
  1014.25, rounding included, given that \<open>sin\<close> and \<open>cos\<close> return values between -1 and 1.
\<close>

theorem fake_bme280_ranges:
  assumes "fb_configured d" "unit_range (w_sin w)" "unit_range (w_cos w)"
    and "fake_bme280_read (d, w) = (r, s)"
  shows "rr_sample_count r = 3 \<and>
    (\<exists>t h p. map sa_value (take 3 (rr_samples r)) = [Fin t, Fin h, Fin p] \<and>
       20 \<le> t \<and> t \<le> 24 \<and> 40 \<le> h \<and> h \<le> 50 \<and> 1012.25 \<le> p \<and> p \<le> 1014.25)"
proof -
  let ?i = "fb_sample_index d"
  have f: "d64 22 = Fin 22" "d64 2 = Fin 2" "d64 20 = Fin 20" "d64 24 = Fin 24" "d64 45 = Fin 45"
    "d64 5 = Fin 5" "d64 40 = Fin 40" "d64 50 = Fin 50" "d64 1013.25 = Fin 1013.25" "d64 1 = Fin 1"
    "d64 1012.25 = Fin 1012.25" "d64 1014.25 = Fin 1014.25" by code_simp+
  have big: "x \<le> 2 powi 1023" if "x \<le> 2 ^ 11" for x :: rat
  proof -
    have "(2 :: rat) ^ 11 = 2 powi 11" by simp
    also have "\<dots> \<le> 2 powi 1023" by (simp only: powi2_le_iff)
    finally show ?thesis using that by simp
  qed
  have u: "\<And>x. \<exists>r. w_sin w x = Fin r \<and> \<bar>r\<bar> \<le> 1" "\<And>x. \<exists>r. w_cos w x = Fin r \<and> \<bar>r\<bar> \<le> 1"
    using assms(2,3) by (simp_all add: unit_range_def)
  obtain t where t: "wave (w_sin w) 22 2 ?i 0.1 = Fin t" "20 \<le> t" "t \<le> 24"
    using wave_between [where f = "w_sin w" and m = 22 and a = 2 and i = ?i and rate = "0.1", OF u(1)] f big [of 24] by auto
  obtain h where h: "wave (w_cos w) 45 5 ?i 0.1 = Fin h" "40 \<le> h" "h \<le> 50"
    using wave_between [where f = "w_cos w" and m = 45 and a = 5 and i = ?i and rate = "0.1", OF u(2)] f big [of 50] by auto
  obtain p where p: "wave (w_sin w) 1013.25 1 ?i 0.05 = Fin p" "1012.25 \<le> p" "p \<le> 1014.25"
    using wave_between [where f = "w_sin w" and m = "1013.25" and a = 1 and i = ?i and rate = "0.05", OF u(1)] f big [of "1014.25"] by auto
  show ?thesis using assms(1,4) t h p
    by (auto simp: fake_bme280_read_def Let_def system_now_def set_sample_def read_result_new_def
        kMaxSamples_def good_sample_def numeral_eq_Suc)
qed

theorem fake_bme280_ranges_witness:
  "\<exists>t h p. map sa_value (take 3 (rr_samples (fst (fake_bme280_read
       (fake_bme280_new\<lparr>fb_configured := True\<rparr>, ex_trig_world))))) = [Fin t, Fin h, Fin p] \<and> 40 \<le> h"
proof -
  have h: "fb_configured (fake_bme280_new\<lparr>fb_configured := True\<rparr>)"
    "unit_range (w_sin ex_trig_world)" "unit_range (w_cos ex_trig_world)"
    by (simp_all add: unit_range_def ex_trig_world_def)
  from fake_bme280_ranges [OF h prod.collapse [symmetric]] obtain t hum p where
    "map sa_value (take 3 (rr_samples (fst (fake_bme280_read
       (fake_bme280_new\<lparr>fb_configured := True\<rparr>, ex_trig_world))))) = [Fin t, Fin hum, Fin p]" "40 \<le> hum"
    by (elim conjE exE) simp
  then show ?thesis by (intro exI [of _ t] exI [of _ hum] exI [of _ p]) simp
qed

end
