(* ===== verification/Config.thy ===== *)
theory Config
  imports Drivers "HOL-Library.AList"
begin

text \<open>
  Loading the configuration, \<open>src/core/config.cpp\<close>: the checks on the parsed YAML tree, in their
  order, with the three outcomes a call can have (a configuration, an error message, an exception
  that leaves \<open>load_config\<close>). The file system and yaml-cpp are parameters: what a file holds, the
  tree it parses to, and what \<open>as<T>()\<close> makes of a node (nothing when it throws).
\<close>

section \<open>YAML trees\<close>

datatype yaml =
    YUndefined
  | YNull
  | YScalar string
  | YSequence "yaml list"
  | YMap "(yaml \<times> yaml) list"

record yaml_cpp =
  yc_string :: "yaml \<Rightarrow> string option"
  yc_bool :: "yaml \<Rightarrow> bool option"
  yc_int :: "yaml \<Rightarrow> int option"
  yc_double :: "yaml \<Rightarrow> double option"

fun y_defined :: "yaml \<Rightarrow> bool" where
  "y_defined YUndefined = False"
| "y_defined _ = True"

fun y_is_scalar :: "yaml \<Rightarrow> bool" where
  "y_is_scalar (YScalar _) = True"
| "y_is_scalar _ = False"

fun y_is_map :: "yaml \<Rightarrow> bool" where
  "y_is_map (YMap _) = True"
| "y_is_map _ = False"

fun y_is_sequence :: "yaml \<Rightarrow> bool" where
  "y_is_sequence (YSequence _) = True"
| "y_is_sequence _ = False"

fun y_items :: "yaml \<Rightarrow> yaml list" where
  "y_items (YSequence items) = items"
| "y_items _ = []"

fun y_at :: "yaml \<Rightarrow> string \<Rightarrow> yaml" where
  \<comment> \<open>\<open>node["key"]\<close> of a mapping\<close>
  "y_at (YMap members) key =
     (case find (\<lambda>(k, _). k = YScalar key) members of None \<Rightarrow> YUndefined | Some (_, v) \<Rightarrow> v)"
| "y_at _ key = YUndefined"

section \<open>The configuration\<close>

record node_config =
  nd_id :: string
  nd_api_key_file :: string

record server_config =
  sv_url :: string
  sv_upload_timeout_seconds :: int
  sv_max_batch_size :: int

record local_storage_config =
  lc_path :: string
  lc_max_size_megabytes :: int
  lc_retention_hours :: int

record channel_sync_config =
  sy_destination_local :: bool
  sy_destination_remote :: bool
  sy_remote_interval_seconds :: int
  sy_priority :: priority
  sy_mode :: sync_mode
  sy_on_change_threshold :: double

record channel_config =
  ch_id :: string
  ch_driver :: string
  ch_parameters :: json
  ch_sample_rate_hz :: double
  ch_sync :: channel_sync_config

record config =
  cfg_version :: int
  cfg_node :: node_config
  cfg_server :: server_config
  cfg_local_storage :: local_storage_config
  cfg_channels :: "channel_config list"

definition config_new :: config where
  "config_new =
     \<lparr>cfg_version = 0, cfg_node = \<lparr>nd_id = [], nd_api_key_file = []\<rparr>,
      cfg_server = \<lparr>sv_url = [], sv_upload_timeout_seconds = 30, sv_max_batch_size = 500\<rparr>,
      cfg_local_storage = \<lparr>lc_path = ''/var/lib/bossa/telemetry.db'', lc_max_size_megabytes = 256,
                           lc_retention_hours = 72\<rparr>,
      cfg_channels = []\<rparr>"

definition channel_sync_config_new :: channel_sync_config where
  "channel_sync_config_new =
     \<lparr>sy_destination_local = True, sy_destination_remote = True, sy_remote_interval_seconds = 60,
      sy_priority = KNormal, sy_mode = KBatch, sy_on_change_threshold = Fin 0\<rparr>"

definition channel_config_new :: channel_config where
  "channel_config_new =
     \<lparr>ch_id = [], ch_driver = [], ch_parameters = JObject [], ch_sample_rate_hz = Fin 1,
      ch_sync = channel_sync_config_new\<rparr>"

datatype load_result = LoadOk config | LoadFail string

type_synonym loaded = "cpp_exn + load_result"

section \<open>The reserved node\<close>

definition kReservedTestNodeId :: string where
  "kReservedTestNodeId = ''bossa-test-00000000''"

definition is_reserved_test_node :: "string \<Rightarrow> bool" where
  "is_reserved_test_node node_id \<longleftrightarrow> node_id = kReservedTestNodeId"

section \<open>Conversions that may throw\<close>

fun need :: "'a option \<Rightarrow> ('a \<Rightarrow> cpp_exn + 'b) \<Rightarrow> cpp_exn + 'b" where
  \<comment> \<open>the value of an \<open>as<T>()\<close>, or the exception it throws\<close>
  "need None f = Inl YamlBadConversion"
| "need (Some x) f = f x"

fun next_step :: "loaded \<Rightarrow> (config \<Rightarrow> loaded) \<Rightarrow> loaded" where
  \<comment> \<open>go on with the configuration of a successful step\<close>
  "next_step (Inl e) f = Inl e"
| "next_step (Inr (LoadFail m)) f = Inr (LoadFail m)"
| "next_step (Inr (LoadOk c)) f = f c"

definition kSupportedConfigVersion :: int where
  "kSupportedConfigVersion = 1"

definition kMaxConfigBytes :: nat where
  "kMaxConfigBytes = 1024 * 1024"

definition is_non_empty_string :: "yaml_cpp \<Rightarrow> yaml \<Rightarrow> (bool \<Rightarrow> cpp_exn + 'b) \<Rightarrow> cpp_exn + 'b" where
  "is_non_empty_string yc node f =
     (if y_defined node \<and> y_is_scalar node then need (yc_string yc node) (\<lambda>s. f (s \<noteq> [])) else f False)"

fun show_nat :: "nat \<Rightarrow> string" where
  "show_nat n = (if n < 10 then [char_of (48 + n)] else show_nat (n div 10) @ [char_of (48 + n mod 10)])"

declare show_nat.simps [simp del]

definition show_int :: "int \<Rightarrow> string" where
  "show_int n = (if n < 0 then ''-'' @ show_nat (nat (- n)) else show_nat (nat n))"

definition parse_priority :: "string \<Rightarrow> priority option" where
  "parse_priority s =
     (if s = ''low'' then Some KLow
      else if s = ''normal'' then Some KNormal
      else if s = ''critical'' then Some KCritical
      else None)"

definition parse_sync_mode :: "string \<Rightarrow> sync_mode option" where
  "parse_sync_mode s =
     (if s = ''batch'' then Some KBatch
      else if s = ''realtime'' then Some KRealtime
      else if s = ''on_change'' then Some KOnChange
      else None)"

fun yaml_to_json :: "yaml_cpp \<Rightarrow> yaml \<Rightarrow> cpp_exn + json"
  and yaml_items_to_json :: "yaml_cpp \<Rightarrow> yaml list \<Rightarrow> cpp_exn + json list"
  and yaml_members_to_json :: "yaml_cpp \<Rightarrow> (yaml \<times> yaml) list \<Rightarrow> (string \<times> json) list \<Rightarrow>
         cpp_exn + (string \<times> json) list"
where
  "yaml_to_json yc YUndefined = Inr JNull"
| "yaml_to_json yc YNull = Inr JNull"
| "yaml_to_json yc (YScalar s) =
     (case yc_bool yc (YScalar s) of
        Some b \<Rightarrow> Inr (JBool b)
      | None \<Rightarrow> (case yc_int yc (YScalar s) of
          Some i \<Rightarrow> Inr (JInt i)
        | None \<Rightarrow> (case yc_double yc (YScalar s) of
            Some d \<Rightarrow> Inr (JDouble d)
          | None \<Rightarrow> need (yc_string yc (YScalar s)) (\<lambda>t. Inr (JString t)))))"
| "yaml_to_json yc (YSequence items) =
     (case yaml_items_to_json yc items of Inl e \<Rightarrow> Inl e | Inr js \<Rightarrow> Inr (JArray js))"
| "yaml_to_json yc (YMap members) =
     (case yaml_members_to_json yc members [] of Inl e \<Rightarrow> Inl e | Inr fs \<Rightarrow> Inr (JObject fs))"
| "yaml_items_to_json yc [] = Inr []"
| "yaml_items_to_json yc (y # ys) =
     (case yaml_to_json yc y of
        Inl e \<Rightarrow> Inl e
      | Inr j \<Rightarrow> (case yaml_items_to_json yc ys of Inl e \<Rightarrow> Inl e | Inr js \<Rightarrow> Inr (j # js)))"
| "yaml_members_to_json yc [] fs = Inr fs"
| "yaml_members_to_json yc ((k, v) # ms) fs =
     (case yaml_to_json yc v of
        Inl e \<Rightarrow> Inl e
      | Inr j \<Rightarrow> need (yc_string yc k) (\<lambda>key. yaml_members_to_json yc ms (AList.update key j fs)))"

section \<open>The sections of the file\<close>

definition positive_int :: "yaml_cpp \<Rightarrow> yaml \<Rightarrow> string \<Rightarrow> config \<Rightarrow> (int \<Rightarrow> config) \<Rightarrow> loaded" where
  \<comment> \<open>an optional integer that must be positive: store it, then check it\<close>
  "positive_int yc node message c store =
     (if y_defined node
      then need (yc_int yc node) (\<lambda>n. if n \<le> 0 then Inr (LoadFail message) else Inr (LoadOk (store n)))
      else Inr (LoadOk c))"

definition non_empty_text :: "yaml_cpp \<Rightarrow> yaml \<Rightarrow> string \<Rightarrow> config \<Rightarrow> (string \<Rightarrow> config) \<Rightarrow> loaded" where
  \<comment> \<open>an optional string that must not be empty\<close>
  "non_empty_text yc node message c store =
     (if y_defined node
      then is_non_empty_string yc node (\<lambda>ok.
             if \<not> ok then Inr (LoadFail message) else need (yc_string yc node) (\<lambda>s. Inr (LoadOk (store s))))
      else Inr (LoadOk c))"

definition parse_server :: "yaml_cpp \<Rightarrow> yaml \<Rightarrow> config \<Rightarrow> loaded" where
  "parse_server yc document c =
     (let server = y_at document ''server'' in
      if \<not> y_defined server then Inr (LoadOk c)
      else if \<not> y_is_map server then Inr (LoadFail ''server must be a mapping'')
      else
        next_step (non_empty_text yc (y_at server ''url'') ''server.url must be a non-empty string'' c
                     (\<lambda>s. c\<lparr>cfg_server := (cfg_server c)\<lparr>sv_url := s\<rparr>\<rparr>)) (\<lambda>c.
        next_step (positive_int yc (y_at server ''upload_timeout_seconds'')
                     ''server.upload_timeout_seconds must be > 0'' c
                     (\<lambda>n. c\<lparr>cfg_server := (cfg_server c)\<lparr>sv_upload_timeout_seconds := n\<rparr>\<rparr>)) (\<lambda>c.
        positive_int yc (y_at server ''max_batch_size'') ''server.max_batch_size must be > 0'' c
                     (\<lambda>n. c\<lparr>cfg_server := (cfg_server c)\<lparr>sv_max_batch_size := n\<rparr>\<rparr>))))"

definition parse_local_storage :: "yaml_cpp \<Rightarrow> yaml \<Rightarrow> config \<Rightarrow> loaded" where
  "parse_local_storage yc document c =
     (let storage = y_at document ''local_storage'' in
      if \<not> y_defined storage then Inr (LoadOk c)
      else if \<not> y_is_map storage then Inr (LoadFail ''local_storage must be a mapping'')
      else
        next_step (non_empty_text yc (y_at storage ''path'') ''local_storage.path must be a non-empty string'' c
                     (\<lambda>s. c\<lparr>cfg_local_storage := (cfg_local_storage c)\<lparr>lc_path := s\<rparr>\<rparr>)) (\<lambda>c.
        next_step (positive_int yc (y_at storage ''max_size_megabytes'')
                     ''local_storage.max_size_megabytes must be > 0'' c
                     (\<lambda>n. c\<lparr>cfg_local_storage := (cfg_local_storage c)\<lparr>lc_max_size_megabytes := n\<rparr>\<rparr>)) (\<lambda>c.
        positive_int yc (y_at storage ''retention_hours'') ''local_storage.retention_hours must be > 0'' c
                     (\<lambda>n. c\<lparr>cfg_local_storage := (cfg_local_storage c)\<lparr>lc_retention_hours := n\<rparr>\<rparr>))))"

section \<open>Channels\<close>

definition at_channel :: "nat \<Rightarrow> string \<Rightarrow> loaded" where
  \<comment> \<open>the error message of the channel with that index\<close>
  "at_channel index message = Inr (LoadFail (''channels['' @ show_nat index @ '']'' @ message))"

datatype channel_result = ChannelOk channel_config | ChannelFail string

type_synonym channel_loaded = "cpp_exn + channel_result"

fun channel_step :: "channel_loaded \<Rightarrow> (channel_config \<Rightarrow> channel_loaded) \<Rightarrow> channel_loaded" where
  "channel_step (Inl e) f = Inl e"
| "channel_step (Inr (ChannelFail m)) f = Inr (ChannelFail m)"
| "channel_step (Inr (ChannelOk ch)) f = f ch"

definition set_sync :: "(channel_sync_config \<Rightarrow> channel_sync_config) \<Rightarrow> channel_config \<Rightarrow> channel_config" where
  "set_sync f ch = ch\<lparr>ch_sync := f (ch_sync ch)\<rparr>"

fun parse_destinations :: "yaml_cpp \<Rightarrow> yaml list \<Rightarrow> channel_config \<Rightarrow> channel_loaded" where
  "parse_destinations yc [] ch = Inr (ChannelOk ch)"
| "parse_destinations yc (destination # rest) ch =
     need (yc_string yc destination) (\<lambda>value.
       if value = ''local'' then parse_destinations yc rest (set_sync (sy_destination_local_update (\<lambda>_. True)) ch)
       else if value = ''remote'' then parse_destinations yc rest (set_sync (sy_destination_remote_update (\<lambda>_. True)) ch)
       else Inr (ChannelFail ''.sync.destinations contains unknown value''))"

text \<open>The optional fields of \<open>sync\<close>, each with the channel it leaves.\<close>

definition sync_destinations :: "yaml_cpp \<Rightarrow> yaml \<Rightarrow> channel_config \<Rightarrow> channel_loaded" where
  "sync_destinations yc node ch =
     (if \<not> y_defined node then Inr (ChannelOk ch)
      else if \<not> y_is_sequence node then Inr (ChannelFail ''.sync.destinations must be a sequence'')
      else parse_destinations yc (y_items node)
             (set_sync (\<lambda>s. s\<lparr>sy_destination_local := False, sy_destination_remote := False\<rparr>) ch))"

definition sync_interval :: "yaml_cpp \<Rightarrow> yaml \<Rightarrow> channel_config \<Rightarrow> channel_loaded" where
  "sync_interval yc node ch =
     (if \<not> y_defined node then Inr (ChannelOk ch)
      else need (yc_int yc node) (\<lambda>n.
        if n \<le> 0 then Inr (ChannelFail ''.sync.remote_interval_seconds must be > 0'')
        else Inr (ChannelOk (set_sync (sy_remote_interval_seconds_update (\<lambda>_. n)) ch))))"

definition sync_priority :: "yaml_cpp \<Rightarrow> yaml \<Rightarrow> channel_config \<Rightarrow> channel_loaded" where
  "sync_priority yc node ch =
     (if \<not> y_defined node then Inr (ChannelOk ch)
      else need (yc_string yc node) (\<lambda>s.
        case parse_priority s of
          None \<Rightarrow> Inr (ChannelFail ''.sync.priority must be low|normal|critical'')
        | Some p \<Rightarrow> Inr (ChannelOk (set_sync (sy_priority_update (\<lambda>_. p)) ch))))"

definition sync_mode_field :: "yaml_cpp \<Rightarrow> yaml \<Rightarrow> channel_config \<Rightarrow> channel_loaded" where
  "sync_mode_field yc node ch =
     (if \<not> y_defined node then Inr (ChannelOk ch)
      else need (yc_string yc node) (\<lambda>s.
        case parse_sync_mode s of
          None \<Rightarrow> Inr (ChannelFail ''.sync.mode must be batch|realtime|on_change'')
        | Some m \<Rightarrow> Inr (ChannelOk (set_sync (sy_mode_update (\<lambda>_. m)) ch))))"

definition sync_threshold :: "yaml_cpp \<Rightarrow> yaml \<Rightarrow> channel_config \<Rightarrow> channel_loaded" where
  "sync_threshold yc node ch =
     (if \<not> y_defined node then Inr (ChannelOk ch)
      else need (yc_double yc node) (\<lambda>d.
        Inr (ChannelOk (set_sync (sy_on_change_threshold_update (\<lambda>_. d)) ch))))"

definition parse_sync :: "yaml_cpp \<Rightarrow> yaml \<Rightarrow> channel_config \<Rightarrow> channel_loaded" where
  "parse_sync yc sync ch =
     channel_step (sync_destinations yc (y_at sync ''destinations'') ch) (\<lambda>ch.
     channel_step (sync_interval yc (y_at sync ''remote_interval_seconds'') ch) (\<lambda>ch.
     channel_step (sync_priority yc (y_at sync ''priority'') ch) (\<lambda>ch.
     channel_step (sync_mode_field yc (y_at sync ''mode'') ch) (\<lambda>ch.
     sync_threshold yc (y_at sync ''on_change_threshold'') ch))))"

definition channel_parameters :: "yaml_cpp \<Rightarrow> yaml \<Rightarrow> channel_config \<Rightarrow> channel_loaded" where
  "channel_parameters yc node ch =
     (if \<not> y_defined node then Inr (ChannelOk ch)
      else (case yaml_to_json yc node of
              Inl e \<Rightarrow> Inl e
            | Inr j \<Rightarrow> Inr (ChannelOk (ch\<lparr>ch_parameters := j\<rparr>))))"

definition channel_sync :: "yaml_cpp \<Rightarrow> yaml \<Rightarrow> channel_config \<Rightarrow> channel_loaded" where
  "channel_sync yc node ch =
     (if \<not> y_defined node then Inr (ChannelOk ch)
      else if \<not> y_is_map node then Inr (ChannelFail ''.sync must be a mapping'')
      else parse_sync yc node ch)"

definition parse_channel :: "yaml_cpp \<Rightarrow> yaml \<Rightarrow> channel_loaded" where
  "parse_channel yc node =
     (if \<not> y_is_map node then Inr (ChannelFail '' must be a mapping'')
      else is_non_empty_string yc (y_at node ''id'') (\<lambda>id_ok.
        if \<not> id_ok then Inr (ChannelFail ''.id must be a non-empty string'')
        else is_non_empty_string yc (y_at node ''driver'') (\<lambda>driver_ok.
          if \<not> driver_ok then Inr (ChannelFail ''.driver must be a non-empty string'')
          else if \<not> y_defined (y_at node ''sample_rate_hz'')
          then Inr (ChannelFail ''.sample_rate_hz is required'')
          else need (yc_string yc (y_at node ''id'')) (\<lambda>cid.
               need (yc_string yc (y_at node ''driver'')) (\<lambda>driver.
               need (yc_double yc (y_at node ''sample_rate_hz'')) (\<lambda>rate.
            if \<not> d_less (Fin 0) rate then Inr (ChannelFail ''.sample_rate_hz must be > 0'')
            else
              channel_step (channel_parameters yc (y_at node ''parameters'')
                  (channel_config_new\<lparr>ch_id := cid, ch_driver := driver, ch_sample_rate_hz := rate\<rparr>)) (\<lambda>ch.
              channel_sync yc (y_at node ''sync'') ch)))))))"

fun parse_channel_list :: "yaml_cpp \<Rightarrow> nat \<Rightarrow> yaml list \<Rightarrow> config \<Rightarrow> loaded" where
  "parse_channel_list yc index [] c = Inr (LoadOk c)"
| "parse_channel_list yc index (node # nodes) c =
     (case parse_channel yc node of
        Inl e \<Rightarrow> Inl e
      | Inr (ChannelFail message) \<Rightarrow> at_channel index message
      | Inr (ChannelOk ch) \<Rightarrow>
          parse_channel_list yc (Suc index) nodes (c\<lparr>cfg_channels := cfg_channels c @ [ch]\<rparr>))"

definition parse_channels :: "yaml_cpp \<Rightarrow> yaml \<Rightarrow> config \<Rightarrow> loaded" where
  "parse_channels yc document c =
     (let channels = y_at document ''channels'' in
      if \<not> y_defined channels then Inr (LoadOk c)
      else if \<not> y_is_sequence channels then Inr (LoadFail ''channels must be a sequence'')
      else parse_channel_list yc 0 (y_items channels) c)"

section \<open>The file\<close>

text \<open>What the file system says of a path, and what the YAML parser makes of a text.\<close>

record file_system =
  fs_exists :: "string \<Rightarrow> bool option"        \<comment> \<open>nothing: the call throws\<close>
  fs_size :: "string \<Rightarrow> nat option"
  fs_open :: "string \<Rightarrow> bool"
  fs_read :: "string \<Rightarrow> string option"         \<comment> \<open>nothing: the stream went bad before the end\<close>
  fs_yaml :: "string \<Rightarrow> string + yaml"         \<comment> \<open>\<open>YAML::Load\<close>: the message of the exception, or the tree\<close>

definition check_document :: "yaml_cpp \<Rightarrow> yaml \<Rightarrow> loaded" where
  \<comment> \<open>\<open>load_config\<close> from the parsed tree on\<close>
  "check_document yc document =
     (if \<not> y_defined document \<or> \<not> y_is_map document then Inr (LoadFail ''config root must be a mapping'')
      else if \<not> y_defined (y_at document ''config_version'')
      then Inr (LoadFail ''missing required field: config_version'')
      else need (yc_int yc (y_at document ''config_version'')) (\<lambda>config_version.
        if config_version \<noteq> kSupportedConfigVersion
        then Inr (LoadFail (''unsupported config_version: '' @ show_int config_version))
        else if \<not> y_defined (y_at document ''node'') \<or> \<not> y_is_map (y_at document ''node'')
        then Inr (LoadFail ''missing required field: node'')
        else (let node = y_at document ''node'' in
          is_non_empty_string yc (y_at node ''id'') (\<lambda>id_ok.
            if \<not> id_ok then Inr (LoadFail ''node.id must be a non-empty string'')
            else is_non_empty_string yc (y_at node ''api_key_file'') (\<lambda>key_ok.
              if \<not> key_ok then Inr (LoadFail ''node.api_key_file must be a non-empty string'')
              else need (yc_string yc (y_at node ''id'')) (\<lambda>nid.
                   need (yc_string yc (y_at node ''api_key_file'')) (\<lambda>key_file.
                     (let c = config_new\<lparr>cfg_version := config_version,
                                         cfg_node := \<lparr>nd_id = nid, nd_api_key_file = key_file\<rparr>\<rparr>
                      in next_step (parse_server yc document c) (\<lambda>c.
                         next_step (parse_local_storage yc document c) (\<lambda>c.
                         parse_channels yc document c)))))))))) "

definition load_config :: "yaml_cpp \<Rightarrow> file_system \<Rightarrow> string \<Rightarrow> loaded" where
  "load_config yc fs path =
     (if path = [] then Inr (LoadFail ''config path is empty'')
      else (case fs_exists fs path of
        None \<Rightarrow> Inl (RuntimeError ''filesystem error'')
      | Some False \<Rightarrow> Inr (LoadFail (''config file not found: '' @ path))
      | Some True \<Rightarrow> (case fs_size fs path of
          None \<Rightarrow> Inr (LoadFail (''cannot read config file size: '' @ path))
        | Some file_size \<Rightarrow>
            (if kMaxConfigBytes < file_size
             then Inr (LoadFail (''config file exceeds size limit: '' @ path))
             else if \<not> fs_open fs path then Inr (LoadFail (''cannot open config file: '' @ path))
             else (case fs_read fs path of
               None \<Rightarrow> Inr (LoadFail (''error reading config file: '' @ path))
             | Some contents \<Rightarrow> (case fs_yaml fs contents of
                 Inl what \<Rightarrow> Inr (LoadFail (''YAML parse error: '' @ what))
               | Inr document \<Rightarrow> check_document yc document))))))"

section \<open>What a loaded configuration satisfies\<close>

definition valid_channel :: "channel_config \<Rightarrow> bool" where
  "valid_channel ch \<longleftrightarrow> ch_id ch \<noteq> [] \<and> ch_driver ch \<noteq> [] \<and> d_less (Fin 0) (ch_sample_rate_hz ch) \<and>
     0 < sy_remote_interval_seconds (ch_sync ch)"

definition valid_config :: "config \<Rightarrow> bool" where
  "valid_config c \<longleftrightarrow> cfg_version c = kSupportedConfigVersion \<and>
     nd_id (cfg_node c) \<noteq> [] \<and> nd_api_key_file (cfg_node c) \<noteq> [] \<and>
     0 < sv_upload_timeout_seconds (cfg_server c) \<and> 0 < sv_max_batch_size (cfg_server c) \<and>
     lc_path (cfg_local_storage c) \<noteq> [] \<and> 0 < lc_max_size_megabytes (cfg_local_storage c) \<and>
     0 < lc_retention_hours (cfg_local_storage c) \<and> (\<forall>ch \<in> set (cfg_channels c). valid_channel ch)"

lemma need_Inr: "need x f = Inr y \<longleftrightarrow> (\<exists>v. x = Some v \<and> f v = Inr y)"
  by (cases x) simp_all

lemma next_step_ok: "next_step r f = Inr (LoadOk c) \<longleftrightarrow> (\<exists>c'. r = Inr (LoadOk c') \<and> f c' = Inr (LoadOk c))"
  by (cases "(r, f)" rule: next_step.cases) auto

lemma channel_step_ok:
  "channel_step r f = Inr (ChannelOk c) \<longleftrightarrow> (\<exists>c'. r = Inr (ChannelOk c') \<and> f c' = Inr (ChannelOk c))"
  by (cases "(r, f)" rule: channel_step.cases) auto

lemma is_non_empty_string_Inr:
  "is_non_empty_string yc node f = Inr y \<longleftrightarrow>
     (if y_defined node \<and> y_is_scalar node then \<exists>s. yc_string yc node = Some s \<and> f (s \<noteq> []) = Inr y
      else f False = Inr y)"
  by (simp add: is_non_empty_string_def need_Inr)

lemmas load_simps = need_Inr next_step_ok channel_step_ok is_non_empty_string_Inr

text \<open>What holds before an optional field and after storing any admissible value holds after it.\<close>

lemma positive_int_keeps:
  "positive_int yc node m c store = Inr (LoadOk c') \<Longrightarrow> P c \<Longrightarrow> (\<And>n. 0 < n \<Longrightarrow> P (store n)) \<Longrightarrow> P c'"
  by (auto simp: positive_int_def load_simps split: if_splits)

lemma non_empty_text_keeps:
  "non_empty_text yc node m c store = Inr (LoadOk c') \<Longrightarrow> P c \<Longrightarrow> (\<And>s. s \<noteq> [] \<Longrightarrow> P (store s)) \<Longrightarrow> P c'"
  by (auto simp: non_empty_text_def load_simps split: if_splits)

definition valid_server :: "server_config \<Rightarrow> bool" where
  "valid_server s \<longleftrightarrow> 0 < sv_upload_timeout_seconds s \<and> 0 < sv_max_batch_size s"

definition valid_storage :: "local_storage_config \<Rightarrow> bool" where
  "valid_storage s \<longleftrightarrow> lc_path s \<noteq> [] \<and> 0 < lc_max_size_megabytes s \<and> 0 < lc_retention_hours s"

lemma parse_server_ok:
  assumes "parse_server yc document c = Inr (LoadOk c')" "valid_server (cfg_server c)"
  shows "\<exists>s. c' = c\<lparr>cfg_server := s\<rparr> \<and> valid_server s"
proof -
  let ?P = "\<lambda>c'. \<exists>s. c' = c\<lparr>cfg_server := s\<rparr> \<and> valid_server s"
  have start: "?P c" using assms(2) by (intro exI [of _ "cfg_server c"]) simp
  show ?thesis
  proof (cases "y_defined (y_at document ''server'') \<and> y_is_map (y_at document ''server'')")
    case True
    with assms(1) obtain c1 c2 where
      1: "non_empty_text yc (y_at (y_at document ''server'') ''url'') ''server.url must be a non-empty string'' c
            (\<lambda>s. c\<lparr>cfg_server := (cfg_server c)\<lparr>sv_url := s\<rparr>\<rparr>) = Inr (LoadOk c1)" and
      2: "positive_int yc (y_at (y_at document ''server'') ''upload_timeout_seconds'')
            ''server.upload_timeout_seconds must be > 0'' c1
            (\<lambda>n. c1\<lparr>cfg_server := (cfg_server c1)\<lparr>sv_upload_timeout_seconds := n\<rparr>\<rparr>) = Inr (LoadOk c2)" and
      3: "positive_int yc (y_at (y_at document ''server'') ''max_batch_size'')
            ''server.max_batch_size must be > 0'' c2
            (\<lambda>n. c2\<lparr>cfg_server := (cfg_server c2)\<lparr>sv_max_batch_size := n\<rparr>\<rparr>) = Inr (LoadOk c')"
      unfolding parse_server_def Let_def by (auto simp: next_step_ok)
    have "?P c1" by (rule non_empty_text_keeps [where P = ?P, OF 1 start]) (use assms(2) in \<open>auto simp: valid_server_def\<close>)
    then have "?P c2" by (rule positive_int_keeps [OF 2, where P = ?P]) (use \<open>?P c1\<close> in \<open>auto simp: valid_server_def\<close>)
    then show ?thesis
      by (rule positive_int_keeps [OF 3, where P = ?P]) (use \<open>?P c2\<close> in \<open>auto simp: valid_server_def\<close>)
  next
    case False
    then show ?thesis using assms(1) start by (auto simp: parse_server_def Let_def split: if_splits)
  qed
qed

lemma parse_local_storage_ok:
  assumes "parse_local_storage yc document c = Inr (LoadOk c')" "valid_storage (cfg_local_storage c)"
  shows "\<exists>s. c' = c\<lparr>cfg_local_storage := s\<rparr> \<and> valid_storage s"
proof -
  let ?P = "\<lambda>c'. \<exists>s. c' = c\<lparr>cfg_local_storage := s\<rparr> \<and> valid_storage s"
  have start: "?P c" using assms(2) by (intro exI [of _ "cfg_local_storage c"]) simp
  show ?thesis
  proof (cases "y_defined (y_at document ''local_storage'') \<and> y_is_map (y_at document ''local_storage'')")
    case True
    with assms(1) obtain c1 c2 where
      1: "non_empty_text yc (y_at (y_at document ''local_storage'') ''path'')
            ''local_storage.path must be a non-empty string'' c
            (\<lambda>s. c\<lparr>cfg_local_storage := (cfg_local_storage c)\<lparr>lc_path := s\<rparr>\<rparr>) = Inr (LoadOk c1)" and
      2: "positive_int yc (y_at (y_at document ''local_storage'') ''max_size_megabytes'')
            ''local_storage.max_size_megabytes must be > 0'' c1
            (\<lambda>n. c1\<lparr>cfg_local_storage := (cfg_local_storage c1)\<lparr>lc_max_size_megabytes := n\<rparr>\<rparr>) = Inr (LoadOk c2)" and
      3: "positive_int yc (y_at (y_at document ''local_storage'') ''retention_hours'')
            ''local_storage.retention_hours must be > 0'' c2
            (\<lambda>n. c2\<lparr>cfg_local_storage := (cfg_local_storage c2)\<lparr>lc_retention_hours := n\<rparr>\<rparr>) = Inr (LoadOk c')"
      unfolding parse_local_storage_def Let_def by (auto simp: next_step_ok)
    have "?P c1" by (rule non_empty_text_keeps [where P = ?P, OF 1 start]) (use assms(2) in \<open>auto simp: valid_storage_def\<close>)
    then have "?P c2" by (rule positive_int_keeps [OF 2, where P = ?P]) (use \<open>?P c1\<close> in \<open>auto simp: valid_storage_def\<close>)
    then show ?thesis
      by (rule positive_int_keeps [OF 3, where P = ?P]) (use \<open>?P c2\<close> in \<open>auto simp: valid_storage_def\<close>)
  next
    case False
    then show ?thesis using assms(1) start by (auto simp: parse_local_storage_def Let_def split: if_splits)
  qed
qed

text \<open>A step of the channel parser keeps the identity and the validity of the channel it is given.\<close>

definition same_channel :: "channel_config \<Rightarrow> channel_config \<Rightarrow> bool" where
  "same_channel ch ch' \<longleftrightarrow> ch_id ch' = ch_id ch \<and> ch_driver ch' = ch_driver ch \<and>
     ch_sample_rate_hz ch' = ch_sample_rate_hz ch \<and>
     (0 < sy_remote_interval_seconds (ch_sync ch) \<longrightarrow> 0 < sy_remote_interval_seconds (ch_sync ch'))"

lemma same_channel_trans: "same_channel a b \<Longrightarrow> same_channel b c \<Longrightarrow> same_channel a c"
  by (simp add: same_channel_def)

lemma same_channel_refl [simp]: "same_channel ch ch"
  by (simp add: same_channel_def)

lemma same_channel_set_sync:
  "(0 < sy_remote_interval_seconds (ch_sync ch) \<Longrightarrow> 0 < sy_remote_interval_seconds (f (ch_sync ch))) \<Longrightarrow>
   same_channel ch (set_sync f ch)"
  by (simp add: same_channel_def set_sync_def)

lemma parse_destinations_same:
  "parse_destinations yc ds ch = Inr (ChannelOk ch') \<Longrightarrow> same_channel ch ch'"
proof (induction ds arbitrary: ch)
  case (Cons d ds)
  then obtain b where "parse_destinations yc ds (set_sync b ch) = Inr (ChannelOk ch')"
      "\<And>s. sy_remote_interval_seconds (b s) = sy_remote_interval_seconds s"
    by (auto simp: need_Inr split: if_splits)
  then show ?case using Cons.IH same_channel_set_sync [of ch b] same_channel_trans by metis
qed simp

lemma same_channel_step:
  assumes "channel_step r f = Inr (ChannelOk ch')"
    and "\<And>a. r = Inr (ChannelOk a) \<Longrightarrow> same_channel ch a"
    and "\<And>a. f a = Inr (ChannelOk ch') \<Longrightarrow> same_channel a ch'"
  shows "same_channel ch ch'"
  using assms same_channel_trans by (auto simp: channel_step_ok)

lemma sync_field_same:
  "sync_destinations yc node ch = Inr (ChannelOk ch') \<Longrightarrow> same_channel ch ch'"
  "sync_interval yc node ch = Inr (ChannelOk ch') \<Longrightarrow> same_channel ch ch'"
  "sync_priority yc node ch = Inr (ChannelOk ch') \<Longrightarrow> same_channel ch ch'"
  "sync_mode_field yc node ch = Inr (ChannelOk ch') \<Longrightarrow> same_channel ch ch'"
  "sync_threshold yc node ch = Inr (ChannelOk ch') \<Longrightarrow> same_channel ch ch'"
  by (auto simp: sync_destinations_def sync_interval_def sync_priority_def sync_mode_field_def
      sync_threshold_def need_Inr split: if_splits option.splits
      intro!: same_channel_set_sync dest!: parse_destinations_same elim!: same_channel_trans [rotated])

lemma parse_sync_same:
  assumes "parse_sync yc sync ch = Inr (ChannelOk ch')"
  shows "same_channel ch ch'"
  using assms unfolding parse_sync_def
  by (elim same_channel_step sync_field_same)

lemma channel_field_same:
  "channel_parameters yc node ch = Inr (ChannelOk ch') \<Longrightarrow> same_channel ch ch'"
  "channel_sync yc node ch = Inr (ChannelOk ch') \<Longrightarrow> same_channel ch ch'"
  by (auto simp: channel_parameters_def channel_sync_def same_channel_def [of ch "ch\<lparr>ch_parameters := _\<rparr>"]
      dest: parse_sync_same split: if_splits sum.splits)

lemma parse_channel_valid:
  assumes "parse_channel yc node = Inr (ChannelOk ch)"
  shows "valid_channel ch"
proof -
  obtain cid driver rate where
    c: "cid \<noteq> []" "driver \<noteq> []" "d_less (Fin 0) rate" and
    step: "channel_step (channel_parameters yc (y_at node ''parameters'')
        (channel_config_new\<lparr>ch_id := cid, ch_driver := driver, ch_sample_rate_hz := rate\<rparr>)) (\<lambda>ch.
      channel_sync yc (y_at node ''sync'') ch) = Inr (ChannelOk ch)"
    using assms unfolding parse_channel_def
    by (auto simp: is_non_empty_string_Inr need_Inr simp del: fun_upd_apply split: if_splits)
  have "same_channel (channel_config_new\<lparr>ch_id := cid, ch_driver := driver, ch_sample_rate_hz := rate\<rparr>) ch"
    using step by (rule same_channel_step) (erule channel_field_same)+
  with c show ?thesis
    by (simp add: same_channel_def valid_channel_def channel_config_new_def channel_sync_config_new_def)
qed

section \<open>The list of channels\<close>

text \<open>The loop stops at the first channel that cannot be parsed; the result is that of this channel.\<close>

fun channel_error :: "nat \<Rightarrow> channel_loaded \<Rightarrow> loaded" where
  "channel_error index (Inl e) = Inl e"
| "channel_error index (Inr (ChannelFail message)) = at_channel index message"
| "channel_error index (Inr (ChannelOk ch)) = Inr (LoadFail [])"

lemma parse_channel_list_ok:
  assumes "list_all2 (\<lambda>node ch. parse_channel yc node = Inr (ChannelOk ch)) nodes chs"
  shows "parse_channel_list yc i (nodes @ rest) c =
         parse_channel_list yc (i + length nodes) rest (c\<lparr>cfg_channels := cfg_channels c @ chs\<rparr>)"
  using assms by (induction arbitrary: i c rule: list_all2_induct) simp_all

lemma parse_channel_list_error:
  assumes "\<nexists>ch. parse_channel yc node = Inr (ChannelOk ch)"
  shows "parse_channel_list yc i (node # rest) c = channel_error i (parse_channel yc node)"
  using assms by (cases "(i, parse_channel yc node)" rule: channel_error.cases) simp_all

lemma parse_channel_list_inv:
  "parse_channel_list yc i nodes c = Inr (LoadOk c') \<Longrightarrow>
   \<exists>chs. list_all2 (\<lambda>node ch. parse_channel yc node = Inr (ChannelOk ch)) nodes chs \<and>
         c' = c\<lparr>cfg_channels := cfg_channels c @ chs\<rparr>"
proof (induction nodes arbitrary: i c)
  case (Cons node nodes)
  then obtain ch where ch: "parse_channel yc node = Inr (ChannelOk ch)"
    by (auto simp: at_channel_def split: sum.splits channel_result.splits)
  with Cons obtain chs where
    "list_all2 (\<lambda>node ch. parse_channel yc node = Inr (ChannelOk ch)) nodes chs"
    "c' = c\<lparr>cfg_channels := (cfg_channels c @ [ch]) @ chs\<rparr>" by fastforce
  with ch show ?case by (intro exI [of _ "ch # chs"]) simp
qed (simp add: exI [of _ "[]"])

lemma list_all2_valid:
  "list_all2 (\<lambda>node ch. parse_channel yc node = Inr (ChannelOk ch)) nodes chs \<Longrightarrow> list_all valid_channel chs"
  by (induction rule: list_all2_induct) (simp_all add: parse_channel_valid)

definition channel_nodes :: "yaml \<Rightarrow> yaml list" where
  "channel_nodes document = y_items (y_at document ''channels'')"

lemma y_items_undefined: "\<not> y_is_sequence y \<Longrightarrow> y_items y = []"
  by (cases y) simp_all

lemma parse_channels_inv:
  assumes "parse_channels yc document c = Inr (LoadOk c')"
  shows "\<exists>chs. list_all2 (\<lambda>node ch. parse_channel yc node = Inr (ChannelOk ch)) (channel_nodes document) chs \<and>
               c' = c\<lparr>cfg_channels := cfg_channels c @ chs\<rparr>"
proof (cases "y_is_sequence (y_at document ''channels'')")
  case True
  then have "y_defined (y_at document ''channels'')" by (cases "y_at document ''channels''") simp_all
  with assms True show ?thesis
    by (auto simp: parse_channels_def channel_nodes_def Let_def dest: parse_channel_list_inv)
next
  case False
  with assms show ?thesis
    by (auto simp: parse_channels_def channel_nodes_def Let_def y_items_undefined
        intro!: exI [of _ "[]"] split: if_splits)
qed

lemma check_document_inv:
  assumes "check_document yc document = Inr (LoadOk c)"
  shows "\<exists>c0 server storage chs.
    c = c0\<lparr>cfg_server := server, cfg_local_storage := storage, cfg_channels := chs\<rparr> \<and>
    cfg_version c0 = kSupportedConfigVersion \<and> nd_id (cfg_node c0) \<noteq> [] \<and> nd_api_key_file (cfg_node c0) \<noteq> [] \<and>
    valid_server server \<and> valid_storage storage \<and>
    list_all2 (\<lambda>node ch. parse_channel yc node = Inr (ChannelOk ch)) (channel_nodes document) chs"
proof -
  obtain nid key c1 c2 where
    1: "parse_server yc document (config_new\<lparr>cfg_version := kSupportedConfigVersion,
          cfg_node := \<lparr>nd_id = nid, nd_api_key_file = key\<rparr>\<rparr>) = Inr (LoadOk c1)" and
    2: "parse_local_storage yc document c1 = Inr (LoadOk c2)" and
    3: "parse_channels yc document c2 = Inr (LoadOk c)" and ne: "nid \<noteq> []" "key \<noteq> []"
    using assms unfolding check_document_def
    by (auto simp: is_non_empty_string_Inr need_Inr next_step_ok Let_def split: if_splits)
  let ?c0 = "config_new\<lparr>cfg_version := kSupportedConfigVersion, cfg_node := \<lparr>nd_id = nid, nd_api_key_file = key\<rparr>\<rparr>"
  obtain server where s: "c1 = ?c0\<lparr>cfg_server := server\<rparr>" "valid_server server"
    using parse_server_ok [OF 1] by (auto simp: valid_server_def config_new_def)
  obtain storage where t: "c2 = c1\<lparr>cfg_local_storage := storage\<rparr>" "valid_storage storage"
    using parse_local_storage_ok [OF 2] s by (auto simp: valid_storage_def config_new_def)
  obtain chs where u: "c = c2\<lparr>cfg_channels := chs\<rparr>"
      "list_all2 (\<lambda>node ch. parse_channel yc node = Inr (ChannelOk ch)) (channel_nodes document) chs"
    using parse_channels_inv [OF 3] s t by (auto simp: config_new_def)
  show ?thesis using s t u ne
    by (intro exI [of _ ?c0] exI [of _ server] exI [of _ storage] exI [of _ chs]) simp
qed

section \<open>Example file\<close>

definition ex_int :: "string \<Rightarrow> int option" where
  "ex_int s = (if s \<noteq> [] \<and> (\<forall>ch \<in> set s. 48 \<le> (of_char ch :: nat) \<and> (of_char ch :: nat) \<le> 57)
               then Some (foldl (\<lambda>n ch. 10 * n + (of_char ch - 48)) 0 s) else None)"

fun ex_scalar :: "yaml \<Rightarrow> string option" where
  "ex_scalar (YScalar s) = Some s"
| "ex_scalar _ = None"

definition ex_yaml_cpp :: yaml_cpp where
  \<comment> \<open>conversions of plain decimal numbers and text\<close>
  "ex_yaml_cpp =
     \<lparr>yc_string = ex_scalar,
      yc_bool = (\<lambda>y. case ex_scalar y of None \<Rightarrow> None
                     | Some s \<Rightarrow> if s = ''true'' then Some True else if s = ''false'' then Some False else None),
      yc_int = (\<lambda>y. Option.bind (ex_scalar y) ex_int),
      yc_double = (\<lambda>y. map_option (\<lambda>n. Fin (of_int n)) (Option.bind (ex_scalar y) ex_int))\<rparr>"

definition ex_channel_node :: "string \<Rightarrow> string \<Rightarrow> yaml" where
  "ex_channel_node cid rate =
     YMap [(YScalar ''id'', YScalar cid), (YScalar ''driver'', YScalar ''sim''),
           (YScalar ''sample_rate_hz'', YScalar rate),
           (YScalar ''parameters'', YMap [(YScalar ''channel_id'', YScalar cid)]),
           (YScalar ''sync'', YMap [(YScalar ''mode'', YScalar ''realtime'')])]"

definition ex_document :: "yaml list \<Rightarrow> string \<Rightarrow> yaml" where
  "ex_document channels version =
     YMap [(YScalar ''config_version'', YScalar version),
           (YScalar ''node'', YMap [(YScalar ''id'', YScalar ''n1''), (YScalar ''api_key_file'', YScalar ''/k'')]),
           (YScalar ''server'', YMap [(YScalar ''max_batch_size'', YScalar ''20'')]),
           (YScalar ''channels'', YSequence channels)]"

definition ex_files :: "yaml \<Rightarrow> file_system" where
  "ex_files document =
     \<lparr>fs_exists = (\<lambda>_. Some True), fs_size = (\<lambda>_. Some 100), fs_open = (\<lambda>_. True),
      fs_read = (\<lambda>_. Some []), fs_yaml = (\<lambda>_. Inr document)\<rparr>"

lemma load_ex_files: "load_config yc (ex_files document) ''c.yaml'' = check_document yc document"
  by (simp add: load_config_def ex_files_def kMaxConfigBytes_def)

lemma load_config_ok_valid:
  assumes "load_config yc fs path = Inr (LoadOk c)"
  shows "valid_config c"
proof -
  obtain document where "check_document yc document = Inr (LoadOk c)"
    using assms by (auto simp: load_config_def split: if_splits option.splits bool.splits sum.splits)
  from check_document_inv [OF this] show ?thesis
    by (auto simp: valid_config_def valid_server_def valid_storage_def list.pred_set dest!: list_all2_valid)
qed

section \<open>Properties\<close>

text \<open>
  C36: A configuration that \<open>load_config\<close> returns is well-formed: version 1, a node with a
  non-empty identifier and key file, positive timeout, batch size, storage limits and sync intervals,
  and for every channel a non-empty identifier and driver and a sample rate greater than zero (so not
  NaN). Fields the file leaves out have defaults that satisfy this.
\<close>

theorem load_config_valid:
  assumes "load_config yc fs path = Inr (LoadOk c)"
  shows "valid_config c"
  using load_config_ok_valid [OF assms] .

theorem load_config_valid_witness:
  "\<exists>c. load_config ex_yaml_cpp (ex_files (ex_document [ex_channel_node ''t'' ''5''] ''1'')) ''c.yaml'' = Inr (LoadOk c) \<and>
       valid_config c \<and> map ch_id (cfg_channels c) = [''t'']"
proof -
  have "case check_document ex_yaml_cpp (ex_document [ex_channel_node ''t'' ''5''] ''1'') of
          Inr (LoadOk c) \<Rightarrow> map ch_id (cfg_channels c) = [''t''] | _ \<Rightarrow> False" by code_simp
  then obtain c where c: "load_config ex_yaml_cpp (ex_files (ex_document [ex_channel_node ''t'' ''5''] ''1'')) ''c.yaml''
        = Inr (LoadOk c)" "map ch_id (cfg_channels c) = [''t'']"
    unfolding load_ex_files by (auto split: sum.splits load_result.splits)
  then show ?thesis by (intro exI [of _ c] conjI load_config_valid [OF c(1)])
qed

text \<open>
  The loaded configuration has exactly the channels of the file, one for each entry of
  \<open>channels\<close> and in the same order, each parsed on its own. Nothing compares them with each other, so
  entries with the same identifier are all kept.
\<close>

theorem load_config_channels:
  assumes "load_config yc fs path = Inr (LoadOk c)"
  shows "\<exists>contents document. fs_read fs path = Some contents \<and> fs_yaml fs contents = Inr document \<and>
           list_all2 (\<lambda>node ch. parse_channel yc node = Inr (ChannelOk ch))
             (channel_nodes document) (cfg_channels c)"
proof -
  obtain contents document where d: "fs_read fs path = Some contents" "fs_yaml fs contents = Inr document"
      "check_document yc document = Inr (LoadOk c)"
    using assms by (auto simp: load_config_def split: if_splits option.splits bool.splits sum.splits)
  from check_document_inv [OF d(3)] d(1,2) show ?thesis by auto
qed

theorem load_config_channels_witness:
  "\<exists>c. load_config ex_yaml_cpp (ex_files (ex_document [ex_channel_node ''t'' ''5'', ex_channel_node ''t'' ''9''] ''1''))
         ''c.yaml'' = Inr (LoadOk c) \<and> map ch_id (cfg_channels c) = [''t'', ''t''] \<and> length (cfg_channels c) = 2"
proof -
  let ?d = "ex_document [ex_channel_node ''t'' ''5'', ex_channel_node ''t'' ''9''] ''1''"
  have "case check_document ex_yaml_cpp ?d of
          Inr (LoadOk c) \<Rightarrow> map ch_id (cfg_channels c) = [''t'', ''t''] | _ \<Rightarrow> False" by code_simp
  then obtain c where c: "load_config ex_yaml_cpp (ex_files ?d) ''c.yaml'' = Inr (LoadOk c)"
      "map ch_id (cfg_channels c) = [''t'', ''t'']"
    unfolding load_ex_files by (auto split: sum.splits load_result.splits)
  have "channel_nodes ?d = [ex_channel_node ''t'' ''5'', ex_channel_node ''t'' ''9'']"
    by (simp add: channel_nodes_def ex_document_def)
  then have "length (cfg_channels c) = 2"
    using load_config_channels [OF c(1)] by (auto simp: ex_files_def dest: list_all2_lengthD)
  then show ?thesis by (intro exI [of _ c] conjI c)
qed

text \<open>
  C37: The first channel that is wrong decides the outcome of the \<open>channels\<close> section: its error
  message with its index, or the exception its conversion throws; the entries after it are not looked
  at and nothing of the entries before it is kept.
\<close>

theorem parse_channels_first_error:
  assumes "y_at document ''channels'' = YSequence (good @ bad # rest)"
    and "\<forall>node \<in> set good. \<exists>ch. parse_channel yc node = Inr (ChannelOk ch)"
    and "\<nexists>ch. parse_channel yc bad = Inr (ChannelOk ch)"
  shows "parse_channels yc document c = channel_error (length good) (parse_channel yc bad)"
proof -
  have "\<exists>chs. list_all2 (\<lambda>node ch. parse_channel yc node = Inr (ChannelOk ch)) good chs"
    using assms(2) by (induction good) (auto intro: list_all2_Cons [THEN iffD2])
  then obtain chs where "list_all2 (\<lambda>node ch. parse_channel yc node = Inr (ChannelOk ch)) good chs" ..
  from parse_channel_list_ok [OF this, of 0 "bad # rest" c] show ?thesis
    using assms(1) parse_channel_list_error [OF assms(3)] by (simp add: parse_channels_def Let_def)
qed

theorem parse_channels_first_error_witness:
  "parse_channels ex_yaml_cpp
     (ex_document [ex_channel_node ''t'' ''5'', ex_channel_node ''u'' ''0'', ex_channel_node ''v'' ''x''] ''1'') config_new
   = Inr (LoadFail ''channels[1].sample_rate_hz must be > 0'')"
proof -
  have "y_at (ex_document [ex_channel_node ''t'' ''5'', ex_channel_node ''u'' ''0'', ex_channel_node ''v'' ''x''] ''1'')
          ''channels''
        = YSequence ([ex_channel_node ''t'' ''5''] @ ex_channel_node ''u'' ''0'' # [ex_channel_node ''v'' ''x''])"
    by (simp add: ex_document_def)
  note r = parse_channels_first_error [OF this, of ex_yaml_cpp config_new]
  have bad: "parse_channel ex_yaml_cpp (ex_channel_node ''u'' ''0'')
             = Inr (ChannelFail ''.sample_rate_hz must be > 0'')" by code_simp
  have good: "case parse_channel ex_yaml_cpp (ex_channel_node ''t'' ''5'') of Inr (ChannelOk _) \<Rightarrow> True | _ \<Rightarrow> False"
    by code_simp
  have "channel_error 1 (Inr (ChannelFail ''.sample_rate_hz must be > 0''))
        = Inr (LoadFail ''channels[1].sample_rate_hz must be > 0'')" by code_simp
  then show ?thesis using r good by (simp add: bad split: sum.splits channel_result.splits)
qed

section \<open>Bad files\<close>

text \<open>
  What is wrong with a file, said of the file: the document in it, if it can be read and parsed; the
  documents that are rejected; the documents whose first fault is a value that is no integer or no number where
  one is read. The first two end in an error result. In the third case the exception of yaml-cpp leaves
  \<open>load_config\<close>, which does not catch it.
\<close>

definition file_document :: "file_system \<Rightarrow> string \<Rightarrow> yaml option" where
  "file_document fs path =
     (if path \<noteq> [] \<and> fs_exists fs path = Some True \<and> fs_open fs path
      then (case (fs_size fs path, fs_read fs path) of
              (Some n, Some contents) \<Rightarrow>
                (if n \<le> kMaxConfigBytes then (case fs_yaml fs contents of Inl _ \<Rightarrow> None | Inr document \<Rightarrow> Some document)
                 else None)
            | _ \<Rightarrow> None)
      else None)"

definition rejected_document :: "yaml_cpp \<Rightarrow> yaml \<Rightarrow> bool" where
  "rejected_document yc document \<longleftrightarrow> \<not> y_is_map document \<or>
     (let version = y_at document ''config_version'' in
      \<not> y_defined version \<or> (\<exists>n. yc_int yc version = Some n \<and> (n \<noteq> 1 \<or> \<not> y_is_map (y_at document ''node''))))"

definition text_ok :: "yaml_cpp \<Rightarrow> yaml \<Rightarrow> bool" where
  "text_ok yc node \<longleftrightarrow> y_is_scalar node \<and> (\<exists>s. yc_string yc node = Some s \<and> s \<noteq> [])"

definition count_ok :: "yaml_cpp \<Rightarrow> yaml \<Rightarrow> bool" where
  "count_ok yc node \<longleftrightarrow> (\<exists>n > 0. yc_int yc node = Some n)"

definition no_int :: "yaml_cpp \<Rightarrow> yaml \<Rightarrow> bool" where
  "no_int yc node \<longleftrightarrow> y_defined node \<and> yc_int yc node = None"

definition header_ok :: "yaml_cpp \<Rightarrow> yaml \<Rightarrow> bool" where
  "header_ok yc document \<longleftrightarrow> y_is_map document \<and> y_defined (y_at document ''config_version'') \<and>
     yc_int yc (y_at document ''config_version'') = Some 1 \<and> y_is_map (y_at document ''node'') \<and>
     text_ok yc (y_at (y_at document ''node'') ''id'') \<and> text_ok yc (y_at (y_at document ''node'') ''api_key_file'')"

definition section_fields :: "yaml_cpp \<Rightarrow> yaml \<Rightarrow> string \<Rightarrow> string list \<Rightarrow> bool" where
  \<comment> \<open>a section with this text and these counts, each right or left out\<close>
  "section_fields yc section text counts \<longleftrightarrow>
     (y_defined (y_at section text) \<longrightarrow> text_ok yc (y_at section text)) \<and>
     (\<forall>name \<in> set counts. y_defined (y_at section name) \<longrightarrow> count_ok yc (y_at section name))"

definition section_ok :: "yaml_cpp \<Rightarrow> yaml \<Rightarrow> string \<Rightarrow> string list \<Rightarrow> bool" where
  "section_ok yc section text counts \<longleftrightarrow>
     \<not> y_defined section \<or> y_is_map section \<and> section_fields yc section text counts"

definition no_number_in :: "yaml_cpp \<Rightarrow> yaml \<Rightarrow> string \<Rightarrow> string \<Rightarrow> string \<Rightarrow> bool" where
  \<comment> \<open>one of the two counts of a section is no integer, and what is read before it is right\<close>
  "no_number_in yc section text first second \<longleftrightarrow> y_is_map section \<and>
     (section_fields yc section text [] \<and> no_int yc (y_at section first) \<or>
      section_fields yc section text [first] \<and> no_int yc (y_at section second))"

definition no_rate :: "yaml_cpp \<Rightarrow> yaml \<Rightarrow> bool" where
  \<comment> \<open>a channel whose rate is no number\<close>
  "no_rate yc node \<longleftrightarrow> y_is_map node \<and> text_ok yc (y_at node ''id'') \<and> text_ok yc (y_at node ''driver'') \<and>
     y_defined (y_at node ''sample_rate_hz'') \<and> yc_double yc (y_at node ''sample_rate_hz'') = None"

definition wrong_type :: "yaml_cpp \<Rightarrow> yaml \<Rightarrow> bool" where
  "wrong_type yc document \<longleftrightarrow>
     (let server = y_at document ''server''; storage = y_at document ''local_storage'';
          server_ok = section_ok yc server ''url'' [''upload_timeout_seconds'', ''max_batch_size''];
          storage_ok = section_ok yc storage ''path'' [''max_size_megabytes'', ''retention_hours'']
      in y_is_map document \<and> no_int yc (y_at document ''config_version'') \<or>
         header_ok yc document \<and>
           (no_number_in yc server ''url'' ''upload_timeout_seconds'' ''max_batch_size'' \<or>
            server_ok \<and> no_number_in yc storage ''path'' ''max_size_megabytes'' ''retention_hours'' \<or>
            server_ok \<and> storage_ok \<and>
              (\<exists>before bad behind. y_at document ''channels'' = YSequence (before @ bad # behind) \<and>
                 (\<forall>node \<in> set before. \<exists>ch. parse_channel yc node = Inr (ChannelOk ch)) \<and> no_rate yc bad)))"

lemma map_defined: "y_is_map node \<Longrightarrow> y_defined node" "y_is_scalar node \<Longrightarrow> y_defined node"
  by (cases node; simp)+

lemma load_config_document:
  "file_document fs path = Some document \<Longrightarrow> load_config yc fs path = check_document yc document"
  "file_document fs path = None \<Longrightarrow> fs_exists fs path \<noteq> None \<Longrightarrow> \<exists>m. load_config yc fs path = Inr (LoadFail m)"
  by (auto simp: file_document_def load_config_def split: if_splits option.splits sum.splits bool.splits)

lemma rejected_document_fails:
  "rejected_document yc document \<Longrightarrow> \<exists>m. check_document yc document = Inr (LoadFail m)"
  using map_defined by (auto simp: rejected_document_def check_document_def kSupportedConfigVersion_def Let_def)

text \<open>A field that is right or left out lets the section go on; one that does not convert ends it.\<close>

lemma fields_go_on:
  "(y_defined node \<longrightarrow> text_ok yc node) \<Longrightarrow> \<exists>c'. non_empty_text yc node m c store = Inr (LoadOk c')"
  "(y_defined node \<longrightarrow> count_ok yc node) \<Longrightarrow> \<exists>c'. positive_int yc node m c store' = Inr (LoadOk c')"
  "no_int yc node \<Longrightarrow> positive_int yc node m c store' = Inl YamlBadConversion"
  by (auto simp: non_empty_text_def positive_int_def text_ok_def count_ok_def no_int_def is_non_empty_string_def)

lemma text_ok_read:
  "text_ok yc node \<Longrightarrow> is_non_empty_string yc node f = f True"
  "text_ok yc node \<Longrightarrow> \<exists>s. yc_string yc node = Some s"
  by (auto simp: text_ok_def is_non_empty_string_def map_defined)

lemma section_go_on:
  assumes "section_fields yc section name [first, second]"
  shows "\<exists>c'. next_step (non_empty_text yc (y_at section name) m c store) (\<lambda>c.
      next_step (positive_int yc (y_at section first) m1 c (store1 c)) (\<lambda>c.
      positive_int yc (y_at section second) m2 c (store2 c))) = Inr (LoadOk c')"
proof -
  have f: "y_defined (y_at section name) \<longrightarrow> text_ok yc (y_at section name)"
    "y_defined (y_at section first) \<longrightarrow> count_ok yc (y_at section first)"
    "y_defined (y_at section second) \<longrightarrow> count_ok yc (y_at section second)"
    using assms by (simp_all add: section_fields_def)
  obtain c1 where c1: "non_empty_text yc (y_at section name) m c store = Inr (LoadOk c1)"
    using fields_go_on(1) [OF f(1)] by metis
  obtain c2 where c2: "positive_int yc (y_at section first) m1 c1 (store1 c1) = Inr (LoadOk c2)"
    using fields_go_on(2) [OF f(2)] by metis
  obtain c3 where "positive_int yc (y_at section second) m2 c2 (store2 c2) = Inr (LoadOk c3)"
    using fields_go_on(2) [OF f(3)] by metis
  then show ?thesis by (simp add: c1 c2)
qed

lemma server_go_on:
  "section_ok yc (y_at document ''server'') ''url'' [''upload_timeout_seconds'', ''max_batch_size''] \<Longrightarrow>
   \<exists>c'. parse_server yc document c = Inr (LoadOk c')"
  unfolding parse_server_def Let_def using section_go_on by (simp add: section_ok_def)

lemma storage_go_on:
  "section_ok yc (y_at document ''local_storage'') ''path'' [''max_size_megabytes'', ''retention_hours''] \<Longrightarrow>
   \<exists>c'. parse_local_storage yc document c = Inr (LoadOk c')"
  unfolding parse_local_storage_def Let_def using section_go_on by (simp add: section_ok_def)

lemma section_throws:
  assumes "no_number_in yc section name first second"
  shows "next_step (non_empty_text yc (y_at section name) m c store) (\<lambda>c.
      next_step (positive_int yc (y_at section first) m1 c (store1 c)) (\<lambda>c.
      positive_int yc (y_at section second) m2 c (store2 c))) = Inl YamlBadConversion"
proof -
  have f: "y_defined (y_at section name) \<longrightarrow> text_ok yc (y_at section name)"
    using assms by (auto simp: no_number_in_def section_fields_def)
  then obtain c1 where c1: "non_empty_text yc (y_at section name) m c store = Inr (LoadOk c1)"
    using fields_go_on(1) by metis
  show ?thesis
  proof (cases "no_int yc (y_at section first)")
    case True
    then show ?thesis by (simp add: c1 fields_go_on(3))
  next
    case False
    then have second: "y_defined (y_at section first) \<longrightarrow> count_ok yc (y_at section first)" "no_int yc (y_at section second)"
      using assms by (auto simp: no_number_in_def section_fields_def)
    then obtain c2 where "positive_int yc (y_at section first) m1 c1 (store1 c1) = Inr (LoadOk c2)"
      using fields_go_on(2) by metis
    then show ?thesis by (simp add: c1 fields_go_on(3) second(2))
  qed
qed

lemma sections_throw:
  "no_number_in yc (y_at document ''server'') ''url'' ''upload_timeout_seconds'' ''max_batch_size'' \<Longrightarrow>
     parse_server yc document c = Inl YamlBadConversion"
  "no_number_in yc (y_at document ''local_storage'') ''path'' ''max_size_megabytes'' ''retention_hours'' \<Longrightarrow>
     parse_local_storage yc document c = Inl YamlBadConversion"
  unfolding parse_server_def parse_local_storage_def Let_def
  using section_throws map_defined(1) by (auto simp: no_number_in_def)

lemma channels_throw:
  assumes "y_at document ''channels'' = YSequence (before @ bad # behind)"
    and "\<forall>node \<in> set before. \<exists>ch. parse_channel yc node = Inr (ChannelOk ch)" "no_rate yc bad"
  shows "parse_channels yc document c = Inl YamlBadConversion"
proof -
  have bad: "parse_channel yc bad = Inl YamlBadConversion"
    using assms(3) by (auto simp: no_rate_def parse_channel_def text_ok_read(1) dest!: text_ok_read(2))
  have "parse_channel_list yc i (before @ bad # behind) c = Inl YamlBadConversion" for i
    using assms(2)
  proof (induction before arbitrary: i c)
    case (Cons node before)
    then show ?case by (auto split: sum.splits)
  qed (simp add: bad)
  then show ?thesis by (simp add: parse_channels_def assms(1))
qed

lemma wrong_type_throws:
  assumes "wrong_type yc document"
  shows "check_document yc document = Inl YamlBadConversion"
proof (cases "no_int yc (y_at document ''config_version'')")
  case True
  then show ?thesis
    using assms map_defined by (auto simp: no_int_def check_document_def wrong_type_def header_ok_def Let_def)
next
  case False
  then have h: "header_ok yc document" using assms by (auto simp: wrong_type_def Let_def)
  obtain c where eq: "check_document yc document =
      next_step (parse_server yc document c) (\<lambda>c. next_step (parse_local_storage yc document c) (parse_channels yc document))"
  proof -
    let ?id = "y_at (y_at document ''node'') ''id''" and ?key = "y_at (y_at document ''node'') ''api_key_file''"
    obtain nid key_file where t: "yc_string yc ?id = Some nid" "yc_string yc ?key = Some key_file"
      using h by (auto simp: header_ok_def dest!: text_ok_read(2))
    show ?thesis
      by (rule that [of "config_new\<lparr>cfg_version := 1, cfg_node := \<lparr>nd_id = nid, nd_api_key_file = key_file\<rparr>\<rparr>"])
        (use h t in \<open>simp add: check_document_def header_ok_def map_defined text_ok_read(1) kSupportedConfigVersion_def Let_def\<close>)
  qed
  consider (server) "no_number_in yc (y_at document ''server'') ''url'' ''upload_timeout_seconds'' ''max_batch_size''"
    | (storage) "section_ok yc (y_at document ''server'') ''url'' [''upload_timeout_seconds'', ''max_batch_size'']"
        "no_number_in yc (y_at document ''local_storage'') ''path'' ''max_size_megabytes'' ''retention_hours''"
    | (channel) before bad behind where "section_ok yc (y_at document ''server'') ''url'' [''upload_timeout_seconds'', ''max_batch_size'']"
        "section_ok yc (y_at document ''local_storage'') ''path'' [''max_size_megabytes'', ''retention_hours'']"
        "y_at document ''channels'' = YSequence (before @ bad # behind)"
        "\<forall>node \<in> set before. \<exists>ch. parse_channel yc node = Inr (ChannelOk ch)" "no_rate yc bad"
    using assms False unfolding wrong_type_def Let_def by blast
  then show ?thesis
  proof cases
    case server
    then show ?thesis by (simp add: eq sections_throw(1))
  next
    case storage
    then obtain c1 where "parse_server yc document c = Inr (LoadOk c1)" using server_go_on by blast
    then show ?thesis by (simp add: eq sections_throw(2) [OF storage(2)])
  next
    case channel
    then obtain c1 where c1: "parse_server yc document c = Inr (LoadOk c1)" using server_go_on by blast
    obtain c2 where "parse_local_storage yc document c1 = Inr (LoadOk c2)" using channel(2) storage_go_on by blast
    then show ?thesis by (simp add: eq c1 channels_throw [OF channel(3-5)])
  qed
qed

end
