(* ===== verification/Io.thy ===== *)
theory Io
  imports Platform "HOL-Library.Multiset"
begin

text \<open>
  Hardware access: the I2C bus interface of \<open>include/bossa/io/i2c_bus.hpp\<close> with its Linux
  implementation, and the GPIO lines of \<open>src/io/libgpiod_gpio.cpp\<close>. The kernel and libgpiod are
  parameters: each call gets the next answer, and the calls made are recorded.
\<close>

section \<open>The I2C bus\<close>

record 'b i2c_bus =
  bus_open :: "string \<Rightarrow> 'b \<Rightarrow> bool \<times> 'b"
  bus_write_read :: "8 word \<Rightarrow> 8 word list \<Rightarrow> 8 word list \<Rightarrow> 'b \<Rightarrow> (bool \<times> 8 word list) \<times> 'b"
      \<comment> \<open>address, bytes to write, buffer to read into; success and the buffer afterwards\<close>
  bus_write :: "8 word \<Rightarrow> 8 word list \<Rightarrow> 'b \<Rightarrow> bool \<times> 'b"

text \<open>What the sensor drivers need of a bus: the buffer keeps its size.\<close>

locale i2c_client =
  fixes bus :: "'b i2c_bus"
  assumes read_length: "length (snd (fst (bus_write_read bus a out buf b))) = length buf"

record linux_i2c_bus =
  lb_fd :: int
  lb_device_path :: string

definition linux_i2c_bus_new :: linux_i2c_bus where
  "linux_i2c_bus_new = \<lparr>lb_fd = - 1, lb_device_path = []\<rparr>"

definition linux_open :: "string \<Rightarrow> linux_i2c_bus \<times> world \<Rightarrow> bool \<times> linux_i2c_bus \<times> world" where
  "linux_open path = (\<lambda>(lb, w).
     (if path = [] then (False, lb, w)
      else (let lb1 = (if 0 \<le> lb_fd lb then lb\<lparr>lb_fd := - 1\<rparr> else lb);
                (fd, w1) = open_device (c_str path) w;
                lb2 = lb1\<lparr>lb_fd := fd\<rparr>
            in if fd < 0 then (False, lb2, w1) else (True, lb2\<lparr>lb_device_path := path\<rparr>, w1))))"

definition fill_buffer :: "8 word list \<Rightarrow> 8 word list \<Rightarrow> 8 word list" where
  \<comment> \<open>the kernel writes at most the length of the buffer into it\<close>
  "fill_buffer buf received = take (length buf) received @ drop (length received) buf"

definition linux_write_read :: "8 word \<Rightarrow> 8 word list \<Rightarrow> 8 word list \<Rightarrow> linux_i2c_bus \<times> world \<Rightarrow>
    (bool \<times> 8 word list) \<times> linux_i2c_bus \<times> world" where
  "linux_write_read address write_data buf = (\<lambda>(lb, w).
     (if lb_fd lb < 0 \<or> write_data = [] \<or> buf = [] then ((False, buf), lb, w)
      else (let messages = [\<lparr>im_addr = ucast address, im_read = False, im_buf = write_data\<rparr>,
                            \<lparr>im_addr = ucast address, im_read = True, im_buf = buf\<rparr>];
                ((rc, received), w1) = i2c_ioctl messages w
            in if rc < 0 then ((False, fill_buffer buf received), lb, w1)
               else ((True, fill_buffer buf received), lb, w1))))"

definition linux_write :: "8 word \<Rightarrow> 8 word list \<Rightarrow> linux_i2c_bus \<times> world \<Rightarrow>
    bool \<times> linux_i2c_bus \<times> world" where
  "linux_write address write_data = (\<lambda>(lb, w).
     (if lb_fd lb < 0 \<or> write_data = [] then (False, lb, w)
      else (let ((rc, _), w1) = i2c_ioctl [\<lparr>im_addr = ucast address, im_read = False, im_buf = write_data\<rparr>] w
            in (0 \<le> rc, lb, w1))))"

definition linux_bus :: "(linux_i2c_bus \<times> world) i2c_bus" where
  "linux_bus = \<lparr>bus_open = linux_open, bus_write_read = linux_write_read, bus_write = linux_write\<rparr>"

lemma length_fill_buffer [simp]: "length (fill_buffer buf received) = length buf"
  by (simp add: fill_buffer_def)

interpretation linux: i2c_client linux_bus
  by unfold_locales
     (simp add: linux_bus_def linux_write_read_def case_prod_beta Let_def split: prod.splits)

definition linux_destroy :: "linux_i2c_bus \<Rightarrow> int option" where
  \<comment> \<open>the descriptor that the destructor closes\<close>
  "linux_destroy lb = (if 0 \<le> lb_fd lb then Some (lb_fd lb) else None)"

section \<open>GPIO lines\<close>

datatype gpio_direction = GpioInput | GpioOutput

datatype gpio_value = GpioLow | GpioHigh

datatype gpiod_call =
    ChipOpen string
  | ChipGetLine int nat
  | RequestInput int
  | RequestOutput int
  | ChipClose int
  | LineRelease int
  | LineGetValue int
  | LineSetValue int int

text \<open>
  Pointers are numbers, zero is \<open>nullptr\<close>; \<open>gd_answer n\<close> is the return value of the \<open>n\<close>-th call,
  and the log has each call with what it returned.
\<close>

record gpiod =
  gd_answer :: "nat \<Rightarrow> int"
  gd_log :: "(gpiod_call \<times> int) list"

definition gpiod_do :: "gpiod_call \<Rightarrow> gpiod \<Rightarrow> int \<times> gpiod" where
  "gpiod_do call g =
     (let h = gd_answer g (length (gd_log g)) in (h, g\<lparr>gd_log := gd_log g @ [(call, h)]\<rparr>))"

record line_handle =
  lh_chip :: int
  lh_line :: int

record libgpiod_gpio =
  lg_chip_name :: string
  lg_lines :: "nat \<rightharpoonup> line_handle"

definition libgpiod_new :: libgpiod_gpio where
  "libgpiod_new = \<lparr>lg_chip_name = [], lg_lines = (\<lambda>_. None)\<rparr>"

definition request_line :: "string \<Rightarrow> nat \<Rightarrow> gpio_direction \<Rightarrow> libgpiod_gpio \<times> gpiod \<Rightarrow>
    bool \<times> libgpiod_gpio \<times> gpiod" where
  "request_line chip_name offset direction = (\<lambda>(lg, g).
     (if chip_name = [] then (False, lg, g)
      else if lg_lines lg offset \<noteq> None then (True, lg, g)
      else (let (chip, g1) = gpiod_do (ChipOpen (c_str chip_name)) g in
        (if chip = 0 then (False, lg, g1)
         else (let (line, g2) = gpiod_do (ChipGetLine chip offset) g1 in
           (if line = 0 then (let (_, g3) = gpiod_do (ChipClose chip) g2 in (False, lg, g3))
            else (let (request_status, g3) =
                        (if direction = GpioInput then gpiod_do (RequestInput line) g2
                         else gpiod_do (RequestOutput line) g2) in
              (if request_status \<noteq> 0
               then (let (_, g4) = gpiod_do (ChipClose chip) g3 in (False, lg, g4))
               else (True, lg\<lparr>lg_chip_name := chip_name,
                              lg_lines := (lg_lines lg)(offset \<mapsto> \<lparr>lh_chip = chip, lh_line = line\<rparr>)\<rparr>, g3)))))))))"

definition read_line :: "bool \<Rightarrow> nat \<Rightarrow> libgpiod_gpio \<times> gpiod \<Rightarrow> gpio_value option \<times> libgpiod_gpio \<times> gpiod" where
  \<comment> \<open>\<open>None\<close> for \<open>false\<close>, else the value written through the pointer, if it is not null\<close>
  "read_line value_given offset = (\<lambda>(lg, g).
     (if \<not> value_given then (None, lg, g)
      else (case lg_lines lg offset of
        None \<Rightarrow> (None, lg, g)
      | Some handle \<Rightarrow>
         (let (raw_value, g1) = gpiod_do (LineGetValue (lh_line handle)) g in
          (if raw_value < 0 then (None, lg, g1)
           else (Some (if raw_value = 0 then GpioLow else GpioHigh), lg, g1))))))"

definition write_line :: "nat \<Rightarrow> gpio_value \<Rightarrow> libgpiod_gpio \<times> gpiod \<Rightarrow> bool \<times> libgpiod_gpio \<times> gpiod" where
  "write_line offset value = (\<lambda>(lg, g).
     (case lg_lines lg offset of
        None \<Rightarrow> (False, lg, g)
      | Some handle \<Rightarrow>
         (let raw_value = (if value = GpioLow then 0 else 1);
              (rc, g1) = gpiod_do (LineSetValue (lh_line handle) raw_value) g
          in (rc = 0, lg, g1))))"

text \<open>Built without libgpiod.\<close>

definition stub_request_line :: "string \<Rightarrow> nat \<Rightarrow> gpio_direction \<Rightarrow> bool" where
  "stub_request_line chip_name offset direction = False"

definition stub_read_line :: "nat \<Rightarrow> gpio_value option" where
  "stub_read_line offset = None"

definition stub_write_line :: "nat \<Rightarrow> gpio_value \<Rightarrow> bool" where
  "stub_write_line offset value = False"

definition release_handle :: "line_handle \<Rightarrow> gpiod \<Rightarrow> gpiod" where
  "release_handle handle g =
     (let g1 = (if lh_line handle \<noteq> 0 then snd (gpiod_do (LineRelease (lh_line handle)) g) else g)
      in if lh_chip handle \<noteq> 0 then snd (gpiod_do (ChipClose (lh_chip handle)) g1) else g1)"

definition libgpiod_destroy :: "nat list \<Rightarrow> libgpiod_gpio \<times> gpiod \<Rightarrow> libgpiod_gpio \<times> gpiod" where
  \<comment> \<open>the destructor; the offsets come in the order of the hash table\<close>
  "libgpiod_destroy order = (\<lambda>(lg, g).
     (lg\<lparr>lg_lines := (\<lambda>_. None)\<rparr>,
      fold (\<lambda>offset g. case lg_lines lg offset of None \<Rightarrow> g | Some handle \<Rightarrow> release_handle handle g) order g))"

section \<open>Chips are closed or held\<close>

fun opened_by :: "gpiod_call \<times> int \<Rightarrow> int multiset" where
  "opened_by (ChipOpen _, h) = (if h = 0 then {#} else {#h#})"
| "opened_by _ = {#}"

fun closed_by :: "gpiod_call \<times> int \<Rightarrow> int multiset" where
  "closed_by (ChipClose h, _) = {#h#}"
| "closed_by _ = {#}"

definition opened :: "gpiod \<Rightarrow> int multiset" where
  \<comment> \<open>the chips the library handed out\<close>
  "opened g = (\<Sum>c\<leftarrow>gd_log g. opened_by c)"

definition closed :: "gpiod \<Rightarrow> int multiset" where
  "closed g = (\<Sum>c\<leftarrow>gd_log g. closed_by c)"

definition held :: "libgpiod_gpio \<Rightarrow> int multiset" where
  "held lg = image_mset (\<lambda>offset. lh_chip (the (lg_lines lg offset))) (mset_set (dom (lg_lines lg)))"

definition gpio_wf :: "libgpiod_gpio \<times> gpiod \<Rightarrow> bool" where
  "gpio_wf s \<longleftrightarrow> finite (dom (lg_lines (fst s))) \<and> opened (snd s) = closed (snd s) + held (fst s) \<and>
     (\<forall>handle \<in> ran (lg_lines (fst s)). lh_chip handle \<noteq> 0)"

lemma opened_do: "gpiod_do call g = (h, g') \<Longrightarrow> opened g' = opened g + opened_by (call, h)"
  by (auto simp: gpiod_do_def opened_def Let_def)

lemma closed_do: "gpiod_do call g = (h, g') \<Longrightarrow> closed g' = closed g + closed_by (call, h)"
  by (auto simp: gpiod_do_def closed_def Let_def)

lemma held_insert:
  assumes "finite (dom (lg_lines lg))" "lg_lines lg offset = None"
  shows "held (lg\<lparr>lg_chip_name := n, lg_lines := (lg_lines lg)(offset \<mapsto> handle)\<rparr>)
           = held lg + {#lh_chip handle#}"
proof -
  have "offset \<notin> dom (lg_lines lg)" using assms(2) by auto
  moreover have "image_mset (\<lambda>i. lh_chip (the (((lg_lines lg)(offset \<mapsto> handle)) i))) (mset_set (dom (lg_lines lg)))
      = image_mset (\<lambda>i. lh_chip (the (lg_lines lg i))) (mset_set (dom (lg_lines lg)))"
    using assms by (intro image_mset_cong) auto
  ultimately show ?thesis using assms(1) by (simp add: held_def)
qed

lemma request_line_wf:
  assumes "gpio_wf s" "request_line chip_name offset direction s = (ok, s')"
  shows "gpio_wf s'"
proof -
  obtain lg g where s: "s = (lg, g)" by fastforce
  obtain chip g1 where c: "gpiod_do (ChipOpen (c_str chip_name)) g = (chip, g1)" by fastforce
  obtain line g2 where l: "gpiod_do (ChipGetLine chip offset) g1 = (line, g2)" by fastforce
  obtain x g3 where x: "gpiod_do (ChipClose chip) g2 = (x, g3)" by fastforce
  obtain st g4 where r: "(if direction = GpioInput then gpiod_do (RequestInput line) g2
      else gpiod_do (RequestOutput line) g2) = (st, g4)" by fastforce
  obtain y g5 where y: "gpiod_do (ChipClose chip) g4 = (y, g5)" by fastforce
  have g: "opened g1 = opened g + (if chip = 0 then {#} else {#chip#})" "closed g1 = closed g"
    "opened g2 = opened g1" "closed g2 = closed g1"
    "opened g3 = opened g2" "closed g3 = closed g2 + {#chip#}"
    "opened g4 = opened g2" "closed g4 = closed g2"
    "opened g5 = opened g4" "closed g5 = closed g4 + {#chip#}"
    using opened_do [OF c] opened_do [OF l] opened_do [OF x] opened_do [OF y] closed_do [OF c]
      closed_do [OF l] closed_do [OF x] closed_do [OF y] r
      opened_do [of "RequestInput line" g2 st g4] opened_do [of "RequestOutput line" g2 st g4]
      closed_do [of "RequestInput line" g2 st g4] closed_do [of "RequestOutput line" g2 st g4]
    by (auto split: if_splits)
  from assms s c l x r y g held_insert [of lg offset] show ?thesis
    by (auto simp: request_line_def gpio_wf_def Let_def split: if_splits)
qed

lemma release_handle_chips:
  "lh_chip handle \<noteq> 0 \<Longrightarrow>
   opened (release_handle handle g) = opened g \<and> closed (release_handle handle g) = closed g + {#lh_chip handle#}"
  by (simp add: release_handle_def Let_def gpiod_do_def opened_def closed_def)

lemma destroy_chips:
  assumes "\<forall>handle \<in> ran (lg_lines lg). lh_chip handle \<noteq> 0" "set order \<subseteq> dom (lg_lines lg)"
  shows "opened (snd (libgpiod_destroy order (lg, g))) = opened g \<and>
         closed (snd (libgpiod_destroy order (lg, g)))
           = closed g + mset (map (\<lambda>offset. lh_chip (the (lg_lines lg offset))) order)"
  using assms(2)
proof (induction order arbitrary: g)
  case (Cons offset order)
  then obtain handle where h: "lg_lines lg offset = Some handle" by auto
  then have "lh_chip handle \<noteq> 0" using assms(1) by (auto simp: ran_def)
  from release_handle_chips [OF this, of g] Cons.IH [of "release_handle handle g"] Cons.prems h show ?case
    by (simp add: libgpiod_destroy_def)
qed (simp add: libgpiod_destroy_def)

lemma held_order:
  "distinct order \<Longrightarrow> set order = dom (lg_lines lg) \<Longrightarrow>
   mset (map (\<lambda>offset. lh_chip (the (lg_lines lg offset))) order) = held lg"
  by (simp add: held_def mset_set_set flip: mset_set_set)

inductive gpio_step :: "libgpiod_gpio \<times> gpiod \<Rightarrow> libgpiod_gpio \<times> gpiod \<Rightarrow> bool" where
  step_request: "request_line chip_name offset direction s = (ok, s') \<Longrightarrow> gpio_step s s'"
| step_read: "read_line value_given offset s = (v, s') \<Longrightarrow> gpio_step s s'"
| step_write: "write_line offset value s = (ok, s') \<Longrightarrow> gpio_step s s'"

lemma gpio_wf_call:
  assumes "gpio_wf (lg, g)" "gpiod_do call g = (h, g')" "opened_by (call, h) = {#}" "closed_by (call, h) = {#}"
  shows "gpio_wf (lg, g')"
  using assms opened_do [OF assms(2)] closed_do [OF assms(2)] by (simp add: gpio_wf_def)

lemma gpio_step_wf:
  assumes "gpio_step s s'" "gpio_wf s"
  shows "gpio_wf s'"
  using assms(1)
proof cases
  case (step_request chip_name offset direction ok)
  then show ?thesis using request_line_wf [OF assms(2)] by simp
next
  case (step_read offset v)
  obtain lg g where s: "s = (lg, g)" by fastforce
  then show ?thesis using step_read assms(2) gpio_wf_call [of lg g "LineGetValue _"]
    by (fastforce simp: read_line_def Let_def split: option.splits prod.splits if_splits)
next
  case (step_write offset v ok)
  obtain lg g where s: "s = (lg, g)" by fastforce
  then show ?thesis using step_write assms(2) gpio_wf_call [of lg g "LineSetValue _ _"]
    by (fastforce simp: write_line_def Let_def split: option.splits prod.splits if_splits)
qed

section \<open>The interface of the GPIO lines\<close>

text \<open>
  What a user of \<open>GpioController\<close> may rely on: a line can be read and driven only after a request for it
  that succeeded, and from then on it stays requested.
\<close>

datatype gpio_use = GpioRequest string nat gpio_direction | GpioRead nat | GpioWrite nat gpio_value

fun requests :: "nat \<Rightarrow> gpio_use \<Rightarrow> bool" where
  "requests i (GpioRequest _ line _) = (line = i)"
| "requests i _ = False"

locale gpio_lines =
  fixes request :: "string \<Rightarrow> nat \<Rightarrow> gpio_direction \<Rightarrow> 's \<Rightarrow> bool \<times> 's"
    and read :: "nat \<Rightarrow> 's \<Rightarrow> gpio_value option \<times> 's"
    and drive :: "nat \<Rightarrow> gpio_value \<Rightarrow> 's \<Rightarrow> bool \<times> 's"
    and held :: "'s \<Rightarrow> nat \<Rightarrow> bool"
  assumes request_held: "held (snd (request chip line direction s)) i \<longleftrightarrow>
        held s i \<or> i = line \<and> fst (request chip line direction s)"
    and read_held: "held (snd (read line s)) i = held s i"
    and drive_held: "held (snd (drive line v s)) i = held s i"
    and read_unheld: "\<not> held s line \<Longrightarrow> fst (read line s) = None"
    and drive_unheld: "\<not> held s line \<Longrightarrow> \<not> fst (drive line v s)"
begin

fun perform :: "gpio_use \<Rightarrow> 's \<Rightarrow> 's" where
  "perform (GpioRequest chip line direction) s = snd (request chip line direction s)"
| "perform (GpioRead line) s = snd (read line s)"
| "perform (GpioWrite line v) s = snd (drive line v s)"

lemma held_stays: "held s i \<Longrightarrow> held (fold perform us s) i"
proof (induction us arbitrary: s)
  case (Cons u us)
  then show ?case by (cases u) (simp_all add: request_held read_held drive_held)
qed simp

lemma held_only_on_request: "\<forall>u \<in> set us. \<not> requests i u \<Longrightarrow> held (fold perform us s) i = held s i"
proof (induction us arbitrary: s)
  case (Cons u us)
  then show ?case by (cases u) (auto simp: request_held read_held drive_held)
qed simp

lemma unrequested_line_is_dead:
  assumes "\<not> held s i" "\<forall>u \<in> set us. \<not> requests i u"
  shows "fst (read i (fold perform us s)) = None \<and> \<not> fst (drive i v (fold perform us s))"
  using held_only_on_request [OF assms(2), of s] assms(1) read_unheld drive_unheld by blast

end

definition line_held :: "libgpiod_gpio \<times> gpiod \<Rightarrow> nat \<Rightarrow> bool" where
  "line_held s i \<longleftrightarrow> lg_lines (fst s) i \<noteq> None"

interpretation libgpiod: gpio_lines request_line "read_line True" write_line line_held
proof (unfold_locales, goal_cases)
  case (1 chip line direction s i)
  then show ?case
    by (cases s) (auto simp: line_held_def request_line_def Let_def split: prod.splits)
next
  case (2 line s i)
  then show ?case by (cases s) (auto simp: line_held_def read_line_def Let_def split: option.splits prod.splits)
next
  case (3 line v s i)
  then show ?case by (cases s) (auto simp: line_held_def write_line_def Let_def split: option.splits prod.splits)
next
  case (4 s line)
  then show ?case by (cases s) (simp add: line_held_def read_line_def)
next
  case (5 s line v)
  then show ?case by (cases s) (simp add: line_held_def write_line_def)
qed

interpretation gpio_stub: gpio_lines "\<lambda>chip line direction s. (stub_request_line chip line direction, s)"
    "\<lambda>line s. (stub_read_line line, s)" "\<lambda>line v s. (stub_write_line line v, s)" "\<lambda>s i. False"
  by unfold_locales (simp_all add: stub_request_line_def stub_read_line_def stub_write_line_def)

section \<open>Properties\<close>

text \<open>
  C40: No GPIO chip handle leaks: in any run of requests, reads and writes of a fresh controller,
  whatever libgpiod answers, every chip it opened has been closed again or belongs to a line the
  controller holds, and its destructor closes those, so that in the end each was closed exactly once.
\<close>

theorem gpio_chips_closed_or_held:
  assumes "gpio_step\<^sup>*\<^sup>* (libgpiod_new, \<lparr>gd_answer = answer, gd_log = []\<rparr>) (lg, g)"
    and "distinct order" "set order = dom (lg_lines lg)"
  shows "opened g = closed g + held lg \<and>
         closed (snd (libgpiod_destroy order (lg, g))) = opened (snd (libgpiod_destroy order (lg, g)))"
proof -
  have "gpio_wf (libgpiod_new, \<lparr>gd_answer = answer, gd_log = []\<rparr>)"
    by (simp add: gpio_wf_def libgpiod_new_def opened_def closed_def held_def)
  with assms(1) have "gpio_wf (lg, g)"
    by (induction rule: rtranclp_induct) (simp_all add: gpio_step_wf)
  then show ?thesis using destroy_chips [of lg order g] held_order [OF assms(2,3)] assms(3)
    by (simp add: gpio_wf_def)
qed

theorem gpio_chips_closed_or_held_witness:
  "let s0 = (libgpiod_new, \<lparr>gd_answer = (\<lambda>n. [7, 9, 0, 8, 0, 0] ! n), gd_log = []\<rparr>);
       s1 = snd (request_line ''gpiochip0'' 5 GpioOutput s0);
       s2 = snd (request_line ''gpiochip1'' 6 GpioInput s1)
   in closed (snd (libgpiod_destroy [5] s2)) = opened (snd (libgpiod_destroy [5] s2))"
proof -
  define s0 where "s0 = (libgpiod_new, \<lparr>gd_answer = (\<lambda>n. [7, 9, 0, 8, 0, 0] ! n), gd_log = []\<rparr>)"
  define s1 where "s1 = snd (request_line ''gpiochip0'' 5 GpioOutput s0)"
  define s2 where "s2 = snd (request_line ''gpiochip1'' 6 GpioInput s1)"
  have "gpio_step s0 s1" "gpio_step s1 s2"
    by (simp_all only: s1_def s2_def) (rule step_request [OF prod.collapse [symmetric]])+
  then have r: "gpio_step\<^sup>*\<^sup>* s0 (fst s2, snd s2)" by simp
  have "dom (lg_lines (fst s2)) = {5}"
    by (simp add: s2_def s1_def s0_def request_line_def libgpiod_new_def gpiod_do_def c_str_def Let_def)
  then show ?thesis using gpio_chips_closed_or_held [OF r [unfolded s0_def], of "[5]"]
    by (simp add: s0_def [symmetric] s1_def [symmetric] s2_def [symmetric] Let_def)
qed

text \<open>
  Lines are told apart by their offset alone: after a line of one chip was requested, a request
  for the same offset of another chip, in another direction, succeeds without a call to libgpiod,
  and writing to that offset drives the first chip's line.
\<close>

theorem gpio_second_chip_aliased:
  assumes "request_line chip_name offset direction (lg, g) = (True, lg1, g1)" "other \<noteq> []"
    and "lg_lines lg1 offset = Some handle"
  shows "request_line other offset direction' (lg1, g1) = (True, lg1, g1) \<and>
         map fst (gd_log (snd (snd (write_line offset value (lg1, g1)))))
           = map fst (gd_log g1) @ [LineSetValue (lh_line handle) (if value = GpioLow then 0 else 1)]"
  using assms by (simp add: request_line_def write_line_def gpiod_do_def Let_def)

theorem gpio_second_chip_aliased_witness:
  "let g0 = \<lparr>gd_answer = (\<lambda>n. [7, 9, 0] ! n), gd_log = []\<rparr>;
       (ok, lg1, g1) = request_line ''gpiochip0'' 5 GpioInput (libgpiod_new, g0)
   in ok \<and> request_line ''gpiochip1'' 5 GpioOutput (lg1, g1) = (True, lg1, g1)"
proof -
  let ?g0 = "\<lparr>gd_answer = (\<lambda>n. [7, 9, 0] ! n), gd_log = []\<rparr>"
  obtain ok lg1 g1 where r: "request_line ''gpiochip0'' 5 GpioInput (libgpiod_new, ?g0) = (ok, lg1, g1)"
    by (metis surj_pair)
  have "fst (request_line ''gpiochip0'' 5 GpioInput (libgpiod_new, ?g0))"
    "lg_lines (fst (snd (request_line ''gpiochip0'' 5 GpioInput (libgpiod_new, ?g0)))) 5
       = Some \<lparr>lh_chip = 7, lh_line = 9\<rparr>" by code_simp+
  then have h: "ok" "lg_lines lg1 5 = Some \<lparr>lh_chip = 7, lh_line = 9\<rparr>" using r by simp_all
  have "request_line ''gpiochip0'' 5 GpioInput (libgpiod_new, ?g0) = (True, lg1, g1)" using r h(1) by simp
  from gpio_second_chip_aliased [OF this _ h(2), of "''gpiochip1''" GpioOutput GpioHigh] r h(1)
  show ?thesis by simp
qed

end
