(* ===== verification/Bme280.thy ===== *)
theory Bme280
  imports Drivers Io "HOL-Library.Monad_Syntax"
begin

text \<open>
  The BME280 driver, \<open>drivers/bme280\<close>: calibration words read over I2C, the raw reading and the
  fixed-point compensation. \<open>int32_t\<close> arithmetic is done on \<open>int\<close> with every result checked: an
  overflow is undefined behaviour, here \<open>None\<close>, and \<open>bme_read\<close> then sets the flag of the world.
\<close>

unbundle bit_operations_syntax

section \<open>32-bit arithmetic\<close>

definition i32 :: "int \<Rightarrow> int option" where
  \<comment> \<open>the result of a signed 32-bit operation, if it is representable\<close>
  "i32 n = (if - (2 ^ 31) \<le> n \<and> n < 2 ^ 31 then Some n else None)"

definition shl32 :: "int \<Rightarrow> nat \<Rightarrow> int" where
  \<comment> \<open>\<open><<\<close> of an \<open>int32_t\<close>: the congruent representable value (C++20)\<close>
  "shl32 n k = signed_take_bit 31 (push_bit k n)"

definition shr32 :: "int \<Rightarrow> nat \<Rightarrow> int" where
  \<comment> \<open>\<open>>>\<close> of an \<open>int32_t\<close>: arithmetic\<close>
  "shr32 n k = drop_bit k n"

section \<open>Registers\<close>

definition kChipIdRegister :: "8 word" where "kChipIdRegister = 0xD0"
definition kExpectedChipId :: "8 word" where "kExpectedChipId = 0x60"
definition kCalibStartRegister :: "8 word" where "kCalibStartRegister = 0x88"
definition kHumidityCalibStartRegister :: "8 word" where "kHumidityCalibStartRegister = 0xE1"
definition kCtrlHumidityRegister :: "8 word" where "kCtrlHumidityRegister = 0xF2"
definition kCtrlMeasureRegister :: "8 word" where "kCtrlMeasureRegister = 0xF4"
definition kDataStartRegister :: "8 word" where "kDataStartRegister = 0xF7"

definition read_uint16_le :: "8 word \<Rightarrow> 8 word \<Rightarrow> 16 word" where
  "read_uint16_le b0 b1 = ucast b0 OR push_bit 8 (ucast b1)"

section \<open>State\<close>

record calibration =
  dig_t1 :: "16 word"
  dig_t2 :: "16 word"      \<comment> \<open>signed, as are t3, h2, h4, h5 and h6\<close>
  dig_t3 :: "16 word"
  dig_h1 :: "8 word"
  dig_h2 :: "16 word"
  dig_h3 :: "8 word"
  dig_h4 :: "16 word"
  dig_h5 :: "16 word"
  dig_h6 :: "8 word"

definition calibration_new :: calibration where
  "calibration_new = \<lparr>dig_t1 = 0, dig_t2 = 0, dig_t3 = 0, dig_h1 = 0, dig_h2 = 0, dig_h3 = 0,
                      dig_h4 = 0, dig_h5 = 0, dig_h6 = 0\<rparr>"

record 'b bme280 =
  bm_bus :: "'b option"
  bm_owns_bus :: bool
  bm_address :: "8 word"
  bm_calibration :: calibration
  bm_configured :: bool
  bm_temperature_channel_id :: string
  bm_humidity_channel_id :: string

definition bme280_new :: "'b option \<Rightarrow> 'b bme280" where
  "bme280_new bus = \<lparr>bm_bus = bus, bm_owns_bus = False, bm_address = 0x76, bm_calibration = calibration_new,
     bm_configured = False, bm_temperature_channel_id = ''ambient_temperature'',
     bm_humidity_channel_id = ''ambient_humidity''\<rparr>"

section \<open>Calls on the bus\<close>

text \<open>Virtual calls through \<open>bus_\<close>, never null once \<open>configure\<close> got past its first checks.\<close>

definition bm_write_read :: "('b \<times> world) i2c_bus \<Rightarrow> 8 word \<Rightarrow> nat \<Rightarrow> 'b bme280 \<times> world \<Rightarrow>
    (bool \<times> 8 word list) \<times> 'b bme280 \<times> world" where
  \<comment> \<open>one register byte out, a zeroed buffer of the given size in\<close>
  "bm_write_read bus register size_in = (\<lambda>(d, w).
     (case bm_bus d of
        None \<Rightarrow> ((False, replicate size_in 0), d, w\<lparr>w_undefined := True\<rparr>)
      | Some b \<Rightarrow>
         (let (r, b', w') = bus_write_read bus (bm_address d) [register] (replicate size_in 0) (b, w)
          in (r, d\<lparr>bm_bus := Some b'\<rparr>, w'))))"

definition bm_write :: "('b \<times> world) i2c_bus \<Rightarrow> 8 word list \<Rightarrow> 'b bme280 \<times> world \<Rightarrow>
    bool \<times> 'b bme280 \<times> world" where
  "bm_write bus bytes = (\<lambda>(d, w).
     (case bm_bus d of
        None \<Rightarrow> (False, d, w\<lparr>w_undefined := True\<rparr>)
      | Some b \<Rightarrow> (let (ok, b', w') = bus_write bus (bm_address d) bytes (b, w) in (ok, d\<lparr>bm_bus := Some b'\<rparr>, w'))))"

section \<open>Calibration\<close>

definition temperature_calibration :: "8 word list \<Rightarrow> calibration \<Rightarrow> calibration" where
  "temperature_calibration buffer c =
     c\<lparr>dig_t1 := read_uint16_le (buffer ! 0) (buffer ! 1),
       dig_t2 := read_uint16_le (buffer ! 2) (buffer ! 3),
       dig_t3 := read_uint16_le (buffer ! 4) (buffer ! 5),
       dig_h1 := buffer ! 25\<rparr>"

definition humidity_calibration :: "8 word list \<Rightarrow> calibration \<Rightarrow> calibration" where
  "humidity_calibration hb c =
     c\<lparr>dig_h2 := read_uint16_le (hb ! 0) (hb ! 1),
       dig_h3 := hb ! 2,
       dig_h4 := push_bit 4 (ucast (hb ! 3)) OR ucast (hb ! 4 AND 0x0F),
       dig_h5 := push_bit 4 (ucast (hb ! 5)) OR ucast (drop_bit 4 (hb ! 4)),
       dig_h6 := hb ! 6\<rparr>"

definition load_calibration :: "('b \<times> world) i2c_bus \<Rightarrow> 'b bme280 \<times> world \<Rightarrow> bool \<times> 'b bme280 \<times> world" where
  "load_calibration bus s =
     (let ((ok, buffer), d, w) = bm_write_read bus kCalibStartRegister 26 s in
      if \<not> ok then (False, d, w)
      else (let d = d\<lparr>bm_calibration := temperature_calibration buffer (bm_calibration d)\<rparr>;
                ((ok2, hb), d2, w2) = bm_write_read bus kHumidityCalibStartRegister 7 (d, w)
            in if \<not> ok2 then (False, d2, w2)
               else (True, d2\<lparr>bm_calibration := humidity_calibration hb (bm_calibration d2)\<rparr>, w2)))"

section \<open>Measuring\<close>

definition trigger_measurement :: "('b \<times> world) i2c_bus \<Rightarrow> 'b bme280 \<times> world \<Rightarrow> bool \<times> 'b bme280 \<times> world" where
  "trigger_measurement bus s =
     (let (ok, s1) = bm_write bus [kCtrlHumidityRegister, 0x01] s in
      if \<not> ok then (False, s1) else bm_write bus [kCtrlMeasureRegister, 0x25] s1)"

definition raw_temperature :: "8 word list \<Rightarrow> int" where
  "raw_temperature buffer = shl32 (uint (buffer ! 3)) 12 OR shl32 (uint (buffer ! 4)) 4 OR
                            shr32 (uint (buffer ! 5)) 4"

definition raw_humidity :: "8 word list \<Rightarrow> int" where
  "raw_humidity buffer = shl32 (uint (buffer ! 6)) 8 OR uint (buffer ! 7)"

definition read_raw :: "('b \<times> world) i2c_bus \<Rightarrow> 'b bme280 \<times> world \<Rightarrow> (int \<times> int) option \<times> 'b bme280 \<times> world" where
  "read_raw bus s =
     (let ((ok, buffer), s1) = bm_write_read bus kDataStartRegister 8 s
      in (if \<not> ok then None else Some (raw_temperature buffer, raw_humidity buffer), s1))"

definition compensate_temperature :: "calibration \<Rightarrow> int \<Rightarrow> (float \<times> int) option" where
  "compensate_temperature c raw = do {
     let t1 = uint (dig_t1 c);
     a \<leftarrow> i32 (shr32 raw 3 - shl32 t1 1);
     b \<leftarrow> i32 (a * sint (dig_t2 c));
     let var1 = shr32 b 11;
     e \<leftarrow> i32 (shr32 raw 4 - t1);
     f \<leftarrow> i32 (e * e);
     g \<leftarrow> i32 (shr32 f 12 * sint (dig_t3 c));
     let var2 = shr32 g 14;
     fine \<leftarrow> i32 (var1 + var2);
     h \<leftarrow> i32 (fine * 5);
     k \<leftarrow> i32 (h + 128);
     Some (f_div (f32 (of_int (shr32 k 8))) 100, fine)
   }"

definition compensate_humidity :: "calibration \<Rightarrow> int \<Rightarrow> int \<Rightarrow> float option" where
  "compensate_humidity c raw fine_temperature = do {
     var1 \<leftarrow> i32 (fine_temperature - 76800);
     a1 \<leftarrow> i32 (shl32 raw 14 - shl32 (sint (dig_h4 c)) 20);
     a2 \<leftarrow> i32 (sint (dig_h5 c) * var1);
     a3 \<leftarrow> i32 (a1 - a2);
     a4 \<leftarrow> i32 (a3 + 16384);
     let var2 = shr32 a4 15;
     b1 \<leftarrow> i32 (var1 * sint (dig_h6 c));
     b2 \<leftarrow> i32 (var1 * uint (dig_h3 c));
     b3 \<leftarrow> i32 (shr32 b2 11 + 32768);
     b4 \<leftarrow> i32 (shr32 b1 10 * b3);
     b5 \<leftarrow> i32 (shr32 b4 10 + 2097152);
     b6 \<leftarrow> i32 (b5 * sint (dig_h2 c));
     var3 \<leftarrow> i32 (b6 + 8192);
     v \<leftarrow> i32 (var2 * shr32 var3 14);
     c1 \<leftarrow> i32 (shr32 v 15 * shr32 v 15);
     c2 \<leftarrow> i32 (shr32 c1 7 * uint (dig_h1 c));
     v2 \<leftarrow> i32 (v - shr32 c2 4);
     let v3 = (if v2 < 0 then 0 else if 419430400 < v2 then 419430400 else v2);
     Some (f_div (f32 (of_int (shr32 v3 12))) 100)
   }"

definition kCelsiusUnit :: string where "kCelsiusUnit = ''celsius''"
definition kPercentUnit :: string where "kPercentUnit = ''percent''"

definition bme_read :: "('b \<times> world) i2c_bus \<Rightarrow> 'b bme280 \<times> world \<Rightarrow> read_result \<times> 'b bme280 \<times> world" where
  "bme_read bus = (\<lambda>(d, w).
     (if \<not> bm_configured d then (read_result_new, d, w)
      else (case trigger_measurement bus (d, w) of
        (False, s1) \<Rightarrow> (read_result_new, s1)
      | (True, s1) \<Rightarrow> (case read_raw bus s1 of
          (None, s2) \<Rightarrow> (read_result_new, s2)
        | (Some (raw_t, raw_h), d2, w2) \<Rightarrow>
            (case (do { (celsius, fine) \<leftarrow> compensate_temperature (bm_calibration d2) raw_t;
                        percent \<leftarrow> compensate_humidity (bm_calibration d2) raw_h fine;
                        Some (celsius, percent) }) of
               None \<Rightarrow> (read_result_new, d2, w2\<lparr>w_undefined := True\<rparr>)
             | Some (celsius, percent) \<Rightarrow>
                 (let (now, w3) = system_now w2;
                      r = set_sample 0 (good_sample (bm_temperature_channel_id d2) kCelsiusUnit celsius now)
                            read_result_new;
                      r = set_sample 1 (good_sample (bm_humidity_channel_id d2) kPercentUnit percent now) r
                  in (r\<lparr>rr_sample_count := 2\<rparr>, d2, w3)))))))"

definition bme_write :: "json \<Rightarrow> 'b bme280 \<times> world \<Rightarrow> cpp_exn option \<times> 'b bme280 \<times> world" where
  "bme_write command s = (Some (RuntimeError ''bme280: write not supported''), s)"

section \<open>Configuration\<close>

text \<open>\<open>std::stoul(text, nullptr, 0)\<close>: the longest number at the start of the text, base by prefix.\<close>

definition digit_value :: "char \<Rightarrow> nat" where
  \<comment> \<open>36 for a character that is no digit of any base\<close>
  "digit_value ch =
     (let n = of_char ch :: nat
      in if 48 \<le> n \<and> n \<le> 57 then n - 48
         else if 97 \<le> n \<and> n \<le> 122 then n - 87
         else if 65 \<le> n \<and> n \<le> 90 then n - 55
         else 36)"

definition is_space :: "char \<Rightarrow> bool" where
  "is_space ch = (let n = of_char ch :: nat in n = 32 \<or> 9 \<le> n \<and> n \<le> 13)"

fun number_base :: "string \<Rightarrow> nat \<times> string" where
  "number_base (z # x # h # cs) =
     (if z = CHR ''0'' \<and> (x = CHR ''x'' \<or> x = CHR ''X'') \<and> digit_value h < 16 then (16, h # cs)
      else if z = CHR ''0'' then (8, z # x # h # cs)
      else (10, z # x # h # cs))"
| "number_base (z # cs) = (if z = CHR ''0'' then 8 else 10, z # cs)"
| "number_base [] = (10, [])"

definition stoul_auto :: "string \<Rightarrow> int option" where
  "stoul_auto s =
     (let s = dropWhile is_space s;
          (negative, s) = (case s of ch # cs \<Rightarrow> if ch = CHR ''-'' then (True, cs)
                                         else if ch = CHR ''+'' then (False, cs) else (False, s)
                           | [] \<Rightarrow> (False, []));
          (base, s) = number_base s;
          digits = takeWhile (\<lambda>ch. digit_value ch < base) s;
          n = foldl (\<lambda>acc ch. acc * int base + int (digit_value ch)) 0 digits
      in if digits = [] \<or> 2 ^ 64 \<le> n then None
         else Some (if negative then (- n) mod 2 ^ 64 else n))"

definition quoted :: "string \<Rightarrow> string" where
  "quoted s = [CHR 0x27] @ s @ [CHR 0x27]"

definition parse_address :: "json \<Rightarrow> world \<Rightarrow> cpp_exn + 8 word" where
  "parse_address j w =
     (case json_string j of
        Some address_text \<Rightarrow>
          (case stoul_auto address_text of None \<Rightarrow> Inl NumberParseError | Some n \<Rightarrow> Inr (word_of_int n))
      | None \<Rightarrow> (case w_json_int w j of None \<Rightarrow> Inl JsonTypeError | Some n \<Rightarrow> Inr (word_of_int n)))"

definition bme_probe :: "('b \<times> world) i2c_bus \<Rightarrow> 'b bme280 \<times> world \<Rightarrow> cpp_exn option \<times> 'b bme280 \<times> world" where
  \<comment> \<open>the chip id and the calibration, once the bus is open\<close>
  "bme_probe bus s =
     (let ((ok, chip_id), s1) = bm_write_read bus kChipIdRegister 1 s in
      if \<not> ok then (Some (RuntimeError ''bme280: failed to read chip id''), s1)
      else if chip_id ! 0 \<noteq> kExpectedChipId then (Some (RuntimeError ''bme280: unexpected chip id''), s1)
      else (let (loaded, d2, w2) = load_calibration bus s1 in
            if \<not> loaded then (Some (RuntimeError ''bme280: failed to load calibration data''), d2, w2)
            else (None, d2\<lparr>bm_configured := True\<rparr>, w2)))"

definition bme_open :: "('b \<times> world) i2c_bus \<Rightarrow> 'b \<Rightarrow> string \<Rightarrow> 'b bme280 \<times> world \<Rightarrow>
    cpp_exn option \<times> 'b bme280 \<times> world" where
  \<comment> \<open>the default bus is made when the driver was built without one\<close>
  "bme_open bus default_bus bus_path = (\<lambda>(d, w).
     (let b = (case bm_bus d of None \<Rightarrow> default_bus | Some b \<Rightarrow> b);
          d = d\<lparr>bm_owns_bus := bm_bus d = None \<or> bm_owns_bus d\<rparr>;
          (ok, b', w') = bus_open bus bus_path (b, w);
          d = d\<lparr>bm_bus := Some b'\<rparr>
      in if \<not> ok then (Some (RuntimeError (''bme280: failed to open I2C bus: '' @ bus_path)), d, w')
         else bme_probe bus (d, w')))"

definition bme280_name :: string where
  "bme280_name = ''bme280''"

definition bme_configure :: "('b \<times> world) i2c_bus \<Rightarrow> 'b \<Rightarrow> json \<Rightarrow> 'b bme280 \<times> world \<Rightarrow>
    cpp_exn option \<times> 'b bme280 \<times> world" where
  "bme_configure bus default_bus p = (\<lambda>(d, w).
     (case (if json_contains p ''bus'' then json_string (json_at p ''bus'') else None) of
        None \<Rightarrow> (Some (RuntimeError (''bme280: missing string parameter '' @ quoted ''bus'')), d, w)
      | Some bus_path \<Rightarrow>
        (if \<not> json_contains p ''address''
         then (Some (RuntimeError (''bme280: missing parameter '' @ quoted ''address'')), d, w)
         else (case parse_address (json_at p ''address'') w of
           Inl e \<Rightarrow> (Some e, d, w)
         | Inr address \<Rightarrow> (let d = d\<lparr>bm_address := address\<rparr> in
            (case json_text_field p ''temperature_channel_id'' (bm_temperature_channel_id d) of
               Inl e \<Rightarrow> (Some e, d, w)
             | Inr t \<Rightarrow> (let d = d\<lparr>bm_temperature_channel_id := t\<rparr> in
                (case json_text_field p ''humidity_channel_id'' (bm_humidity_channel_id d) of
                   Inl e \<Rightarrow> (Some e, d, w)
                 | Inr h \<Rightarrow> bme_open bus default_bus bus_path (d\<lparr>bm_humidity_channel_id := h\<rparr>, w)))))))))"

section \<open>The driver contract\<close>

lemma bm_calls_keep:
  "bm_write_read bus reg n (d, w) = (r, d', w') \<Longrightarrow> bm_configured d' = bm_configured d"
  "bm_write bus bytes (d, w) = (ok, d', w') \<Longrightarrow> bm_configured d' = bm_configured d"
  by (auto simp: bm_write_read_def bm_write_def Let_def split: option.splits prod.splits)

lemma measuring_keeps:
  "trigger_measurement bus (d, w) = (ok, d', w') \<Longrightarrow> bm_configured d' = bm_configured d"
  "read_raw bus (d, w) = (r, d', w') \<Longrightarrow> bm_configured d' = bm_configured d"
  by (auto simp: trigger_measurement_def read_raw_def Let_def split: prod.splits if_splits
      dest!: bm_calls_keep)

lemma bme_read_cases:
  assumes "bme_read bus (d, w) = (r, d', w')"
  shows "wf_read r \<and> bm_configured d' = bm_configured d \<and> (\<not> bm_configured d \<longrightarrow> rr_sample_count r = 0) \<and>
         rr_sample_count r \<in> {0, 2}"
proof -
  obtain ok d1 w1 where t: "trigger_measurement bus (d, w) = (ok, d1, w1)" by (metis prod_cases3)
  obtain raw d2 w2 where m: "read_raw bus (d1, w1) = (raw, d2, w2)" by (metis prod_cases3)
  have keep: "bm_configured d1 = bm_configured d" "bm_configured d2 = bm_configured d"
    using measuring_keeps(1) [OF t] measuring_keeps(2) [OF m] by simp_all
  have "rr_sample_count read_result_new = 0" by (simp add: read_result_new_def)
  then show ?thesis using assms t m keep
    by (auto simp: bme_read_def Let_def kMaxSamples_def split: if_splits bool.splits option.splits prod.splits)
qed

lemma bme_probe_ready: "bme_probe bus s = (None, d', w') \<Longrightarrow> bm_configured d'"
  by (auto simp: bme_probe_def Let_def split: prod.splits if_splits)

lemma bme_configure_ready: "bme_configure bus default_bus p (d, w) = (None, d', w') \<Longrightarrow> bm_configured d'"
  by (auto simp: bme_configure_def bme_open_def Let_def bme_probe_ready
      split: option.splits prod.splits sum.splits if_splits)

interpretation bme280: sensor_driver "bme_configure bus default_bus" "bme_read bus" bm_configured
  for bus :: "('b \<times> world) i2c_bus" and default_bus :: 'b
proof
  fix d d' :: "'b bme280" and w w' :: world and p :: json
  obtain r e v where b: "bme_read bus (d, w) = (r, e, v)" by (metis prod_cases3)
  note c = bme_read_cases [OF b]
  show "wf_read (fst (bme_read bus (d, w)))" using b c by simp
  show "\<not> bm_configured d \<Longrightarrow> rr_sample_count (fst (bme_read bus (d, w))) = 0" using b c by simp
  show "bm_configured (fst (snd (bme_read bus (d, w)))) = bm_configured d" using b c by simp
  show "bme_configure bus default_bus p (d, w) = (None, d', w') \<Longrightarrow> bm_configured d'"
    by (rule bme_configure_ready)
qed

section \<open>The arithmetic\<close>

lemma shl32_small:
  assumes "0 \<le> n" "n * 2 ^ k < 2 ^ 31"
  shows "shl32 n k = n * 2 ^ k"
proof -
  have "0 \<le> n * 2 ^ k" using assms(1) by simp
  then have "signed_take_bit 31 (n * 2 ^ k) = n * 2 ^ k"
    using assms(2) by (intro signed_take_bit_int_eq_self) linarith+
  then show ?thesis by (simp add: shl32_def push_bit_eq_mult)
qed

lemma shr32_div: "shr32 n k = n div 2 ^ k"
  by (simp add: shr32_def drop_bit_eq_div)

lemma i32_Some [simp]: "i32 n = Some m \<longleftrightarrow> m = n \<and> - (2 ^ 31) \<le> n \<and> n < 2 ^ 31"
  by (auto simp: i32_def)

lemma i32_ok: "- (2 ^ 31) \<le> n \<Longrightarrow> n < 2 ^ 31 \<Longrightarrow> i32 n = Some n"
  by (simp add: i32_def)

lemma abs_mult_le:
  fixes a b :: int
  assumes "\<bar>a\<bar> \<le> m" "\<bar>b\<bar> \<le> n"
  shows "\<bar>a * b\<bar> \<le> m * n"
  using mult_mono [OF assms, of] assms by (simp add: abs_mult)

lemma abs_div_le:
  fixes a :: int
  assumes "\<bar>a\<bar> \<le> m * k" "0 < k"
  shows "\<bar>a div k\<bar> \<le> m"
proof -
  have "a div k \<le> (m * k) div k" using assms by (intro zdiv_mono1) auto
  moreover have "((- m) * k) div k \<le> a div k" using assms by (intro zdiv_mono1) auto
  moreover have "k \<noteq> 0" using assms(2) by simp
  then have "(m * k) div k = m" "((- m) * k) div k = - m" by (rule nonzero_mult_div_cancel_right)+
  ultimately show ?thesis by linarith
qed

definition fine_temperature :: "calibration \<Rightarrow> int \<Rightarrow> int" where
  \<comment> \<open>the compensation formula over the integers, no bit patterns and no overflow\<close>
  "fine_temperature c raw =
     ((raw div 8 - 2 * uint (dig_t1 c)) * sint (dig_t2 c)) div 2048 +
     ((raw div 16 - uint (dig_t1 c)) ^ 2 div 4096 * sint (dig_t3 c)) div 16384"

lemma bme280_temperature_exact:
  assumes "26000 \<le> uint (dig_t1 c)" "uint (dig_t1 c) \<le> 39000" "\<bar>sint (dig_t2 c)\<bar> \<le> 27000"
    and "\<bar>sint (dig_t3 c)\<bar> \<le> 5000" "0 \<le> raw" "raw < 2 ^ 20"
  shows "compensate_temperature c raw =
           Some (f_div (f32 (of_int ((fine_temperature c raw * 5 + 128) div 256))) 100, fine_temperature c raw)"
    and "\<bar>fine_temperature c raw\<bar> \<le> 1160000"
proof -
  define t1 t2 t3 where "t1 = uint (dig_t1 c)" and "t2 = sint (dig_t2 c)" and "t3 = sint (dig_t3 c)"
  have t1: "26000 \<le> t1" "t1 \<le> 39000" and t2: "\<bar>t2\<bar> \<le> 27000" and t3: "\<bar>t3\<bar> \<le> 5000"
    using assms(1-4) by (simp_all add: t1_def t2_def t3_def)
  define x y where "x = raw div 8" and "y = raw div 16"
  have "raw div 8 \<le> (2 ^ 20 - 1) div 8" "raw div 16 \<le> (2 ^ 20 - 1) div 16"
    using assms(6) by (intro zdiv_mono1; simp)+
  then have x: "0 \<le> x" "x \<le> 131071" and y: "0 \<le> y" "y \<le> 65535"
    using assms(5) by (simp_all add: x_def y_def)
  have a: "\<bar>x - 2 * t1\<bar> \<le> 79071" using x t1 by linarith
  have b: "\<bar>(x - 2 * t1) * t2\<bar> \<le> 2134917000" using abs_mult_le [OF a t2] by simp
  have var1: "\<bar>((x - 2 * t1) * t2) div 2048\<bar> \<le> 1042440" by (rule abs_div_le) (use b in simp_all)
  have e: "\<bar>y - t1\<bar> \<le> 39535" using y t1 by linarith
  have f: "\<bar>(y - t1) * (y - t1)\<bar> \<le> 1563016225" using abs_mult_le [OF e e] by simp
  have f': "\<bar>((y - t1) * (y - t1)) div 4096\<bar> \<le> 381596" by (rule abs_div_le) (use f in simp_all)
  have g: "\<bar>((y - t1) * (y - t1)) div 4096 * t3\<bar> \<le> 1907980000" using abs_mult_le [OF f' t3] by simp
  have var2: "\<bar>(((y - t1) * (y - t1)) div 4096 * t3) div 16384\<bar> \<le> 116454"
    by (rule abs_div_le) (use g in simp_all)
  have fine: "fine_temperature c raw = ((x - 2 * t1) * t2) div 2048 +
      (((y - t1) * (y - t1)) div 4096 * t3) div 16384"
    by (simp add: fine_temperature_def x_def y_def t1_def t2_def t3_def power2_eq_square)
  show bound: "\<bar>fine_temperature c raw\<bar> \<le> 1160000" unfolding fine using var1 var2 by linarith
  have shl: "shl32 t1 1 = 2 * t1" using t1 shl32_small [of t1 1] by simp
  have checks: "i32 (x - 2 * t1) = Some (x - 2 * t1)" "i32 ((x - 2 * t1) * t2) = Some ((x - 2 * t1) * t2)"
    "i32 (y - t1) = Some (y - t1)" "i32 ((y - t1) * (y - t1)) = Some ((y - t1) * (y - t1))"
    "i32 (((y - t1) * (y - t1)) div 4096 * t3) = Some (((y - t1) * (y - t1)) div 4096 * t3)"
    "i32 (fine_temperature c raw) = Some (fine_temperature c raw)"
    "i32 (fine_temperature c raw * 5) = Some (fine_temperature c raw * 5)"
    "i32 (fine_temperature c raw * 5 + 128) = Some (fine_temperature c raw * 5 + 128)"
    using a b e f g bound by (auto intro!: i32_ok simp only: abs_le_iff) (simp_all add: abs_le_iff)
  show "compensate_temperature c raw =
          Some (f_div (f32 (of_int ((fine_temperature c raw * 5 + 128) div 256))) 100, fine_temperature c raw)"
    unfolding compensate_temperature_def Let_def t1_def [symmetric] t2_def [symmetric] t3_def [symmetric] shl
    using checks fine by (simp add: shr32_div x_def [symmetric] y_def [symmetric] del: i32_Some)
qed

lemma compensate_humidity_result:
  assumes "compensate_humidity c raw fine = Some h"
  shows "\<exists>v. 0 \<le> v \<and> v \<le> 419430400 \<and> h = f_div (f32 (of_int (v div 4096))) 100"
proof -
  obtain v2 where "h = f_div (f32 (of_int (shr32
      (if v2 < 0 then 0 else if 419430400 < v2 then 419430400 else v2) 12))) 100"
    using assms by (auto simp: compensate_humidity_def Let_def bind_eq_Some_conv simp del: i32_Some)
  then show ?thesis
    by (intro exI [of _ "if v2 < 0 then 0 else if 419430400 < v2 then 419430400 else v2"])
       (auto simp: shr32_div)
qed

section \<open>Properties\<close>

definition ex_calibration :: calibration where
  \<comment> \<open>typical words: T1 27504, T2 26435, T3 -1000, H1 75, H2 362, H3 0, H4 300, H5 50, H6 30\<close>
  "ex_calibration = \<lparr>dig_t1 = 27504, dig_t2 = 26435, dig_t3 = - 1000, dig_h1 = 75, dig_h2 = 362, dig_h3 = 0,
     dig_h4 = 300, dig_h5 = 50, dig_h6 = 30\<rparr>"

text \<open>
  C38: For every 20-bit raw reading and calibration words of the usual size, the temperature
  compensation has no undefined behaviour: no 32-bit operation overflows, and what it computes is
  the compensation formula over the integers, rounded to hundredths of a degree.
\<close>

theorem bme280_temperature_no_overflow:
  assumes "26000 \<le> uint (dig_t1 c)" "uint (dig_t1 c) \<le> 39000" "\<bar>sint (dig_t2 c)\<bar> \<le> 27000"
    and "\<bar>sint (dig_t3 c)\<bar> \<le> 5000" "0 \<le> raw" "raw < 2 ^ 20"
  shows "compensate_temperature c raw =
           Some (f_div (f32 (of_int ((fine_temperature c raw * 5 + 128) div 256))) 100, fine_temperature c raw) \<and>
         \<bar>fine_temperature c raw\<bar> \<le> 1160000"
  using bme280_temperature_exact [OF assms] by blast

theorem bme280_temperature_no_overflow_witness:
  "compensate_temperature ex_calibration 519888 =
     Some (f_div (f32 (of_int ((fine_temperature ex_calibration 519888 * 5 + 128) div 256))) 100,
           fine_temperature ex_calibration 519888) \<and>
   (fine_temperature ex_calibration 519888 * 5 + 128) div 256 = 2508"
proof -
  have h: "26000 \<le> uint (dig_t1 ex_calibration)" "uint (dig_t1 ex_calibration) \<le> 39000"
    "\<bar>sint (dig_t2 ex_calibration)\<bar> \<le> 27000" "\<bar>sint (dig_t3 ex_calibration)\<bar> \<le> 5000" by code_simp+
  have "(fine_temperature ex_calibration 519888 * 5 + 128) div 256 = 2508" by code_simp
  with bme280_temperature_no_overflow [OF h, of 519888] show ?thesis by simp
qed

text \<open>
  Calibration words outside that range do reach undefined behaviour: when the raw reading lies
  far enough below \<open>dig_t1\<close> (an unprogrammed sensor has 65535 there), the square in the temperature
  compensation overflows \<open>int32_t\<close>, for any other words. Nothing checks the words.
\<close>

theorem bme280_temperature_overflows:
  assumes "0 \<le> raw" "raw div 16 + 46341 \<le> uint (dig_t1 c)"
  shows "compensate_temperature c raw = None"
proof -
  define e where "e = raw div 16 - uint (dig_t1 c)"
  have "e \<le> - 46341" using assms(2) by (simp add: e_def)
  then have "46341 * 46341 \<le> (- e) * (- e)" by (intro mult_mono) auto
  then have "i32 (e * e) = None" by (simp add: i32_def)
  moreover have "\<exists>f. i32 (e * e) = Some f" if "compensate_temperature c raw = Some r" for r
    using that unfolding compensate_temperature_def Let_def bind_eq_Some_conv shr32_div e_def
    by (auto simp del: i32_Some) (auto simp: i32_def split: if_splits)
  ultimately show ?thesis by (cases "compensate_temperature c raw") auto
qed

theorem bme280_temperature_overflows_witness:
  "compensate_temperature (calibration_new\<lparr>dig_t1 := 0xFFFF\<rparr>) 0 = None"
proof -
  have h: "0 \<le> (0 :: int)" "0 div 16 + 46341 \<le> uint (dig_t1 (calibration_new\<lparr>dig_t1 := 0xFFFF\<rparr>))"
    by code_simp+
  show ?thesis by (rule bme280_temperature_overflows [OF h])
qed

text \<open>
  The humidity the driver reports as percent is 10.24 times too large: the compensation yields
  the relative humidity in units of 1/1024 percent, clamped to 102400 of them (100 percent), and the
  driver divides by 100, so whatever the sensor says the reported value is up to 1024 \<open>percent\<close>.
\<close>

theorem bme280_humidity_scale:
  assumes "compensate_humidity c raw fine = Some h"
  shows "\<exists>units. 0 \<le> units \<and> units \<le> 102400 \<and> h = f_div (f32 (of_int units)) 100"
proof -
  obtain v where v: "0 \<le> v" "v \<le> 419430400" "h = f_div (f32 (of_int (v div 4096))) 100"
    using compensate_humidity_result [OF assms] by blast
  have "v div 4096 \<le> 419430400 div 4096" using v(2) by (rule zdiv_mono1) simp
  then show ?thesis using v by (intro exI [of _ "v div 4096"]) simp
qed

theorem bme280_humidity_scale_witness:
  "compensate_humidity ex_calibration 50000 128422 = Some (Fin 1024) \<and>
   (\<exists>units. 0 \<le> units \<and> units \<le> 102400 \<and> Fin 1024 = f_div (f32 (of_int units)) 100)"
proof -
  have "compensate_humidity ex_calibration 50000 128422 = Some (Fin 1024)" by code_simp
  with bme280_humidity_scale [OF this] show ?thesis by blast
qed

lemma signed_take_bit_nonneg: "0 \<le> n \<Longrightarrow> n < 2 ^ k \<Longrightarrow> signed_take_bit k n = n" for n :: int
  by (rule signed_take_bit_int_eq_self) (rule order_trans [of _ 0], simp_all)

lemma nibble_word:
  "uint (push_bit 4 (ucast (a :: 8 word)) OR (ucast (b :: 8 word)) :: 16 word) = uint a * 16 + uint b"
  if "uint b < 16" for a b :: "8 word"
proof -
  have a: "uint a < 256" "0 \<le> uint a" using uint_lt2p [of a] by simp_all
  have "uint (push_bit 4 (ucast a) OR ucast b :: 16 word) = take_bit 16 (push_bit 4 (uint a)) OR uint b"
    using that take_bit_int_eq_self [of "uint b" 16]
    by (simp add: unsigned_or_eq unsigned_push_bit_eq unsigned_ucast_eq take_bit_push_bit)
  also have "take_bit 16 (push_bit 4 (uint a)) = push_bit 4 (uint a)"
    using a by (intro take_bit_int_eq_self) (simp_all add: push_bit_eq_mult)
  also have "push_bit 4 (uint a) OR uint b = concat_bit 4 (uint b) (uint a)"
    using that by (simp add: concat_bit_def take_bit_int_eq_self or.commute)
  also have "\<dots> = uint a * 16 + uint b"
    using that by (simp add: concat_bit_eq take_bit_int_eq_self push_bit_eq_mult)
  finally show ?thesis .
qed

lemma sint_nibble_word:
  assumes "uint b < 16"
  shows "sint (push_bit 4 (ucast (a :: 8 word)) OR (ucast (b :: 8 word)) :: 16 word) = uint a * 16 + uint b"
proof -
  have "uint a < 256" "0 \<le> uint a" "0 \<le> uint b" using uint_lt2p [of a] by simp_all
  then have "signed_take_bit 15 (uint a * 16 + uint b) = uint a * 16 + uint b"
    using assms \<open>0 \<le> uint a\<close> \<open>0 \<le> uint b\<close> by (intro signed_take_bit_nonneg) simp_all
  then show ?thesis using nibble_word [OF assms, of a] by (simp add: sint_uint)
qed

lemma low_nibble: "uint ((b :: 8 word) AND 0x0F) = uint b mod 16"
proof -
  have "uint (b AND 0x0F) = uint b AND mask 4" by (simp add: unsigned_and_eq mask_eq_exp_minus_1)
  also have "\<dots> = take_bit 4 (uint b)" by (simp only: take_bit_eq_mask)
  finally show ?thesis by (simp add: take_bit_eq_mod)
qed

lemma high_nibble: "uint (drop_bit 4 (b :: 8 word)) = uint b div 16"
proof -
  have "uint (drop_bit 4 b) = drop_bit 4 (take_bit 8 (uint b))"
    by (simp only: unsigned_drop_bit_eq) simp
  also have "take_bit 8 (uint b) = uint b" using uint_lt2p [of b] by (intro take_bit_int_eq_self) simp_all
  finally show ?thesis by (simp add: drop_bit_eq_div)
qed

lemma sint_byte: "sint (b :: 8 word) = (if uint b < 128 then uint b else uint b - 256)"
proof (cases "uint b < 128")
  case True
  then have "signed_take_bit 7 (uint b) = uint b" by (intro signed_take_bit_nonneg) simp_all
  then show ?thesis using True by (simp add: sint_uint)
next
  case False
  have b: "uint b < 256" using uint_lt2p [of b] by simp
  have "uint b div 128 = 1" by (rule int_div_pos_eq [where r = "uint b - 128"]) (use b False in simp_all)
  then have "bit (uint b) 7" by (simp add: bit_iff_odd_drop_bit drop_bit_eq_div)
  moreover have "take_bit 8 (uint b) = uint b" using b by (intro take_bit_int_eq_self) simp_all
  ultimately show ?thesis using False by (simp add: sint_uint signed_take_bit_eq_take_bit_minus)
qed

text \<open>
  The 12-bit humidity coefficients are read without their sign: \<open>dig_h4\<close> and \<open>dig_h5\<close> never
  come out negative, and a sensor whose coefficient is negative (top bit of its high byte set) gets
  a value 4096 too high for it.
\<close>

theorem bme280_h4_h5_unsigned:
  assumes "c' = humidity_calibration hb c"
  shows "sint (dig_h4 c') = sint (hb ! 3) * 16 + uint (hb ! 4) mod 16 + (if uint (hb ! 3) < 128 then 0 else 4096) \<and>
         sint (dig_h5 c') = sint (hb ! 5) * 16 + uint (hb ! 4) div 16 + (if uint (hb ! 5) < 128 then 0 else 4096)"
proof -
  have "uint (hb ! 4) div 16 \<le> 255 div 16" using uint_lt2p [of "hb ! 4"] by (intro zdiv_mono1) simp_all
  then have n: "uint (drop_bit 4 (hb ! 4)) < 16" "uint (hb ! 4 AND 0x0F) < 16"
    by (simp_all add: low_nibble high_nibble)
  show ?thesis unfolding assms humidity_calibration_def
    using sint_nibble_word [OF n(1), of "hb ! 5"] sint_nibble_word [OF n(2), of "hb ! 3"]
    by (simp add: low_nibble high_nibble sint_byte)
qed

theorem bme280_h4_h5_unsigned_witness:
  "sint (dig_h4 (humidity_calibration [0, 0, 0, 0xF0, 0x05, 0, 0] calibration_new))
     = sint (0xF0 :: 8 word) * 16 + 5 + 4096"
  using bme280_h4_h5_unsigned [OF refl, of "[0, 0, 0, 0xF0, 0x05, 0, 0]" calibration_new] by simp

text \<open>
  The driver only comes up on a BME280: if no read of the chip id register returns the expected
  id, \<open>configure\<close> throws on every path, whatever the parameters, the bus and the clock do, and a
  driver that was never configured stays silent.
\<close>

theorem bme280_refuses_other_chips:
  fixes bus :: "('b \<times> world) i2c_bus" and d :: "'b bme280"
  assumes "\<And>a b. fst (fst (bus_write_read bus a [kChipIdRegister] [0] b)) \<Longrightarrow>
             snd (fst (bus_write_read bus a [kChipIdRegister] [0] b)) ! 0 \<noteq> kExpectedChipId"
    and "\<not> bm_configured d" "bme_configure bus default_bus p (d, w) = (e, d', w')"
  shows "e \<noteq> None \<and> rr_sample_count (fst (bme_read bus (d', w'))) = 0"
proof -
  have probe: "bme_probe bus s = (e, d', w') \<Longrightarrow> e \<noteq> None \<and> bm_configured d' = bm_configured (fst s)"
    for s e d' w'
    using assms(1) by (cases s) (auto simp: bme_probe_def bm_write_read_def Let_def case_prod_beta
        split: option.splits if_splits)
  have opened: "bme_open bus default_bus path (d, w) = (e, d', w') \<Longrightarrow>
      e \<noteq> None \<and> bm_configured d' = bm_configured d" for path d w e d' w'
    using probe by (auto simp: bme_open_def Let_def split: prod.splits if_splits)
  have "e \<noteq> None \<and> bm_configured d' = bm_configured d"
    using assms(3) opened
    by (fastforce simp: bme_configure_def Let_def split: option.splits sum.splits if_splits)
  then show ?thesis using assms(2) bme280.sense_unready [of d' bus w'] by simp
qed

definition ex_other_chip :: "(unit \<times> world) i2c_bus" where
  \<comment> \<open>a bus with a chip that answers 0x58, a BMP280\<close>
  "ex_other_chip = \<lparr>bus_open = (\<lambda>_ b. (True, b)), bus_write_read = (\<lambda>_ _ buf b. ((True, map (\<lambda>_. 0x58) buf), b)),
                    bus_write = (\<lambda>_ _ b. (True, b))\<rparr>"

theorem bme280_refuses_other_chips_witness:
  "fst (bme_configure ex_other_chip ()
          (JObject [(''bus'', JString ''/dev/i2c-1''), (''address'', JString ''0x76'')])
          (bme280_new None, ex_trig_world)) \<noteq> None"
proof -
  have h: "snd (fst (bus_write_read ex_other_chip a [kChipIdRegister] [0] b)) ! 0 \<noteq> kExpectedChipId" for a b
    by (simp add: ex_other_chip_def kExpectedChipId_def)
  have "\<not> bm_configured (bme280_new None)" by (simp add: bme280_new_def)
  from bme280_refuses_other_chips [OF h this] show ?thesis by (metis prod.collapse)
qed

end
