(* ===== verification/Devices.thy ===== *)
theory Devices
  imports Drivers Bme280 Io
begin

text \<open>
  The drivers behind \<open>std::unique_ptr<Driver>\<close>: the objects the registered factories make, the
  virtual calls on them, and which factories a program has once its drivers are linked
  (\<open>include/bossa/drivers/registry.hpp\<close>, the table \<open>kForceLinkDrivers\<close> of
  \<open>src/runtime/telemetry_runtime.cpp\<close>).
\<close>

datatype device =
    SimDevice sim_driver
  | Bme280Device "linux_i2c_bus bme280"
  | FakeBme280Device fake_bme280
  | FakeMpu6050Device fake_mpu6050
  | FakeTsl2561Device fake_tsl2561

text \<open>The factories, one for each use of \<open>BOSSA_REGISTER_DRIVER\<close>, and the name it registers.\<close>

datatype factory = SimDriver | Bme280Driver | FakeBme280Driver | FakeMpu6050Driver | FakeTsl2561Driver

fun make_device :: "factory \<Rightarrow> device" where
  "make_device SimDriver = SimDevice sim_new"
| "make_device Bme280Driver = Bme280Device (bme280_new None)"
| "make_device FakeBme280Driver = FakeBme280Device fake_bme280_new"
| "make_device FakeMpu6050Driver = FakeMpu6050Device fake_mpu6050_new"
| "make_device FakeTsl2561Driver = FakeTsl2561Device fake_tsl2561_new"

fun driver_name :: "factory \<Rightarrow> string" where
  "driver_name SimDriver = ''sim''"
| "driver_name Bme280Driver = ''bme280''"
| "driver_name FakeBme280Driver = ''fake-bme280''"
| "driver_name FakeMpu6050Driver = ''fake-mpu6050''"
| "driver_name FakeTsl2561Driver = ''fake-tsl2561''"

definition static_registration :: "factory list \<Rightarrow> factory registry" where
  \<comment> \<open>the static initialisers of the linked object files\<close>
  "static_registration linked =
     fold (\<lambda>f regs. snd (register_driver (driver_name f) (Some f) regs)) linked (\<lambda>_. None)"

definition kForceLinkDrivers :: "factory list" where
  "kForceLinkDrivers = [SimDriver, Bme280Driver]"

fun device_configure :: "json \<Rightarrow> device \<times> world \<Rightarrow> cpp_exn option \<times> device \<times> world" where
  "device_configure p (SimDevice d, w) = (let (e, d', w') = sim_configure p (d, w) in (e, SimDevice d', w'))"
| "device_configure p (Bme280Device d, w) =
     (let (e, d', w') = bme_configure linux_bus linux_i2c_bus_new p (d, w) in (e, Bme280Device d', w'))"
| "device_configure p (FakeBme280Device d, w) =
     (let (e, d', w') = fake_bme280_configure p (d, w) in (e, FakeBme280Device d', w'))"
| "device_configure p (FakeMpu6050Device d, w) =
     (let (e, d', w') = fake_mpu6050_configure p (d, w) in (e, FakeMpu6050Device d', w'))"
| "device_configure p (FakeTsl2561Device d, w) =
     (let (e, d', w') = fake_tsl2561_configure p (d, w) in (e, FakeTsl2561Device d', w'))"

fun device_read :: "device \<times> world \<Rightarrow> read_result \<times> device \<times> world" where
  "device_read (SimDevice d, w) = (let (r, d', w') = sim_read (d, w) in (r, SimDevice d', w'))"
| "device_read (Bme280Device d, w) = (let (r, d', w') = bme_read linux_bus (d, w) in (r, Bme280Device d', w'))"
| "device_read (FakeBme280Device d, w) = (let (r, d', w') = fake_bme280_read (d, w) in (r, FakeBme280Device d', w'))"
| "device_read (FakeMpu6050Device d, w) = (let (r, d', w') = fake_mpu6050_read (d, w) in (r, FakeMpu6050Device d', w'))"
| "device_read (FakeTsl2561Device d, w) = (let (r, d', w') = fake_tsl2561_read (d, w) in (r, FakeTsl2561Device d', w'))"

fun device_write :: "json \<Rightarrow> device \<times> world \<Rightarrow> cpp_exn option \<times> device \<times> world" where
  "device_write c (SimDevice d, w) = (let (e, d', w') = sim_write c (d, w) in (e, SimDevice d', w'))"
| "device_write c (Bme280Device d, w) = (let (e, d', w') = bme_write c (d, w) in (e, Bme280Device d', w'))"
| "device_write c (FakeBme280Device d, w) = (let (e, d', w') = fake_bme280_write c (d, w) in (e, FakeBme280Device d', w'))"
| "device_write c (FakeMpu6050Device d, w) = (let (e, d', w') = fake_mpu6050_write c (d, w) in (e, FakeMpu6050Device d', w'))"
| "device_write c (FakeTsl2561Device d, w) = (let (e, d', w') = fake_tsl2561_write c (d, w) in (e, FakeTsl2561Device d', w'))"

fun device_name :: "device \<Rightarrow> string" where
  "device_name (SimDevice d) = sim_name"
| "device_name (Bme280Device d) = bme280_name"
| "device_name (FakeBme280Device d) = fake_bme280_name"
| "device_name (FakeMpu6050Device d) = fake_mpu6050_name"
| "device_name (FakeTsl2561Device d) = fake_tsl2561_name"

lemma device_name_registered: "device_name (make_device f) = driver_name f"
  by (cases f) (simp_all add: sim_name_def bme280_name_def fake_bme280_name_def fake_mpu6050_name_def fake_tsl2561_name_def)

fun device_ready :: "device \<Rightarrow> bool" where
  "device_ready (SimDevice d) = sim_configured d"
| "device_ready (Bme280Device d) = bm_configured d"
| "device_ready (FakeBme280Device d) = fb_configured d"
| "device_ready (FakeMpu6050Device d) = fm_configured d"
| "device_ready (FakeTsl2561Device d) = ft_configured d"

interpretation device: sensor_driver device_configure device_read device_ready
proof (unfold_locales, goal_cases)
  case (1 d w)
  show ?case
    using sim.sense_wf bme280.sense_wf fake_bme280.sense_wf fake_mpu6050.sense_wf fake_tsl2561.sense_wf
    by (cases d) (simp_all add: case_prod_beta Let_def)
next
  case (2 d w)
  then show ?case
    using sim.sense_unready bme280.sense_unready fake_bme280.sense_unready fake_mpu6050.sense_unready
      fake_tsl2561.sense_unready
    by (cases d) (simp_all add: case_prod_beta Let_def)
next
  case (3 d w)
  show ?case
    using sim.sense_ready bme280.sense_ready fake_bme280.sense_ready fake_mpu6050.sense_ready
      fake_tsl2561.sense_ready
    by (cases d) (simp_all add: case_prod_beta Let_def)
next
  case (4 p d w d' w')
  then show ?case
    using sim.start_ready bme280.start_ready fake_bme280.start_ready fake_mpu6050.start_ready
      fake_tsl2561.start_ready
    by (cases d) (auto simp: Let_def split: prod.splits)
qed

text \<open>
  What a driver does to the world: the clock of the samples and the bus move on, nothing else changes.
\<close>

definition device_world :: "world \<Rightarrow> world \<Rightarrow> bool" where
  "device_world w w' \<longleftrightarrow>
     (\<exists>a b u. w' = w\<lparr>w_system_n := a, w_device_n := b, w_undefined := u\<rparr>)"

lemma device_world_refl [simp]: "device_world w w"
  unfolding device_world_def by (intro exI [of _ "w_system_n w"] exI [of _ "w_device_n w"] exI [of _ "w_undefined w"]) simp

lemma device_world_trans: "device_world w w' \<Longrightarrow> device_world w' w'' \<Longrightarrow> device_world w w''"
  unfolding device_world_def by fastforce

lemma device_world_updates:
  "device_world w (w\<lparr>w_system_n := a\<rparr>)" "device_world w (w\<lparr>w_device_n := b\<rparr>)" "device_world w (w\<lparr>w_undefined := u\<rparr>)"
proof -
  have "w\<lparr>w_system_n := a\<rparr> = w\<lparr>w_system_n := a, w_device_n := w_device_n w, w_undefined := w_undefined w\<rparr>"
    "w\<lparr>w_device_n := b\<rparr> = w\<lparr>w_system_n := w_system_n w, w_device_n := b, w_undefined := w_undefined w\<rparr>"
    "w\<lparr>w_undefined := u\<rparr> = w\<lparr>w_system_n := w_system_n w, w_device_n := w_device_n w, w_undefined := u\<rparr>"
    by simp_all
  then show "device_world w (w\<lparr>w_system_n := a\<rparr>)" "device_world w (w\<lparr>w_device_n := b\<rparr>)"
      "device_world w (w\<lparr>w_undefined := u\<rparr>)"
    unfolding device_world_def by blast+
qed

lemma system_now_device: "system_now w = (t, w') \<Longrightarrow> device_world w w'"
  by (auto simp: system_now_def device_world_updates)

text \<open>The bus of the Linux kernel.\<close>

lemma linux_bus_world:
  "bus_open linux_bus path (lb, w) = (ok, lb', w') \<Longrightarrow> device_world w w'"
  "bus_write_read linux_bus a out buf (lb, w) = (r, lb', w') \<Longrightarrow> device_world w w'"
  "bus_write linux_bus a out (lb, w) = (ok, lb', w') \<Longrightarrow> device_world w w'"
  by (auto simp: linux_bus_def linux_open_def linux_write_read_def linux_write_def open_device_def
      i2c_ioctl_def Let_def device_world_updates split: if_splits prod.splits)

lemma bm_calls_world:
  "bm_write_read linux_bus reg n (d, w) = (r, d', w') \<Longrightarrow> device_world w w'"
  "bm_write linux_bus bytes (d, w) = (ok, d', w') \<Longrightarrow> device_world w w'"
  by (auto simp: bm_write_read_def bm_write_def Let_def device_world_updates
      split: option.splits prod.splits dest: linux_bus_world)

lemma load_calibration_world:
  assumes "load_calibration linux_bus (d, w) = (ok, d', w')"
  shows "device_world w w'"
proof -
  obtain ok1 b1 d1 w1 where 1: "bm_write_read linux_bus kCalibStartRegister 26 (d, w) = ((ok1, b1), d1, w1)"
    by (metis surj_pair)
  obtain ok2 b2 d2 w2 where 2: "bm_write_read linux_bus kHumidityCalibStartRegister 7
      (d1\<lparr>bm_calibration := temperature_calibration b1 (bm_calibration d1)\<rparr>, w1) = ((ok2, b2), d2, w2)"
    by (metis surj_pair)
  have "w' = w1 \<or> w' = w2" using assms 1 2 by (auto simp: load_calibration_def Let_def split: if_splits)
  then show ?thesis using bm_calls_world(1) [OF 1] bm_calls_world(1) [OF 2] device_world_trans by blast
qed

lemma bme_probe_world:
  assumes "bme_probe linux_bus (d, w) = (e, d', w')"
  shows "device_world w w'"
proof -
  obtain ok b d1 w1 where 1: "bm_write_read linux_bus kChipIdRegister 1 (d, w) = ((ok, b), d1, w1)"
    by (metis surj_pair)
  obtain ok2 d2 w2 where 2: "load_calibration linux_bus (d1, w1) = (ok2, d2, w2)" by (metis surj_pair)
  have "w' = w1 \<or> w' = w2" using assms 1 2 by (auto simp: bme_probe_def Let_def split: if_splits)
  then show ?thesis
    using bm_calls_world(1) [OF 1] load_calibration_world [OF 2] device_world_trans by blast
qed

lemma bme_open_world:
  assumes "bme_open linux_bus b0 path (d, w) = (e, d', w')"
  shows "device_world w w'"
proof -
  obtain ok b w1 where 1: "bus_open linux_bus path (case bm_bus d of None \<Rightarrow> b0 | Some b \<Rightarrow> b, w) = (ok, b, w1)"
    by (metis surj_pair)
  have "w' = w1 \<or> (\<exists>d1 e. bme_probe linux_bus (d1, w1) = (e, d', w'))"
    using assms 1 by (auto simp: bme_open_def Let_def split: if_splits)
  then show ?thesis
    using linux_bus_world(1) [OF 1] bme_probe_world device_world_trans by blast
qed

lemma bme_world:
  "bme_configure linux_bus b0 p (d, w) = (e, d', w') \<Longrightarrow> device_world w w'"
  "bme_read linux_bus (d, w) = (r, d', w') \<Longrightarrow> device_world w w'"
proof -
  show "bme_configure linux_bus b0 p (d, w) = (e, d', w') \<Longrightarrow> device_world w w'"
    by (auto simp: bme_configure_def Let_def dest: bme_open_world split: option.splits if_splits sum.splits)
  assume r: "bme_read linux_bus (d, w) = (r, d', w')"
  obtain ok d1 w1 where 1: "bm_write linux_bus [kCtrlHumidityRegister, 0x01] (d, w) = (ok, d1, w1)"
    by (metis surj_pair)
  obtain ok2 d2 w2 where 2: "bm_write linux_bus [kCtrlMeasureRegister, 0x25] (d1, w1) = (ok2, d2, w2)"
    by (metis surj_pair)
  obtain tr d3 w3 where 3: "trigger_measurement linux_bus (d, w) = (tr, d3, w3)" by (metis surj_pair)
  have w3: "device_world w w3"
    using 3 bm_calls_world(2) [OF 1] bm_calls_world(2) [OF 2] device_world_trans 1 2
    by (auto simp: trigger_measurement_def split: if_splits)
  obtain ok4 b4 d4 w4 where 4: "bm_write_read linux_bus kDataStartRegister 8 (d3, w3) = ((ok4, b4), d4, w4)"
    by (metis surj_pair)
  have w4: "device_world w w4" using w3 bm_calls_world(1) [OF 4] device_world_trans by blast
  have w5: "device_world w (snd (system_now w4))" "device_world w (w4\<lparr>w_undefined := True\<rparr>)"
    using w4 device_world_trans device_world_updates system_now_device [OF prod.collapse [symmetric]] by blast+
  have "w' \<in> {w, w3, w4, w4\<lparr>w_undefined := True\<rparr>, snd (system_now w4)}"
    using r 3 4 by (auto simp: bme_read_def read_raw_def Let_def split: if_splits bool.splits option.splits prod.splits)
  with w3 w4 w5 show "device_world w w'" by auto
qed

lemma device_configure_world:
  assumes "device_configure p (d, w) = (e, d', w')"
  shows "device_world w w'"
  using assms bme_world(1)
  by (cases d) (auto simp: sim_configure_def fake_bme280_configure_def fake_mpu6050_configure_def
      fake_tsl2561_configure_def Let_def split: prod.splits option.splits if_splits sum.splits)

lemma device_read_world:
  assumes "device_read (d, w) = (r, d', w')"
  shows "device_world w w'"
  using assms bme_world(2)
  by (cases d) (auto simp: sim_read_def fake_bme280_read_def fake_mpu6050_read_def
      fake_tsl2561_read_def Let_def split: prod.splits if_splits dest: system_now_device)

end
