(* ===== verification/Runtime.thy ===== *)
theory Runtime
  imports RingBuffer Scheduler UploadPolicy HttpUploader Devices Config
begin

text \<open>
  The pipeline, \<open>src/runtime/telemetry_runtime.cpp\<close>: building drivers, schedule, buffer, store and
  uploader from a configuration, and the step that polls, flushes and retries. The registry of
  drivers, the contents of the key file and the text of an exception are parameters.
\<close>

section \<open>State\<close>

record binding =
  bd_config :: channel_config
  bd_driver :: device

record telemetry_runtime =
  rt_config :: config
  rt_api_key :: string
  rt_channels :: "(string \<times> binding) list"
  rt_scheduler :: scheduler
  rt_buffer :: "ring_buffer option"
  rt_store :: local_store
  rt_policy :: upload_policy
  rt_uploader :: "http_uploader option"
  rt_last_error :: string
  rt_accepted_upload_count :: nat
  rt_retry_attempt :: int
  rt_next_retry_at :: int
  rt_store_open :: bool

type_synonym runtime = "telemetry_runtime \<times> world"

definition runtime_new :: telemetry_runtime where
  "runtime_new =
     \<lparr>rt_config = config_new, rt_api_key = [], rt_channels = [], rt_scheduler = [], rt_buffer = None,
      rt_store = local_store_new, rt_policy = upload_policy_new, rt_uploader = None, rt_last_error = [],
      rt_accepted_upload_count = 0, rt_retry_attempt = 0, rt_next_retry_at = 0, rt_store_open = False\<rparr>"

record runtime_env =
  re_registry :: "factory registry"
  re_key_file :: "string \<Rightarrow> string option"    \<comment> \<open>the contents, if the file can be opened\<close>
  re_what :: "cpp_exn \<Rightarrow> string"

section \<open>Configuration\<close>

definition read_api_key_file :: "runtime_env \<Rightarrow> string \<Rightarrow> string" where
  "read_api_key_file env path =
     (if path = [] then []
      else (case re_key_file env path of
              None \<Rightarrow> []
            | Some file \<Rightarrow>
                (let key = takeWhile (\<lambda>ch. ch \<noteq> CHR 0x0A) file
                 in rev (dropWhile (\<lambda>ch. ch = CHR 0x0A \<or> ch = CHR 0x0D) (rev key)))))"

definition reset_backoff_after_success :: "telemetry_runtime \<Rightarrow> telemetry_runtime" where
  "reset_backoff_after_success rt = rt\<lparr>rt_retry_attempt := 0, rt_next_retry_at := 0\<rparr>"

definition fresh_members :: "runtime_env \<Rightarrow> config \<Rightarrow> string \<Rightarrow> telemetry_runtime \<Rightarrow> telemetry_runtime" where
  \<comment> \<open>\<open>configure\<close> up to the new buffer: the scheduler and the store are not touched\<close>
  "fresh_members env c api_key rt =
     (let rt = rt\<lparr>rt_last_error := [], rt_config := c,
                  rt_api_key := (if api_key \<noteq> [] then api_key
                                 else read_api_key_file env (nd_api_key_file (cfg_node c))),
                  rt_channels := [], rt_policy := policy_clear (rt_policy rt), rt_uploader := None,
                  rt_buffer := None, rt_accepted_upload_count := 0\<rparr>;
          rt = reset_backoff_after_success rt;
          capacity = (if 0 < sv_max_batch_size (cfg_server c) then nat (sv_max_batch_size (cfg_server c)) else 500)
      in case ring_buffer_new capacity of
           Inl _ \<Rightarrow> rt
         | Inr rb \<Rightarrow> rt\<lparr>rt_buffer := Some rb\<rparr>)"

definition open_local_store :: "runtime \<Rightarrow> bool \<times> runtime" where
  "open_local_store = (\<lambda>(rt, w).
     (if lc_path (cfg_local_storage (rt_config rt)) \<noteq> []
      then (let (ok, ls, w) = open_store (lc_path (cfg_local_storage (rt_config rt))) (rt_store rt, w);
                rt = rt\<lparr>rt_store := ls, rt_store_open := ok\<rparr>
            in if \<not> ok then (False, rt\<lparr>rt_last_error := ls_last_error ls\<rparr>, w) else (True, rt, w))
      else (True, rt\<lparr>rt_store_open := False\<rparr>, w)))"

definition sync_state_of :: "channel_config \<Rightarrow> channel_sync_state" where
  "sync_state_of ch =
     \<lparr>cy_channel_id = ch_id ch, cy_mode = sy_mode (ch_sync ch), cy_priority = sy_priority (ch_sync ch),
      cy_remote_interval = sy_remote_interval_seconds (ch_sync ch),
      cy_on_change_threshold = sy_on_change_threshold (ch_sync ch),
      cy_destination_remote = sy_destination_remote (ch_sync ch)\<rparr>"

definition emplace :: "string \<Rightarrow> 'v \<Rightarrow> (string \<times> 'v) list \<Rightarrow> (string \<times> 'v) list" where
  \<comment> \<open>\<open>unordered_map::emplace\<close>: a key that is there keeps its value\<close>
  "emplace k v m = (if map_of m k = None then m @ [(k, v)] else m)"

fun bind_channels :: "runtime_env \<Rightarrow> channel_config list \<Rightarrow> schedule_entry list \<Rightarrow> runtime \<Rightarrow>
    schedule_entry list option \<times> runtime" where
  \<comment> \<open>the loop over the channels; no schedule when it returned \<open>false\<close>\<close>
  "bind_channels env [] schedule s = (Some schedule, s)"
| "bind_channels env (ch # chs) schedule (rt, w) =
     (if d_less_eq (ch_sample_rate_hz ch) (Fin 0) then bind_channels env chs schedule (rt, w)
      else (case registry_create (ch_driver ch) (re_registry env) of
        None \<Rightarrow> (None, rt\<lparr>rt_last_error := ''unknown driver: '' @ ch_driver ch\<rparr>, w)
      | Some f \<Rightarrow>
          (case device_configure (ch_parameters ch) (make_device f, w) of
             (Some ex, _, w1) \<Rightarrow>
               (None, rt\<lparr>rt_last_error := ''configure '' @ ch_id ch @ '': '' @ re_what env ex\<rparr>, w1)
           | (None, d, w1) \<Rightarrow>
               (let (now, w2) = steady_now w1;
                    rt = rt\<lparr>rt_policy := configure_channel (sync_state_of ch) now (rt_policy rt),
                            rt_channels := emplace (ch_id ch) \<lparr>bd_config = ch, bd_driver = d\<rparr> (rt_channels rt)\<rparr>
                in bind_channels env chs
                     (schedule @ [\<lparr>se_channel_id = ch_id ch, se_sample_rate_hz = ch_sample_rate_hz ch\<rparr>])
                     (rt, w2)))))"

definition make_uploader :: "telemetry_runtime \<Rightarrow> http_uploader option" where
  "make_uploader rt =
     (if sv_url (cfg_server (rt_config rt)) = [] then None
      else Some \<lparr>up_has_store = rt_store_open rt, up_server_url = sv_url (cfg_server (rt_config rt)),
                 up_node_id = nd_id (cfg_node (rt_config rt)), up_api_key = rt_api_key rt,
                 up_timeout_seconds = sv_upload_timeout_seconds (cfg_server (rt_config rt))\<rparr>)"

definition finish_configure :: "schedule_entry list \<Rightarrow> runtime \<Rightarrow> (bool \<times> runtime) option" where
  "finish_configure schedule = (\<lambda>(rt, w).
     (let (now, w) = steady_now w in
      case Scheduler.configure now schedule of
        None \<Rightarrow> None
      | Some channels \<Rightarrow>
          (let rt = rt\<lparr>rt_scheduler := channels\<rparr>
           in Some (True, rt\<lparr>rt_uploader := make_uploader rt\<rparr>, w))))"

definition runtime_configure :: "runtime_env \<Rightarrow> config \<Rightarrow> string \<Rightarrow> runtime \<Rightarrow> (bool \<times> runtime) option" where
  \<comment> \<open>nothing when the period of a rate is out of the range of its conversion, which is undefined\<close>
  "runtime_configure env c api_key = (\<lambda>(rt, w).
     (let (ok, s) = open_local_store (fresh_members env c api_key rt, w) in
      if \<not> ok then Some (False, s)
      else (case bind_channels env (cfg_channels c) [] s of
              (None, s) \<Rightarrow> Some (False, s)
            | (Some schedule, s) \<Rightarrow> finish_configure schedule s)))"

section \<open>Polling\<close>

fun take_samples :: "string \<Rightarrow> priority \<Rightarrow> int \<Rightarrow> sample list \<Rightarrow> ring_buffer \<times> upload_policy \<Rightarrow>
    ring_buffer \<times> upload_policy" where
  \<comment> \<open>the loop over the samples of one reading\<close>
  "take_samples channel_id p now [] bp = bp"
| "take_samples channel_id p now (s # rest) (rb, pol) =
     take_samples channel_id p now rest
       (snd (enqueue (from_sample s p) rb), on_sample channel_id (sa_value s) now pol)"

definition poll_channel :: "string \<Rightarrow> runtime \<Rightarrow> runtime" where
  "poll_channel channel_id = (\<lambda>(rt, w).
     (case map_of (rt_channels rt) channel_id of
        None \<Rightarrow> (rt, w)
      | Some b \<Rightarrow>
          (let (result, d, w1) = device_read (bd_driver b, w);
               (now, w2) = steady_now w1;
               rt = rt\<lparr>rt_channels := AList.update channel_id (b\<lparr>bd_driver := d\<rparr>) (rt_channels rt)\<rparr>
           in case rt_buffer rt of
                None \<Rightarrow> (rt, if 0 < rr_sample_count result then w2\<lparr>w_undefined := True\<rparr> else w2)
              | Some rb \<Rightarrow>
                  (let (rb, pol) = take_samples channel_id (sy_priority (ch_sync (bd_config b))) now
                                     (take (rr_sample_count result) (rr_samples result)) (rb, rt_policy rt)
                   in (rt\<lparr>rt_buffer := Some rb, rt_policy := pol\<rparr>, w2)))))"

section \<open>Uploading\<close>

definition backoff_delay :: "int \<Rightarrow> int" where
  \<comment> \<open>in nanoseconds\<close>
  "backoff_delay attempt =
     (let delays = [5, 10, 30, 60, 300];
          i = (if attempt - 1 < 0 then 0
               else if int (length delays) - 1 < attempt - 1 then int (length delays) - 1
               else attempt - 1)
      in (delays ! nat i) * 1000000000)"

definition advance_backoff_after_failure :: "runtime \<Rightarrow> runtime" where
  "advance_backoff_after_failure = (\<lambda>(rt, w).
     (let rt = rt\<lparr>rt_retry_attempt := rt_retry_attempt rt + 1\<rparr>;
          (now, w) = steady_now w
      in (rt\<lparr>rt_next_retry_at := now + backoff_delay (rt_retry_attempt rt)\<rparr>, w)))"

definition max_batch :: "telemetry_runtime \<Rightarrow> nat" where
  "max_batch rt = nat (max 1 (sv_max_batch_size (cfg_server (rt_config rt))))"

datatype 's step_result = Done 's | Raised cpp_exn 's

definition after_upload :: "int \<Rightarrow> (cpp_exn + upload_result) \<times> runtime \<Rightarrow> runtime step_result" where
  "after_upload now = (\<lambda>(result, rt, w).
     (case result of
        Inl e \<Rightarrow> Raised e (rt, w)
      | Inr KAccepted \<Rightarrow>
          (let rt = reset_backoff_after_success (rt\<lparr>rt_policy := mark_flushed now (rt_policy rt)\<rparr>)
           in Done (rt\<lparr>rt_accepted_upload_count := rt_accepted_upload_count rt + 1\<rparr>, w))
      | Inr KRejected \<Rightarrow> Done (rt\<lparr>rt_policy := mark_flushed now (rt_policy rt)\<rparr>, w)
      | Inr KTransientFailure \<Rightarrow> Done (advance_backoff_after_failure (rt, w))))"

definition maybe_flush :: "runtime \<Rightarrow> runtime step_result" where
  "maybe_flush = (\<lambda>(rt, w).
     (case (rt_uploader rt, rt_buffer rt) of
        (Some up, Some rb) \<Rightarrow>
          (let (now, w) = steady_now w in
           if \<not> should_flush now (rb_size rb) (max_batch rt) (rt_policy rt) then Done (rt, w)
           else (let (batch, rb) = drain dequeue (max_batch rt) [] rb;
                     rt = rt\<lparr>rt_buffer := Some rb\<rparr>
                 in if batch = [] then Done (rt, w)
                    else (let (result, ls, w) = upload up batch (rt_store rt, w)
                          in after_upload now (result, rt\<lparr>rt_store := ls\<rparr>, w))))
      | _ \<Rightarrow> Done (rt, w)))"

definition store_pending :: "runtime \<Rightarrow> nat \<times> runtime" where
  "store_pending = (\<lambda>(rt, w). (let (n, ls, w) = pending_count (rt_store rt, w) in (n, rt\<lparr>rt_store := ls\<rparr>, w)))"

definition after_retry :: "(cpp_exn + upload_result) \<times> runtime \<Rightarrow> runtime step_result" where
  "after_retry = (\<lambda>(result, rt, w).
     (case result of
        Inl e \<Rightarrow> Raised e (rt, w)
      | Inr r \<Rightarrow>
          (if r = KAccepted
           then (let rt = reset_backoff_after_success rt
                 in Done (rt\<lparr>rt_accepted_upload_count := rt_accepted_upload_count rt + 1\<rparr>, w))
           else Done (advance_backoff_after_failure (rt, w)))))"

definition maybe_retry :: "runtime \<Rightarrow> runtime step_result" where
  "maybe_retry = (\<lambda>(rt, w).
     (case rt_uploader rt of
        None \<Rightarrow> Done (rt, w)
      | Some up \<Rightarrow>
         (if \<not> rt_store_open rt then Done (rt, w)
          else (let (pending, rt, w) = store_pending (rt, w) in
            if pending = 0 then Done (rt, w)
            else (let (now, w) = steady_now w in
              if 0 < rt_retry_attempt rt \<and> now < rt_next_retry_at rt then Done (rt, w)
              else (let (result, ls, w) = retry_pending up (max_batch rt) (rt_store rt, w)
                    in after_retry (result, rt\<lparr>rt_store := ls\<rparr>, w)))))))"

section \<open>The step and its next time\<close>

definition poll_due :: "runtime \<Rightarrow> runtime option" where
  \<comment> \<open>\<open>scheduler_.dispatch_due\<close> with the poll as its callback\<close>
  "poll_due = (\<lambda>(rt, w).
     (let (now, w) = steady_now w in
      case dispatch_due (Some poll_channel) now (rt_scheduler rt) (rt, w) of
        None \<Rightarrow> None
      | Some (_, channels, rt, w) \<Rightarrow> Some (rt\<lparr>rt_scheduler := channels\<rparr>, w)))"

definition tick :: "runtime \<Rightarrow> runtime step_result option" where
  \<comment> \<open>nothing when the catch-up loop of the scheduler does not end\<close>
  "tick s =
     (if rt_channels (fst s) = [] then Some (Done s)
      else (case poll_due s of
              None \<Rightarrow> None
            | Some s \<Rightarrow> Some (case maybe_flush s of
                                Raised e s \<Rightarrow> Raised e s
                              | Done s \<Rightarrow> maybe_retry s)))"

definition next_wake :: "runtime \<Rightarrow> int option \<times> runtime" where
  "next_wake = (\<lambda>(rt, w).
     (let wake = next_deadline (rt_scheduler rt);
          (pending, rt, w) = (if rt_store_open rt then store_pending (rt, w) else (0, rt, w))
      in if 0 < pending \<and> 0 < rt_retry_attempt rt
         then (case wake of
                 None \<Rightarrow> (Some (rt_next_retry_at rt), rt, w)
               | Some t \<Rightarrow> (Some (if rt_next_retry_at rt < t then rt_next_retry_at rt else t), rt, w))
         else (wake, rt, w)))"

definition buffered_count :: "telemetry_runtime \<Rightarrow> nat" where
  "buffered_count rt = (case rt_buffer rt of None \<Rightarrow> 0 | Some rb \<Rightarrow> rb_size rb)"

definition runtime_pending_count :: "runtime \<Rightarrow> nat \<times> runtime" where
  "runtime_pending_count s = (if rt_store_open (fst s) then store_pending s else (0, s))"

definition accepted_upload_count :: "telemetry_runtime \<Rightarrow> nat" where
  "accepted_upload_count rt = rt_accepted_upload_count rt"

definition last_error :: "telemetry_runtime \<Rightarrow> string" where
  "last_error rt = rt_last_error rt"

definition unlock_retry_for_test :: "runtime \<Rightarrow> runtime" where
  "unlock_retry_for_test = (\<lambda>(rt, w).
     (let (now, w) = steady_now w in (rt\<lparr>rt_retry_attempt := 1, rt_next_retry_at := now\<rparr>, w)))"

section \<open>The invariant\<close>

declare store_wf.simps [simp del]

definition wf_binding :: "string \<times> binding \<Rightarrow> bool" where
  "wf_binding kb \<longleftrightarrow> ch_id (bd_config (snd kb)) = fst kb \<and> device_ready (bd_driver (snd kb))"

definition wf_buffer :: "ring_buffer \<Rightarrow> bool" where
  "wf_buffer rb \<longleftrightarrow> rb_wf rb \<and> (\<forall>x \<in> set (contents rb). wf_stored x)"

definition wf_members :: "telemetry_runtime \<Rightarrow> bool" where
  "wf_members rt \<longleftrightarrow>
     distinct (map fst (rt_channels rt)) \<and> list_all wf_binding (rt_channels rt) \<and>
     (case rt_buffer rt of None \<Rightarrow> rt_channels rt = [] | Some rb \<Rightarrow> wf_buffer rb) \<and>
     (rt_store_open rt \<longrightarrow> ls_db (rt_store rt) \<noteq> None) \<and>
     (case rt_uploader rt of None \<Rightarrow> rt_retry_attempt rt = 0 | Some up \<Rightarrow> up_has_store up = rt_store_open rt) \<and>
     0 \<le> rt_retry_attempt rt"

definition runtime_wf :: "runtime \<Rightarrow> bool" where
  "runtime_wf s \<longleftrightarrow> wf_members (fst s) \<and> store_wf (rt_store (fst s), snd s)"

text \<open>The world a pipeline operation leaves: parameters unchanged, the counters may move.\<close>

lemma device_world_store:
  assumes "device_world w w'"
  shows "store_wf (ls, w') = store_wf (ls, w)" "store_rows (ls, w') = store_rows (ls, w)"
    "w_posts w' = w_posts w" "w_steady w' = w_steady w" "w_sqlite w' = w_sqlite w" "same_net w w'"
    "w_steady_n w' = w_steady_n w"
  using assms by (auto simp: device_world_def store_rows_def same_net_def store_wf.simps split: option.splits)

lemma steady_now_store [simp]:
  "store_wf (ls, w\<lparr>w_steady_n := n\<rparr>) = store_wf (ls, w)"
  "store_rows (ls, w\<lparr>w_steady_n := n\<rparr>) = store_rows (ls, w)"
  "store_wf (ls, w\<lparr>w_undefined := b\<rparr>) = store_wf (ls, w)"
  "store_rows (ls, w\<lparr>w_undefined := b\<rparr>) = store_rows (ls, w)"
  by (simp_all add: store_rows_def store_wf.simps split: option.splits)

section \<open>Polling\<close>

lemma take_samples_spec:
  "take_samples i p now ss (rb, pol) =
     (fold (\<lambda>s rb. snd (enqueue (from_sample s p) rb)) ss rb,
      fold (\<lambda>s pol. on_sample i (sa_value s) now pol) ss pol)"
  by (induction ss arbitrary: rb pol) simp_all

lemma wf_buffer_enqueue [wf_intros]:
  assumes "wf_buffer rb" "wf_stored x"
  shows "wf_buffer (snd (enqueue x rb))"
proof -
  have rb: "rb_wf rb" using assms(1) by (simp add: wf_buffer_def)
  have "set (remove_nth k (contents rb)) \<subseteq> set (contents rb)" for k by (rule set_remove_nth_subset)
  then have "set (contents (snd (enqueue x rb))) \<subseteq> insert x (set (contents rb))"
    using enqueue_refines [OF rb, of x] by (fastforce simp: queue_enqueue_def split: if_splits)
  then show ?thesis using assms rb.invar_enq [OF rb] by (auto simp: wf_buffer_def)
qed

lemma wf_buffer_fold:
  "wf_buffer rb \<Longrightarrow> wf_buffer (fold (\<lambda>s rb. snd (enqueue (from_sample s p) rb)) ss rb)"
  by (induction ss arbitrary: rb) (simp_all add: wf_buffer_enqueue wf_from_sample)

lemma rb_capacity_fold:
  "rb_wf rb \<Longrightarrow> rb_capacity (fold (\<lambda>s rb. snd (enqueue (from_sample s p) rb)) ss rb) = rb_capacity rb"
proof (induction ss arbitrary: rb)
  case (Cons s ss)
  then show ?case using rb.invar_enq rb.room_enq by simp
qed simp

lemma list_all_update:
  "list_all P xs \<Longrightarrow> P (k, v) \<Longrightarrow> list_all P (AList.update k v xs)"
  by (induction xs) auto

lemma wf_binding_lookup:
  "list_all wf_binding chs \<Longrightarrow> map_of chs k = Some b \<Longrightarrow> wf_binding (k, b)"
  by (auto simp: list.pred_set dest: map_of_SomeD)

text \<open>The world after a poll, and what it does to the members.\<close>

definition poll_world :: "world \<Rightarrow> world \<Rightarrow> bool" where
  "poll_world w w' \<longleftrightarrow> (\<exists>a b u n. w_steady_n w \<le> n \<and>
     w' = w\<lparr>w_system_n := a, w_device_n := b, w_undefined := u, w_steady_n := n\<rparr>)"

lemma poll_world_refl [simp]: "poll_world w w"
  unfolding poll_world_def
  by (intro exI [of _ "w_system_n w"] exI [of _ "w_device_n w"] exI [of _ "w_undefined w"]
      exI [of _ "w_steady_n w"]) simp

lemma poll_world_trans:
  assumes "poll_world w w'" "poll_world w' w''"
  shows "poll_world w w''"
proof -
  obtain a b u n where "w_steady_n w \<le> n"
      "w' = w\<lparr>w_system_n := a, w_device_n := b, w_undefined := u, w_steady_n := n\<rparr>"
    using assms(1) unfolding poll_world_def by blast
  moreover obtain a' b' u' n' where "w_steady_n w' \<le> n'"
      "w'' = w'\<lparr>w_system_n := a', w_device_n := b', w_undefined := u', w_steady_n := n'\<rparr>"
    using assms(2) unfolding poll_world_def by blast
  ultimately show ?thesis
    unfolding poll_world_def by (intro exI [of _ a'] exI [of _ b'] exI [of _ u'] exI [of _ n']) simp
qed

lemma poll_world_device:
  assumes "device_world w w1" "w_steady_n w \<le> n"
  shows "poll_world w (w1\<lparr>w_steady_n := n\<rparr>)"
proof -
  obtain a b u where "w1 = w\<lparr>w_system_n := a, w_device_n := b, w_undefined := u\<rparr>"
    using assms(1) unfolding device_world_def by blast
  then show ?thesis using assms(2)
    unfolding poll_world_def by (intro exI [of _ a] exI [of _ b] exI [of _ u] exI [of _ n]) simp
qed

lemma device_poll_world:
  assumes "device_world w w1"
  shows "poll_world w w1"
proof -
  obtain a b u where "w1 = w\<lparr>w_system_n := a, w_device_n := b, w_undefined := u\<rparr>"
    using assms unfolding device_world_def by blast
  then have "w1\<lparr>w_steady_n := w_steady_n w\<rparr> = w1" by simp
  then show ?thesis using poll_world_device [OF assms, of "w_steady_n w"] by simp
qed

lemma poll_world_steady: "poll_world w (snd (steady_now w))"
  using poll_world_device [of w w "w_steady_n w + 1"] by (simp add: steady_now_def)

lemma poll_world_store:
  assumes "poll_world w w'"
  shows "store_wf (ls, w') = store_wf (ls, w)" "store_rows (ls, w') = store_rows (ls, w)"
    "w_posts w' = w_posts w" "w_steady w' = w_steady w" "w_sqlite w' = w_sqlite w" "same_net w w'"
    "w_steady_n w \<le> w_steady_n w'" "w_disk w' = w_disk w"
  using assms by (auto simp: poll_world_def store_rows_def same_net_def store_wf.simps split: option.splits)

lemma poll_channel_unknown: "map_of (rt_channels rt) i = None \<Longrightarrow> poll_channel i (rt, w) = (rt, w)"
  by (simp add: poll_channel_def)

lemma poll_channel_known:
  assumes "map_of (rt_channels rt) i = Some b" "rt_buffer rt = Some rb" "device_read (bd_driver b, w) = (r, d, w1)"
  defines "ss \<equiv> take (rr_sample_count r) (rr_samples r)"
  defines "now \<equiv> fst (steady_now w1)"
  shows "poll_channel i (rt, w) =
    (rt\<lparr>rt_channels := AList.update i (b\<lparr>bd_driver := d\<rparr>) (rt_channels rt),
        rt_buffer := Some (fold (\<lambda>s rb. snd (enqueue (from_sample s (sy_priority (ch_sync (bd_config b)))) rb)) ss rb),
        rt_policy := fold (\<lambda>s pol. on_sample i (sa_value s) now pol) ss (rt_policy rt)\<rparr>,
     snd (steady_now w1))"
  using assms by (simp add: poll_channel_def Let_def take_samples_spec case_prod_beta)

definition polled :: "runtime \<Rightarrow> runtime \<Rightarrow> bool" where
  \<comment> \<open>what any number of polls changes: the drivers, the buffer and the policy\<close>
  "polled s s' \<longleftrightarrow> poll_world (snd s) (snd s') \<and> map fst (rt_channels (fst s')) = map fst (rt_channels (fst s)) \<and>
     (\<exists>chs buf pol. fst s' = (fst s)\<lparr>rt_channels := chs, rt_buffer := buf, rt_policy := pol\<rparr>)"

lemma polled_refl [simp]: "polled s s"
  unfolding polled_def
  by (intro conjI exI [of _ "rt_channels (fst s)"] exI [of _ "rt_buffer (fst s)"] exI [of _ "rt_policy (fst s)"])
     simp_all

lemma polled_trans: "polled s s' \<Longrightarrow> polled s' s'' \<Longrightarrow> polled s s''"
  unfolding polled_def using poll_world_trans by fastforce

lemma poll_channel_effect:
  assumes "runtime_wf (rt, w)" "poll_channel i (rt, w) = (rt', w')"
  shows "runtime_wf (rt', w') \<and> polled (rt, w) (rt', w')"
proof (cases "map_of (rt_channels rt) i")
  case None
  then show ?thesis using assms
    by (auto simp: poll_channel_unknown [OF None])
next
  case (Some b)
  have m: "wf_members rt" "store_wf (rt_store rt, w)" using assms(1) by (simp_all add: runtime_wf_def)
  have ne: "rt_channels rt \<noteq> []" using Some by auto
  then obtain rb where rb: "rt_buffer rt = Some rb" "wf_buffer rb"
    using m(1) by (auto simp: wf_members_def split: option.splits)
  have b: "wf_binding (i, b)" using m(1) Some wf_binding_lookup by (auto simp: wf_members_def)
  obtain r d w1 where rd: "device_read (bd_driver b, w) = (r, d, w1)" by (metis surj_pair)
  define chs buf pol where "chs = AList.update i (b\<lparr>bd_driver := d\<rparr>) (rt_channels rt)"
    and "buf = fold (\<lambda>s rb. snd (enqueue (from_sample s (sy_priority (ch_sync (bd_config b)))) rb))
                 (take (rr_sample_count r) (rr_samples r)) rb"
    and "pol = fold (\<lambda>s pol. on_sample i (sa_value s) (fst (steady_now w1)) pol)
                 (take (rr_sample_count r) (rr_samples r)) (rt_policy rt)"
  have rt': "rt' = rt\<lparr>rt_channels := chs, rt_buffer := Some buf, rt_policy := pol\<rparr>" "w' = snd (steady_now w1)"
    using poll_channel_known [OF Some rb(1) rd] assms(2) by (simp_all add: chs_def buf_def pol_def)
  have "device_ready d" using device.sense_ready [of "bd_driver b" w] rd b by (simp add: wf_binding_def)
  then have b': "wf_binding (i, b\<lparr>bd_driver := d\<rparr>)" using b by (simp add: wf_binding_def)
  have w1: "device_world w w1" using device_read_world [OF rd] .
  have w': "poll_world w w'"
    using poll_world_device [OF w1, of "w_steady_n w1 + 1"] device_world_store(7) [OF w1]
    by (simp add: rt' steady_now_def)
  have "map fst chs = map fst (rt_channels rt)"
    using Some by (auto simp: chs_def update_keys dest: map_of_SomeD intro: rev_image_eqI)
  moreover have "wf_buffer buf" unfolding buf_def by (rule wf_buffer_fold [OF rb(2)])
  moreover have "list_all wf_binding chs"
    using m(1) b' unfolding chs_def by (intro list_all_update) (simp_all add: wf_members_def)
  ultimately have "wf_members rt'"
    using m(1) by (simp add: wf_members_def rt' split: option.splits)
  then have "runtime_wf (rt', w')"
    using m(2) poll_world_store(1) [OF w'] by (simp add: runtime_wf_def) (simp add: rt')
  then show ?thesis using w' \<open>map fst chs = map fst (rt_channels rt)\<close>
    unfolding polled_def by (auto simp: rt' intro!: exI [of _ chs] exI [of _ "Some buf"] exI [of _ pol])
qed

lemma polls_effect: "runtime_wf s \<Longrightarrow> runtime_wf (fold poll_channel ids s) \<and> polled s (fold poll_channel ids s)"
proof (induction ids arbitrary: s)
  case (Cons i ids)
  have "runtime_wf (poll_channel i s) \<and> polled s (poll_channel i s)"
    using poll_channel_effect [of "fst s" "snd s" i "fst (poll_channel i s)" "snd (poll_channel i s)"] Cons.prems
    by simp
  with Cons.IH [of "poll_channel i s"] show ?case
    by (auto intro: polled_trans [of s "poll_channel i s"])
qed simp

lemma dispatch_channels_polls:
  "dispatch_channels poll now chs st = Some (n, chs', st') \<Longrightarrow> \<exists>ids. st' = fold poll ids st"
proof (induction chs arbitrary: n chs' st)
  case Nil
  then show ?case by (auto intro: exI [of _ "[]"])
next
  case (Cons c chs)
  show ?case
  proof (cases "now < cs_next_deadline c")
    case True
    then show ?thesis using Cons by (auto split: option.splits)
  next
    case False
    with Cons.prems obtain n1 chs1 where
      "dispatch_channels poll now chs (poll (se_channel_id (cs_entry c)) st) = Some (n1, chs1, st')"
      by (auto simp: Let_def split: option.splits)
    from Cons.IH [OF this] obtain ids where "st' = fold poll ids (poll (se_channel_id (cs_entry c)) st)" by blast
    then show ?thesis by (intro exI [of _ "se_channel_id (cs_entry c) # ids"]) simp
  qed
qed

lemma runtime_wf_steady [simp]:
  "runtime_wf (rt, w\<lparr>w_steady_n := n\<rparr>) = runtime_wf (rt, w)"
  "runtime_wf (rt\<lparr>rt_scheduler := q\<rparr>, w) = runtime_wf (rt, w)"
  by (simp_all add: runtime_wf_def wf_members_def split: option.split)

lemma poll_due_effect:
  assumes "runtime_wf (rt, w)" "poll_due (rt, w) = Some s'"
  shows "runtime_wf s' \<and> (\<exists>q ids rt1 w1. (rt1, w1) = fold poll_channel ids (rt, snd (steady_now w)) \<and>
           polled (rt, w) (rt1, w1) \<and> s' = (rt1\<lparr>rt_scheduler := q\<rparr>, w1))"
proof -
  let ?w = "snd (steady_now w)"
  obtain n q rt1 w1 where d: "dispatch_due (Some poll_channel) (fst (steady_now w)) (rt_scheduler rt) (rt, ?w)
      = Some (n, q, rt1, w1)" "s' = (rt1\<lparr>rt_scheduler := q\<rparr>, w1)"
    using assms(2) by (auto simp: poll_due_def case_prod_beta split: option.splits)
  obtain ids where ids: "(rt1, w1) = fold poll_channel ids (rt, ?w)"
    using dispatch_channels_polls d(1) by (force simp: dispatch_due_def)
  have "runtime_wf (rt, ?w)" using assms(1) by (simp add: steady_now_def)
  from polls_effect [OF this, of ids] ids have e: "runtime_wf (rt1, w1)" "polled (rt, ?w) (rt1, w1)" by simp_all
  moreover have "polled (rt, w) (rt, ?w)"
    unfolding polled_def by (auto simp: poll_world_steady intro!: exI [of _ "rt_channels rt"]
        exI [of _ "rt_buffer rt"] exI [of _ "rt_policy rt"])
  ultimately have "runtime_wf s'" "polled (rt, w) (rt1, w1)" using d(2) polled_trans by simp_all
  then show ?thesis using d(2) ids by blast
qed

section \<open>Uploading leaves the rest alone\<close>

definition upload_frame :: "store_state \<Rightarrow> store_state \<Rightarrow> bool" where
  \<comment> \<open>the open file, the engine, the clock and what the server will answer\<close>
  "upload_frame s s' \<longleftrightarrow> ls_db (fst s') = ls_db (fst s) \<and> w_sqlite (snd s') = w_sqlite (snd s) \<and>
     w_steady (snd s') = w_steady (snd s) \<and> w_steady_n (snd s') = w_steady_n (snd s) \<and>
     w_reply (snd s') = w_reply (snd s) \<and> w_dump (snd s') = w_dump (snd s)"

lemma upload_frame_refl [simp]: "upload_frame s s"
  by (simp add: upload_frame_def)

lemma upload_frame_trans: "upload_frame s s' \<Longrightarrow> upload_frame s' s'' \<Longrightarrow> upload_frame s s''"
  by (simp add: upload_frame_def)

lemma store_clock:
  "w_steady_n (snd (snd (store_enqueue x s))) = w_steady_n (snd s)"
  "w_steady_n (snd (snd (acknowledge i s))) = w_steady_n (snd s)"
  "w_steady_n (snd (snd (peek_batch n s))) = w_steady_n (snd s)"
  "w_steady_n (snd (snd (pending_count s))) = w_steady_n (snd s)"
  by (cases s; auto simp: store_enqueue_def acknowledge_def peek_batch_def pending_count_def sql_run_def
      system_now_def Let_def split: option.splits prod.splits sql_result.splits list.splits)+

lemma store_op_frame:
  assumes "store_wf s"
  shows "upload_frame s (snd (store_enqueue x s))" "upload_frame s (snd (acknowledge i s))"
    "upload_frame s (snd (peek_batch n s))" "upload_frame s (snd (pending_count s))"
  using store_enqueue_file [OF assms, of x] acknowledge_file [OF assms, of i] peek_batch_file [OF assms, of n]
    pending_count_file [OF assms] store_clock [where s = s]
  by (simp_all add: upload_frame_def same_file_def same_net_def)

lemma store_loops_frame:
  assumes "store_wf s"
  shows "upload_frame s (snd (put_all store_enqueue xs s))" "upload_frame s (ack_all acknowledge ids s)"
  by (rule store.put_all_related [where R = upload_frame, OF assms]
        store.ack_all_related [where R = upload_frame, OF assms];
      (erule store_op_frame | erule (1) upload_frame_trans | rule upload_frame_refl))+

lemma build_payload_frame:
  "build_payload u samples w = (r, w') \<Longrightarrow> upload_frame (ls, w) (ls, w') \<and> store_wf (ls, w') = store_wf (ls, w)"
  by (auto simp: build_payload_def system_now_def Let_def upload_frame_def store_wf.simps
      split: prod.splits option.splits)

lemma http_post_frame:
  "http_post q w = (r, w') \<Longrightarrow> upload_frame (ls, w) (ls, w') \<and> store_wf (ls, w') = store_wf (ls, w)"
  by (auto simp: http_post_def upload_frame_def store_wf.simps)

lemma persist_all_frame: "store_wf s \<Longrightarrow> upload_frame s (snd (persist_all u samples s))"
  by (simp add: persist_all_def store_loops_frame)

lemma upload_keeps_frame:
  assumes "store_wf s" "upload u samples s = (r, s')"
  shows "upload_frame s s'"
proof -
  obtain ls w where s: "s = (ls, w)" by fastforce
  obtain p w1 where b: "build_payload u samples w = (p, w1)" by fastforce
  have s1: "upload_frame s (ls, w1)" "store_wf (ls, w1)" using build_payload_frame [OF b, of ls] assms(1) s by auto
  show ?thesis
  proof (cases "samples = [] \<or> (\<exists>e. p = Inl e)")
    case True
    then show ?thesis using assms(2) s b s1(1) by (auto simp: upload_def split: if_splits)
  next
    case False
    then obtain body where body: "p = Inr body" by (cases p) auto
    obtain resp w2 where h: "http_post (upload_request u body) w1 = (resp, w2)" by fastforce
    have s2: "upload_frame s (ls, w2)" "store_wf (ls, w2)"
      using http_post_frame [OF h, of ls] s1 upload_frame_trans by blast+
    have "s' = (ls, w2) \<or> s' = snd (persist_all u samples (ls, w2))"
      using assms(2) s b body h False by (auto simp: upload_def Let_def split: if_splits prod.splits)
    then show ?thesis using s2 persist_all_frame [OF s2(2)] upload_frame_trans by blast
  qed
qed

lemma retry_keeps_frame:
  assumes "store_wf s" "retry_pending u n s = (r, s')"
  shows "upload_frame s s'"
proof -
  obtain rows ls w where pk: "peek_batch n s = (rows, ls, w)" by (metis surj_pair)
  have s0: "upload_frame s (ls, w)" "store_wf (ls, w)"
    using store_op_frame(3) [OF assms(1), of n] peek_batch_rows [OF assms(1) pk] pk by simp_all
  obtain pl w1 where b: "build_payload u (map pr_sample rows) w = (pl, w1)" by fastforce
  have s1: "upload_frame s (ls, w1)" "store_wf (ls, w1)"
    using build_payload_frame [OF b, of ls] s0 upload_frame_trans by blast+
  show ?thesis
  proof (cases "\<not> up_has_store u \<or> rows = [] \<or> (\<exists>e. pl = Inl e)")
    case True
    then show ?thesis using assms(2) pk b s0(1) s1(1) by (auto simp: retry_pending_def split: if_splits)
  next
    case False
    then obtain body where body: "pl = Inr body" by (cases pl) auto
    obtain resp w2 where h: "http_post (upload_request u body) w1 = (resp, w2)" by fastforce
    have s2: "upload_frame s (ls, w2)" "store_wf (ls, w2)"
      using http_post_frame [OF h, of ls] s1 upload_frame_trans by blast+
    have "s' = (ls, w2) \<or> s' = ack_all acknowledge (map pr_id rows) (ls, w2)"
      using assms(2) pk b body h False by (auto simp: retry_pending_def Let_def split: if_splits)
    then show ?thesis using s2 store_loops_frame(2) [OF s2(2)] upload_frame_trans by blast
  qed
qed

section \<open>Flushing\<close>

fun step_state :: "'s step_result \<Rightarrow> 's" where
  "step_state (Done s) = s"
| "step_state (Raised e s) = s"

definition pipeline_frame :: "runtime \<Rightarrow> runtime \<Rightarrow> bool" where
  \<comment> \<open>what flushing and retrying leave alone\<close>
  "pipeline_frame s s' \<longleftrightarrow> rt_scheduler (fst s') = rt_scheduler (fst s) \<and> rt_uploader (fst s') = rt_uploader (fst s) \<and>
     rt_channels (fst s') = rt_channels (fst s) \<and> rt_config (fst s') = rt_config (fst s) \<and>
     rt_store_open (fst s') = rt_store_open (fst s) \<and>
     w_steady (snd s') = w_steady (snd s) \<and> w_steady_n (snd s) \<le> w_steady_n (snd s') \<and>
     w_sqlite (snd s') = w_sqlite (snd s) \<and> w_reply (snd s') = w_reply (snd s) \<and>
     w_dump (snd s') = w_dump (snd s)"

lemma pipeline_frame_trans: "pipeline_frame s s' \<Longrightarrow> pipeline_frame s' s'' \<Longrightarrow> pipeline_frame s s''"
  by (simp add: pipeline_frame_def)

lemma max_batch_pos: "0 < max_batch rt"
  by (simp add: max_batch_def)

lemma max_batch_nonzero [simp]: "max_batch rt \<noteq> 0"
  using max_batch_pos [of rt] by simp

lemma drain_buffer:
  assumes "wf_buffer rb"
  shows "\<exists>rb'. drain dequeue n [] rb = (take n (contents rb), rb') \<and> wf_buffer rb' \<and>
               contents rb' = drop n (contents rb)"
proof -
  have rb: "rb_wf rb" using assms by (simp add: wf_buffer_def)
  obtain rb' where "drain dequeue n [] rb = (take n (contents rb), rb')" "rb_wf rb'"
      "contents rb' = drop n (contents rb)"
    using rb.drain_contents [OF rb, of "[]" n] by auto
  moreover have "\<forall>x \<in> set (drop n (contents rb)). wf_stored x"
    using assms by (meson in_set_dropD wf_buffer_def)
  ultimately show ?thesis by (auto simp: wf_buffer_def)
qed

definition sent_away :: "telemetry_runtime \<Rightarrow> ring_buffer \<Rightarrow> telemetry_runtime" where
  \<comment> \<open>the members once a batch was taken out of the buffer\<close>
  "sent_away rt rb = rt\<lparr>rt_buffer := Some (snd (drain dequeue (max_batch rt) [] rb))\<rparr>"

lemma maybe_flush_eq:
  assumes "rt_uploader rt = Some up" "rt_buffer rt = Some rb" "wf_buffer rb"
  shows "maybe_flush (rt, w) =
    (if should_flush (fst (steady_now w)) (rb_size rb) (max_batch rt) (rt_policy rt)
     then after_upload (fst (steady_now w))
            (fst (upload up (take (max_batch rt) (contents rb)) (rt_store rt, snd (steady_now w))),
             (sent_away rt rb)
               \<lparr>rt_store := fst (snd (upload up (take (max_batch rt) (contents rb)) (rt_store rt, snd (steady_now w))))\<rparr>,
             snd (snd (upload up (take (max_batch rt) (contents rb)) (rt_store rt, snd (steady_now w)))))
     else Done (rt, snd (steady_now w)))"
proof -
  obtain rb' where d: "drain dequeue (max_batch rt) [] rb = (take (max_batch rt) (contents rb), rb')"
    using drain_buffer [OF assms(3)] by blast
  have "take (max_batch rt) (contents rb) \<noteq> []"
    if "should_flush (fst (steady_now w)) (rb_size rb) (max_batch rt) (rt_policy rt)"
    using that max_batch_pos [of rt] by (auto simp: should_flush_def simp flip: length_0_conv split: if_splits)
  then show ?thesis using assms(1,2) d
    by (simp add: maybe_flush_def case_prod_beta Let_def sent_away_def)
qed

lemma flush_batch_nonempty:
  "should_flush now (rb_size rb) n p \<Longrightarrow> 0 < n \<Longrightarrow> take n (contents rb) \<noteq> []"
  by (auto simp: should_flush_def simp flip: length_0_conv split: if_splits)

lemma wf_members_frame [simp]:
  "wf_members (rt\<lparr>rt_policy := p\<rparr>) = wf_members rt"
  "wf_members (rt\<lparr>rt_accepted_upload_count := n\<rparr>) = wf_members rt"
  "wf_members (rt\<lparr>rt_next_retry_at := t\<rparr>) = wf_members rt"
  "wf_members (rt\<lparr>rt_scheduler := q\<rparr>) = wf_members rt"
  "wf_members (rt\<lparr>rt_last_error := m\<rparr>) = wf_members rt"
  by (simp_all add: wf_members_def split: option.split)

lemma wf_members_attempt:
  "wf_members rt \<Longrightarrow> wf_members (rt\<lparr>rt_retry_attempt := 0\<rparr>)"
  "wf_members rt \<Longrightarrow> rt_uploader rt = Some up \<Longrightarrow> wf_members (rt\<lparr>rt_retry_attempt := rt_retry_attempt rt + 1\<rparr>)"
  by (auto simp: wf_members_def split: option.splits)

lemma wf_members_reset: "wf_members rt \<Longrightarrow> wf_members (reset_backoff_after_success rt)"
  by (simp add: reset_backoff_after_success_def wf_members_attempt)

lemma advance_backoff_wf:
  assumes "runtime_wf (rt, w)" "rt_uploader rt = Some up"
  shows "runtime_wf (advance_backoff_after_failure (rt, w)) \<and>
         pipeline_frame (rt, w) (advance_backoff_after_failure (rt, w))"
  using assms wf_members_attempt(2)
  by (simp add: advance_backoff_after_failure_def runtime_wf_def steady_now_def Let_def pipeline_frame_def)

lemma runtime_wf_frame [simp]:
  "runtime_wf (rt\<lparr>rt_policy := p\<rparr>, w) = runtime_wf (rt, w)"
  "runtime_wf (rt\<lparr>rt_accepted_upload_count := n\<rparr>, w) = runtime_wf (rt, w)"
  by (simp_all add: runtime_wf_def)

lemma runtime_wf_reset: "runtime_wf (rt, w) \<Longrightarrow> runtime_wf (reset_backoff_after_success rt, w)"
  by (simp add: runtime_wf_def wf_members_reset) (simp add: reset_backoff_after_success_def)

lemma pipeline_frame_members [simp]:
  "pipeline_frame s (rt\<lparr>rt_policy := p\<rparr>, w) = pipeline_frame s (rt, w)"
  "pipeline_frame s (rt\<lparr>rt_accepted_upload_count := n\<rparr>, w) = pipeline_frame s (rt, w)"
  "pipeline_frame s (reset_backoff_after_success rt, w) = pipeline_frame s (rt, w)"
  "pipeline_frame s s"
  by (simp_all add: pipeline_frame_def reset_backoff_after_success_def)

lemma after_upload_effect:
  assumes "runtime_wf (rt, w)" "rt_uploader rt = Some up"
  shows "runtime_wf (step_state (after_upload now (r, rt, w))) \<and>
         pipeline_frame (rt, w) (step_state (after_upload now (r, rt, w)))"
proof (cases r)
  case (Inl e)
  then show ?thesis using assms by (simp add: after_upload_def)
next
  case (Inr x)
  then show ?thesis using assms advance_backoff_wf [OF assms] runtime_wf_reset [of "rt\<lparr>rt_policy := mark_flushed now (rt_policy rt)\<rparr>" w]
    by (cases x) (simp_all add: after_upload_def Let_def)
qed

lemma wf_members_store:
  "wf_members rt \<Longrightarrow> ls_db ls = ls_db (rt_store rt) \<Longrightarrow> wf_members (rt\<lparr>rt_store := ls\<rparr>)"
  by (simp add: wf_members_def split: option.splits)

lemma sent_away_wf:
  assumes "wf_members rt" "rt_buffer rt = Some rb"
  shows "wf_members (sent_away rt rb)"
proof -
  have "wf_buffer rb" using assms by (simp add: wf_members_def)
  from drain_buffer [OF this, of "max_batch rt"] show ?thesis
    using assms by (auto simp: wf_members_def sent_away_def split: option.splits)
qed

lemma maybe_flush_effect:
  assumes "runtime_wf (rt, w)"
  shows "runtime_wf (step_state (maybe_flush (rt, w))) \<and> pipeline_frame (rt, w) (step_state (maybe_flush (rt, w)))"
proof (cases "rt_uploader rt = None \<or> rt_buffer rt = None")
  case True
  then show ?thesis using assms by (auto simp: maybe_flush_def pipeline_frame_def split: option.splits)
next
  case False
  then obtain up rb where ub: "rt_uploader rt = Some up" "rt_buffer rt = Some rb" by auto
  have m: "wf_members rt" "store_wf (rt_store rt, w)" using assms by (simp_all add: runtime_wf_def)
  then have rb: "wf_buffer rb" using ub by (simp add: wf_members_def)
  let ?w = "snd (steady_now w)" and ?batch = "take (max_batch rt) (contents rb)"
  obtain r ls w2 where up: "upload up ?batch (rt_store rt, ?w) = (r, ls, w2)" by (metis surj_pair)
  have wf: "store_wf (rt_store rt, ?w)" using m(2) by (simp add: steady_now_def)
  note f = upload_keeps_frame [OF wf up]
  show ?thesis
  proof (cases "should_flush (fst (steady_now w)) (rb_size rb) (max_batch rt) (rt_policy rt)")
    case True
    have s2: "store_wf (ls, w2)"
      using upload_effect [OF wf flush_batch_nonempty [OF True max_batch_pos] up] by blast
    let ?rt = "(sent_away rt rb)\<lparr>rt_store := ls\<rparr>"
    have "wf_members ?rt"
      using sent_away_wf [OF m(1) ub(2)] f by (intro wf_members_store) (simp_all add: upload_frame_def sent_away_def)
    then have e: "runtime_wf (step_state (maybe_flush (rt, w))) \<and>
        pipeline_frame (?rt, w2) (step_state (maybe_flush (rt, w)))"
      using after_upload_effect [of ?rt w2 up "fst (steady_now w)" r] s2 ub
        maybe_flush_eq [OF ub rb, of w] True up by (simp add: sent_away_def runtime_wf_def)
    moreover have "pipeline_frame (rt, w) (?rt, w2)"
      using f by (simp add: pipeline_frame_def upload_frame_def sent_away_def steady_now_def)
    ultimately show ?thesis using pipeline_frame_trans by blast
  next
    case False
    then show ?thesis using maybe_flush_eq [OF ub rb, of w] assms
      by (simp add: pipeline_frame_def steady_now_def)
  qed
qed

section \<open>Retrying\<close>

lemma after_retry_effect:
  assumes "runtime_wf (rt, w)" "rt_uploader rt = Some up"
  shows "runtime_wf (step_state (after_retry (r, rt, w))) \<and>
         pipeline_frame (rt, w) (step_state (after_retry (r, rt, w)))"
proof (cases r)
  case (Inl e)
  then show ?thesis using assms by (simp add: after_retry_def)
next
  case (Inr x)
  then show ?thesis using assms advance_backoff_wf [OF assms] runtime_wf_reset [of rt w]
    by (cases "x = KAccepted") (simp_all add: after_retry_def Let_def)
qed

lemma store_step_effect:
  assumes "runtime_wf (rt, w)" "upload_frame (rt_store rt, w) (ls, w')" "store_wf (ls, w')"
  shows "runtime_wf (rt\<lparr>rt_store := ls\<rparr>, w') \<and> pipeline_frame (rt, w) (rt\<lparr>rt_store := ls\<rparr>, w')"
  using assms wf_members_store by (simp add: runtime_wf_def pipeline_frame_def upload_frame_def)

lemma pending_count_wf:
  assumes "store_wf s"
  shows "store_wf (snd (pending_count s))" "store_rows (snd (pending_count s)) = store_rows s"
proof -
  obtain n s' where p: "pending_count s = (n, s')" by (metis surj_pair)
  note t = pending_count_table [OF assms p]
  have "wf_table (store_table s)" using assms by (rule wf_store_table)
  from put_table_rows [OF assms conjunct1 [OF t] this] p
  show "store_wf (snd (pending_count s))" "store_rows (snd (pending_count s)) = store_rows s"
    by (simp_all add: store_rows_def)
qed

lemma store_pending_effect:
  assumes "runtime_wf (rt, w)"
  shows "runtime_wf (snd (store_pending (rt, w))) \<and> pipeline_frame (rt, w) (snd (store_pending (rt, w))) \<and>
    (\<exists>ls. fst (snd (store_pending (rt, w))) = rt\<lparr>rt_store := ls\<rparr>)"
proof -
  obtain n ls w' where p: "pending_count (rt_store rt, w) = (n, ls, w')" by (metis surj_pair)
  have wf: "store_wf (rt_store rt, w)" using assms by (simp add: runtime_wf_def)
  have "upload_frame (rt_store rt, w) (ls, w')" "store_wf (ls, w')"
    using store_op_frame(4) [OF wf] pending_count_wf(1) [OF wf] p by simp_all
  from store_step_effect [OF assms this] p show ?thesis by (auto simp: store_pending_def)
qed

lemma steady_effect:
  "runtime_wf (rt, w) \<Longrightarrow> runtime_wf (rt, snd (steady_now w)) \<and> pipeline_frame (rt, w) (rt, snd (steady_now w))"
  by (simp add: steady_now_def pipeline_frame_def)

text \<open>When the retry is due, and what it comes to.\<close>

definition retry_due :: "runtime \<Rightarrow> bool" where
  "retry_due s \<longleftrightarrow> \<not> (0 < rt_retry_attempt (fst s) \<and> fst (steady_now (snd s)) < rt_next_retry_at (fst s))"

lemma maybe_retry_eq:
  assumes "rt_uploader rt = Some up" "rt_store_open rt"
  shows "maybe_retry (rt, w) =
    (case store_pending (rt, w) of (n, rt1, w1) \<Rightarrow>
       if n = 0 then Done (rt1, w1)
       else if \<not> retry_due (rt1, w1) then Done (rt1, snd (steady_now w1))
       else case retry_pending up (max_batch rt1) (rt_store rt1, snd (steady_now w1)) of (r, ls, w2) \<Rightarrow>
              after_retry (r, rt1\<lparr>rt_store := ls\<rparr>, w2))"
  using assms by (simp add: maybe_retry_def retry_due_def case_prod_beta Let_def)

lemma maybe_retry_effect:
  assumes "runtime_wf (rt, w)"
  shows "runtime_wf (step_state (maybe_retry (rt, w))) \<and> pipeline_frame (rt, w) (step_state (maybe_retry (rt, w)))"
proof (cases "rt_uploader rt = None \<or> \<not> rt_store_open rt")
  case True
  then show ?thesis using assms by (auto simp: maybe_retry_def split: option.splits)
next
  case False
  then obtain up where u: "rt_uploader rt = Some up" "rt_store_open rt" by auto
  obtain n rt1 w1 where p: "store_pending (rt, w) = (n, rt1, w1)" by (metis surj_pair)
  have e1: "runtime_wf (rt1, w1)" "pipeline_frame (rt, w) (rt1, w1)"
    using store_pending_effect [OF assms] p by simp_all
  note e2 = steady_effect [OF e1(1)]
  have up1: "rt_uploader rt1 = Some up" "rt_store_open rt1" using e1(2) u by (simp_all add: pipeline_frame_def)
  obtain r ls w2 where rp: "retry_pending up (max_batch rt1) (rt_store rt1, snd (steady_now w1)) = (r, ls, w2)"
    by (metis surj_pair)
  have wf: "store_wf (rt_store rt1, snd (steady_now w1))" using e2 by (simp add: runtime_wf_def)
  have "up_has_store up" using e1(1) up1 by (simp add: runtime_wf_def wf_members_def)
  then have s2: "store_wf (ls, w2)" using retry_effect [OF wf _ rp] by blast
  have e3: "runtime_wf (rt1\<lparr>rt_store := ls\<rparr>, w2)" "pipeline_frame (rt1, snd (steady_now w1)) (rt1\<lparr>rt_store := ls\<rparr>, w2)"
    using store_step_effect [OF conjunct1 [OF e2] retry_keeps_frame [OF wf rp] s2] by simp_all
  have e4: "runtime_wf (step_state (after_retry (r, rt1\<lparr>rt_store := ls\<rparr>, w2)))"
    "pipeline_frame (rt1\<lparr>rt_store := ls\<rparr>, w2) (step_state (after_retry (r, rt1\<lparr>rt_store := ls\<rparr>, w2)))"
    using after_retry_effect [OF e3(1), of up r] up1 by simp_all
  have chain: "pipeline_frame (rt, w) (rt1, snd (steady_now w1))"
    using pipeline_frame_trans [OF e1(2)] e2 by blast
  note chain' = pipeline_frame_trans [OF pipeline_frame_trans [OF chain e3(2)] e4(2)]
  show ?thesis
    unfolding maybe_retry_eq [OF u] p using rp e1 e2 e4 chain chain' by simp
qed

section \<open>The whole step\<close>

lemma tick_effect:
  assumes "runtime_wf s" "tick s = Some res"
  shows "runtime_wf (step_state res)"
proof (cases "rt_channels (fst s) = []")
  case True
  then show ?thesis using assms by (auto simp: tick_def)
next
  case False
  obtain rt w where s: "s = (rt, w)" by fastforce
  obtain s1 where s1: "poll_due s = Some s1"
      "res = (case maybe_flush s1 of Raised e s \<Rightarrow> Raised e s | Done s \<Rightarrow> maybe_retry s)"
    using assms(2) False by (auto simp: tick_def split: option.splits)
  have "runtime_wf s1" using poll_due_effect [of rt w s1] assms(1) s s1(1) by blast
  then have f: "runtime_wf (step_state (maybe_flush s1))" using maybe_flush_effect [of "fst s1" "snd s1"] by simp
  show ?thesis
  proof (cases "maybe_flush s1")
    case (Done s2)
    then show ?thesis using f s1(2) maybe_retry_effect [of "fst s2" "snd s2"] by simp
  next
    case (Raised e s2)
    then show ?thesis using f s1(2) by simp
  qed
qed

lemma next_wake_effect:
  assumes "runtime_wf s"
  shows "runtime_wf (snd (next_wake s)) \<and> (\<exists>ls. fst (snd (next_wake s)) = (fst s)\<lparr>rt_store := ls\<rparr>)"
proof -
  obtain rt w where s: "s = (rt, w)" by fastforce
  have "snd (next_wake s) = (if rt_store_open rt then snd (store_pending (rt, w)) else (rt, w))"
    by (simp add: s next_wake_def case_prod_beta Let_def split: option.split)
  then show ?thesis using store_pending_effect [of rt w] assms s
    by (auto intro: exI [of _ "rt_store rt"])
qed

section \<open>Configuring\<close>

definition active :: "channel_config \<Rightarrow> bool" where
  \<comment> \<open>not skipped for its rate\<close>
  "active ch \<longleftrightarrow> \<not> d_less_eq (ch_sample_rate_hz ch) (Fin 0)"

definition entry_of :: "channel_config \<Rightarrow> schedule_entry" where
  "entry_of ch = \<lparr>se_channel_id = ch_id ch, se_sample_rate_hz = ch_sample_rate_hz ch\<rparr>"

definition buffer_capacity :: "config \<Rightarrow> nat" where
  "buffer_capacity c =
     (if 0 < sv_max_batch_size (cfg_server c) then nat (sv_max_batch_size (cfg_server c)) else 500)"

definition pristine :: "config \<Rightarrow> telemetry_runtime \<Rightarrow> bool" where
  \<comment> \<open>the members that configuring resets, once they are reset\<close>
  "pristine c rt \<longleftrightarrow> rt_config rt = c \<and> rt_uploader rt = None \<and> rt_accepted_upload_count rt = 0 \<and>
     rt_retry_attempt rt = 0 \<and> fresh_policy (rt_policy rt) \<and>
     (\<exists>rb. rt_buffer rt = Some rb \<and> contents rb = [] \<and> rb_capacity rb = buffer_capacity c \<and> wf_buffer rb)"

lemma fresh_members_effect:
  assumes "runtime_wf (rt, w)"
  shows "runtime_wf (fresh_members env c key rt, w) \<and> pristine c (fresh_members env c key rt) \<and>
         rt_channels (fresh_members env c key rt) = [] \<and>
         rt_scheduler (fresh_members env c key rt) = rt_scheduler rt"
proof -
  have "buffer_capacity c \<noteq> 0" by (simp add: buffer_capacity_def)
  then obtain rb where rb: "ring_buffer_new (buffer_capacity c) = Inr rb" "rb_capacity rb = buffer_capacity c"
    by (simp add: ring_buffer_new_def)
  have "contents rb = []" "rb_wf rb" using ring_buffer_new_contents [OF rb(1)] rb_wf_new [OF rb(1)] by simp_all
  then have "wf_buffer rb" by (simp add: wf_buffer_def)
  with rb \<open>contents rb = []\<close> assms show ?thesis
    by (simp add: fresh_members_def pristine_def runtime_wf_def wf_members_def Let_def
        reset_backoff_after_success_def fresh_new flip: buffer_capacity_def)
qed

lemma pristine_frame [simp]:
  "pristine c (rt\<lparr>rt_last_error := m\<rparr>) = pristine c rt"
  "pristine c (rt\<lparr>rt_channels := chs\<rparr>) = pristine c rt"
  "pristine c (rt\<lparr>rt_scheduler := q\<rparr>) = pristine c rt"
  "pristine c (rt\<lparr>rt_store := ls\<rparr>) = pristine c rt"
  "pristine c (rt\<lparr>rt_store_open := b\<rparr>) = pristine c rt"
  by (simp_all add: pristine_def)

lemma wf_members_opened:
  "wf_members rt \<Longrightarrow> rt_uploader rt = None \<Longrightarrow> b \<longrightarrow> ls_db ls \<noteq> None \<Longrightarrow>
   wf_members (rt\<lparr>rt_store := ls, rt_store_open := b\<rparr>)"
  by (simp add: wf_members_def split: option.splits)

lemma open_local_store_effect:
  assumes "runtime_wf (rt, w)" "rt_uploader rt = None" "open_local_store (rt, w) = (ok, rt', w')"
  shows "runtime_wf (rt', w') \<and> (pristine c rt \<longrightarrow> pristine c rt') \<and> rt_channels rt' = rt_channels rt \<and>
         rt_scheduler rt' = rt_scheduler rt \<and> rt_config rt' = rt_config rt"
proof (cases "lc_path (cfg_local_storage (rt_config rt)) = []")
  case True
  then show ?thesis using assms
    by (auto simp: open_local_store_def runtime_wf_def wf_members_def pristine_def split: option.splits)
next
  case False
  let ?path = "lc_path (cfg_local_storage (rt_config rt))"
  obtain ls w1 b where o: "open_store ?path (rt_store rt, w) = (b, ls, w1)" by (metis surj_pair)
  have wf: "store_wf (rt_store rt, w)" "sqlite_laws (w_sqlite w)"
    using assms(1) by (simp_all add: runtime_wf_def store_wf.simps)
  have "store_wf (ls, w1)" using open_store_wf [OF o wf(1)] .
  moreover have "b \<longrightarrow> ls_db ls \<noteq> None" using open_store_disk [OF o wf(2)] by auto
  ultimately have "runtime_wf (rt\<lparr>rt_store := ls, rt_store_open := b\<rparr>, w1)"
    using assms(1,2) wf_members_opened by (simp add: runtime_wf_def)
  moreover have "rt' = (if b then rt\<lparr>rt_store := ls, rt_store_open := b\<rparr>
                        else rt\<lparr>rt_store := ls, rt_store_open := b\<rparr>\<lparr>rt_last_error := ls_last_error ls\<rparr>)" "w' = w1"
    using assms(3) False o by (auto simp: open_local_store_def Let_def split: if_splits)
  ultimately show ?thesis by (cases b) (simp_all add: runtime_wf_def)
qed

lemma emplace_keys:
  "fst ` set (emplace k v m) = insert k (fst ` set m)"
  "distinct (map fst m) \<Longrightarrow> distinct (map fst (emplace k v m))"
  by (auto simp: emplace_def map_of_eq_None_iff intro: rev_image_eqI dest: map_of_SomeD)

lemma list_all_emplace: "list_all P m \<Longrightarrow> P (k, v) \<Longrightarrow> list_all P (emplace k v m)"
  by (simp add: emplace_def)

text \<open>Binding channels keeps the invariant; when it succeeds it yields the schedule.\<close>

definition bound :: "config \<Rightarrow> channel_config list \<Rightarrow> schedule_entry list \<Rightarrow> runtime \<Rightarrow>
    schedule_entry list option \<times> runtime \<Rightarrow> bool" where
  "bound c chs schedule s res \<longleftrightarrow>
     runtime_wf (snd res) \<and> pristine c (fst (snd res)) \<and> poll_world (snd s) (snd (snd res)) \<and>
     rt_scheduler (fst (snd res)) = rt_scheduler (fst s) \<and>
     rt_store (fst (snd res)) = rt_store (fst s) \<and> rt_store_open (fst (snd res)) = rt_store_open (fst s) \<and>
     (\<forall>schedule'. fst res = Some schedule' \<longrightarrow>
        schedule' = schedule @ map entry_of (filter active chs) \<and>
        fst ` set (rt_channels (fst (snd res))) = fst ` set (rt_channels (fst s)) \<union> ch_id ` set (filter active chs))"

lemma bind_channels_effect:
  "runtime_wf (rt, w) \<Longrightarrow> pristine c rt \<Longrightarrow> bound c chs schedule (rt, w) (bind_channels env chs schedule (rt, w))"
proof (induction chs arbitrary: rt w schedule)
  case Nil
  then show ?case by (simp add: bound_def)
next
  case (Cons ch chs)
  show ?case
  proof (cases "active ch")
    case False
    then show ?thesis using Cons.IH [OF Cons.prems, of schedule] by (simp add: active_def bound_def)
  next
    case True
    show ?thesis
    proof (cases "registry_create (ch_driver ch) (re_registry env)")
      case None
      then show ?thesis using True Cons.prems by (simp add: active_def bound_def runtime_wf_def)
    next
      case (Some f)
      obtain e d w1 where dc: "device_configure (ch_parameters ch) (make_device f, w) = (e, d, w1)"
        by (metis surj_pair)
      have pw1: "poll_world w w1" using device_configure_world [OF dc] by (rule device_poll_world)
      show ?thesis
      proof (cases e)
        case ex: (Some ex)
        then show ?thesis using True Some dc Cons.prems pw1 poll_world_store(1) [OF pw1]
          by (simp add: active_def bound_def runtime_wf_def)
      next
        case None
        let ?now = "fst (steady_now w1)" and ?w = "snd (steady_now w1)"
        let ?rt = "rt\<lparr>rt_policy := configure_channel (sync_state_of ch) ?now (rt_policy rt),
            rt_channels := emplace (ch_id ch) \<lparr>bd_config = ch, bd_driver = d\<rparr> (rt_channels rt)\<rparr>"
        have pw: "poll_world w ?w" using poll_world_trans [OF pw1 poll_world_steady] .
        have "device_ready d" using device.start_ready dc None by blast
        then have "wf_binding (ch_id ch, \<lparr>bd_config = ch, bd_driver = d\<rparr>)" by (simp add: wf_binding_def)
        then have "wf_members ?rt"
          using Cons.prems emplace_keys(2) list_all_emplace
          by (auto simp: runtime_wf_def wf_members_def pristine_def split: option.splits)
        then have wf: "runtime_wf (?rt, ?w)"
          using Cons.prems(1) poll_world_store(1) [OF pw] by (simp add: runtime_wf_def)
        have pr: "pristine c ?rt"
          using Cons.prems(2) fresh_configure_channel by (simp add: pristine_def)
        have "bind_channels env (ch # chs) schedule (rt, w) = bind_channels env chs (schedule @ [entry_of ch]) (?rt, ?w)"
          using True Some dc None by (simp add: active_def entry_of_def case_prod_beta Let_def)
        then show ?thesis using Cons.IH [OF wf pr, of "schedule @ [entry_of ch]"] pw True
          by (auto simp: bound_def emplace_keys(1) intro: poll_world_trans)
      qed
    qed
  qed
qed

text \<open>
  What a successful binding makes of the channels: of the entries with the same identifier the first gets
  the driver, the last the policy.
\<close>

definition by_id :: "channel_config list \<Rightarrow> (string \<times> channel_config) list" where
  "by_id chs = map (\<lambda>ch. (ch_id ch, ch)) chs"

definition driver_of :: "runtime_env \<Rightarrow> channel_config \<Rightarrow> device \<Rightarrow> bool" where
  \<comment> \<open>made by the registered factory and configured with the parameters of the channel\<close>
  "driver_of env ch d \<longleftrightarrow> (\<exists>f w w'. registry_create (ch_driver ch) (re_registry env) = Some f \<and>
     device_configure (ch_parameters ch) (make_device f, w) = (None, d, w'))"

definition policies :: "telemetry_runtime \<Rightarrow> string \<Rightarrow> channel_sync_state option" where
  "policies rt i = map_option ps_config (map_of (pol_channels (rt_policy rt)) i)"

definition bound_to :: "runtime_env \<Rightarrow> channel_config option \<Rightarrow> binding option \<Rightarrow> bool" where
  "bound_to env ch b \<longleftrightarrow>
     (case ch of None \<Rightarrow> b = None | Some ch \<Rightarrow> \<exists>d. b = Some \<lparr>bd_config = ch, bd_driver = d\<rparr> \<and> driver_of env ch d)"

lemma by_id_simps [simp]: "by_id [] = []" "by_id (ch # chs) = (ch_id ch, ch) # by_id chs"
  by (simp_all add: by_id_def)

lemma map_of_emplace:
  "map_of (emplace k v m) i = (if i = k \<and> map_of m k = None then Some v else map_of m i)"
  by (auto simp: emplace_def map_add_def split: option.splits)

lemma bind_channels_result:
  "bind_channels env chs schedule (rt, w) = (Some schedule', rt', w') \<Longrightarrow>
   rt' = rt\<lparr>rt_policy := rt_policy rt', rt_channels := rt_channels rt'\<rparr> \<and>
   (\<forall>i. policies rt' i = (case map_of (rev (by_id (filter active chs))) i of
          None \<Rightarrow> policies rt i | Some ch \<Rightarrow> Some (sync_state_of ch))) \<and>
   (\<forall>i. if map_of (rt_channels rt) i = None
        then bound_to env (map_of (by_id (filter active chs)) i) (map_of (rt_channels rt') i)
        else map_of (rt_channels rt') i = map_of (rt_channels rt) i)"
proof (induction chs arbitrary: rt w schedule)
  case Nil
  then show ?case by (simp add: bound_to_def)
next
  case (Cons ch chs)
  show ?case
  proof (cases "active ch")
    case False
    then show ?thesis using Cons.IH [of schedule rt w] Cons.prems by (simp add: active_def)
  next
    case True
    then obtain f where f: "registry_create (ch_driver ch) (re_registry env) = Some f"
      using Cons.prems by (auto simp: active_def split: option.splits)
    obtain d w1 where d: "device_configure (ch_parameters ch) (make_device f, w) = (None, d, w1)"
      using Cons.prems True f by (auto simp: active_def split: prod.splits option.splits)
    let ?rt = "rt\<lparr>rt_policy := configure_channel (sync_state_of ch) (fst (steady_now w1)) (rt_policy rt),
        rt_channels := emplace (ch_id ch) \<lparr>bd_config = ch, bd_driver = d\<rparr> (rt_channels rt)\<rparr>"
    have rest: "bind_channels env chs (schedule @ [entry_of ch]) (?rt, snd (steady_now w1)) = (Some schedule', rt', w')"
      using Cons.prems True f d by (simp add: active_def entry_of_def case_prod_beta Let_def)
    note IH = Cons.IH [OF rest]
    have ready: "driver_of env ch d" using f d by (auto simp: driver_of_def)
    have "policies ?rt i = (if i = ch_id ch then Some (sync_state_of ch) else policies rt i)" for i
      by (simp add: policies_def configure_channel_def Let_def update_conv' sync_state_of_def)
    then have "policies rt' i = (case map_of (rev (by_id (filter active (ch # chs)))) i of
        None \<Rightarrow> policies rt i | Some ch \<Rightarrow> Some (sync_state_of ch))" for i
      using IH True by (auto simp: map_add_def split: option.splits)
    moreover have "if map_of (rt_channels rt) i = None
        then bound_to env (map_of (by_id (filter active (ch # chs))) i) (map_of (rt_channels rt') i)
        else map_of (rt_channels rt') i = map_of (rt_channels rt) i" for i
      using conjunct2 [OF conjunct2 [OF IH], rule_format, of i] True ready
      by (auto simp: map_of_emplace bound_to_def split: if_splits)
    moreover have "rt' = rt\<lparr>rt_policy := rt_policy rt', rt_channels := rt_channels rt'\<rparr>"
      using conjunct1 [OF IH] by (cases rt'; cases rt) simp
    ultimately show ?thesis by blast
  qed
qed

text \<open>A successful configuration, from the last step backwards.\<close>

definition configured :: "config \<Rightarrow> telemetry_runtime \<Rightarrow> bool" where
  "configured c rt \<longleftrightarrow> rt_config rt = c \<and> rt_retry_attempt rt = 0 \<and> rt_accepted_upload_count rt = 0 \<and>
     fresh_policy (rt_policy rt) \<and> rt_uploader rt = make_uploader rt \<and>
     (\<exists>rb. rt_buffer rt = Some rb \<and> contents rb = [] \<and> rb_capacity rb = buffer_capacity c) \<and>
     map cs_entry (rt_scheduler rt) = map entry_of (filter active (cfg_channels c)) \<and>
     fst ` set (rt_channels rt) = ch_id ` set (filter active (cfg_channels c))"

lemma make_uploader_cong [simp]: "make_uploader (rt\<lparr>rt_uploader := u\<rparr>) = make_uploader rt"
  by (simp add: make_uploader_def)

lemma wf_members_uploader:
  "wf_members rt \<Longrightarrow> rt_retry_attempt rt = 0 \<Longrightarrow> wf_members (rt\<lparr>rt_uploader := make_uploader rt\<rparr>)"
  by (auto simp: wf_members_def make_uploader_def split: option.splits)

lemma runtime_configure_steps:
  assumes "runtime_configure env c key (rt, w) = Some (True, rt', w')"
  obtains rt1 w1 rt2 w2 schedule q where
    "open_local_store (fresh_members env c key rt, w) = (True, rt1, w1)"
    "bind_channels env (cfg_channels c) [] (rt1, w1) = (Some schedule, rt2, w2)"
    "rt' = rt2\<lparr>rt_scheduler := q, rt_uploader := make_uploader (rt2\<lparr>rt_scheduler := q\<rparr>)\<rparr>"
proof -
  obtain b rt1 w1 where o: "open_local_store (fresh_members env c key rt, w) = (b, rt1, w1)" by (metis surj_pair)
  have b: "b" using assms o by (auto simp: runtime_configure_def split: if_splits)
  obtain sched rt2 w2 where bc: "bind_channels env (cfg_channels c) [] (rt1, w1) = (sched, rt2, w2)" by (metis surj_pair)
  obtain schedule where sc: "sched = Some schedule" using assms o b bc by (cases sched) (auto simp: runtime_configure_def)
  obtain q where "rt' = rt2\<lparr>rt_scheduler := q, rt_uploader := make_uploader (rt2\<lparr>rt_scheduler := q\<rparr>)\<rparr>"
    using assms o b bc sc
    by (auto simp: runtime_configure_def finish_configure_def case_prod_beta Let_def split: option.splits)
  then show ?thesis using that o b bc sc by simp
qed

text \<open>The members that say where the samples of a configured pipeline go.\<close>

definition key_of :: "runtime_env \<Rightarrow> config \<Rightarrow> string \<Rightarrow> string" where
  "key_of env c key = (if key \<noteq> [] then key else read_api_key_file env (nd_api_key_file (cfg_node c)))"

lemma runtime_configure_result:
  assumes "runtime_wf (rt, w)" "runtime_configure env c key (rt, w) = Some (True, rt', w')"
  shows "rt_api_key rt' = key_of env c key \<and>
    (rt_store_open rt' \<longleftrightarrow> lc_path (cfg_local_storage c) \<noteq> []) \<and>
    (rt_store_open rt' \<longrightarrow> ls_db (rt_store rt') = Some (c_str (lc_path (cfg_local_storage c)))) \<and>
    (\<forall>i. policies rt' i = map_option sync_state_of (map_of (rev (by_id (filter active (cfg_channels c)))) i)) \<and>
    (\<forall>i. bound_to env (map_of (by_id (filter active (cfg_channels c))) i) (map_of (rt_channels rt') i))"
proof -
  obtain rt1 w1 rt2 w2 schedule q where
    o: "open_local_store (fresh_members env c key rt, w) = (True, rt1, w1)" and
    b: "bind_channels env (cfg_channels c) [] (rt1, w1) = (Some schedule, rt2, w2)" and
    r: "rt' = rt2\<lparr>rt_scheduler := q, rt_uploader := make_uploader (rt2\<lparr>rt_scheduler := q\<rparr>)\<rparr>"
    by (rule runtime_configure_steps [OF assms(2)])
  define f where "f = fresh_members env c key rt"
  have fresh: "rt_api_key f = key_of env c key" "rt_config f = c" "rt_channels f = []" "pol_channels (rt_policy f) = []"
    by (simp_all add: f_def fresh_members_def key_of_def reset_backoff_after_success_def policy_clear_def Let_def split: sum.splits)
  have laws: "sqlite_laws (w_sqlite w)" using assms(1) by (simp add: runtime_wf_def store_wf.simps)
  obtain ls where opened: "rt1 = f\<lparr>rt_store := ls, rt_store_open := (lc_path (cfg_local_storage c) \<noteq> [])\<rparr>"
    "lc_path (cfg_local_storage c) \<noteq> [] \<longrightarrow> ls_db ls = Some (c_str (lc_path (cfg_local_storage c)))"
  proof (cases "lc_path (cfg_local_storage c) = []")
    case True
    then have "rt1 = f\<lparr>rt_store_open := False\<rparr>" using o fresh(2) by (simp add: open_local_store_def f_def)
    then show ?thesis using that [of "rt_store f"] True by simp
  next
    case False
    obtain ok ls w0 where os: "open_store (lc_path (cfg_local_storage c)) (rt_store f, w) = (ok, ls, w0)"
      by (metis surj_pair)
    then have "ok" "rt1 = f\<lparr>rt_store := ls, rt_store_open := True\<rparr>"
      using o fresh(2) False by (auto simp: open_local_store_def f_def Let_def split: if_splits)
    then show ?thesis using that [of ls] open_store_disk [OF os laws] False by simp
  qed
  note bound = bind_channels_result [OF b]
  have "policies rt1 i = None" "map_of (rt_channels rt1) i = None" for i
    using fresh(3,4) by (simp_all add: opened(1) policies_def)
  then have "policies rt2 i = map_option sync_state_of (map_of (rev (by_id (filter active (cfg_channels c)))) i)"
    "bound_to env (map_of (by_id (filter active (cfg_channels c))) i) (map_of (rt_channels rt2) i)" for i
    using bound by (auto split: option.splits)
  moreover obtain pol chs where rt2: "rt2 = rt1\<lparr>rt_policy := pol, rt_channels := chs\<rparr>"
    using conjunct1 [OF bound] by blast
  then have "rt_api_key rt2 = rt_api_key rt1" "rt_store rt2 = rt_store rt1" "rt_store_open rt2 = rt_store_open rt1"
    by (simp_all add: rt2)
  moreover have "rt_api_key rt1 = key_of env c key" "rt_store_open rt1 = (lc_path (cfg_local_storage c) \<noteq> [])"
    using fresh(1) by (simp_all add: opened(1))
  moreover have "rt_store rt1 = ls" by (simp add: opened(1))
  ultimately show ?thesis using opened(2) by (simp add: r policies_def)
qed

lemma runtime_configure_effect:
  assumes "runtime_wf (rt, w)" "runtime_configure env c key (rt, w) = Some (ok, rt', w')"
  shows "runtime_wf (rt', w') \<and> rt_retry_attempt rt' = 0 \<and>
    (if ok then configured c rt' \<and> (\<exists>now. Scheduler.configure now (map entry_of (filter active (cfg_channels c)))
                                         = Some (rt_scheduler rt'))
     else rt_uploader rt' = None \<and> rt_scheduler rt' = rt_scheduler rt)"
proof -
  let ?f = "fresh_members env c key rt"
  note f = fresh_members_effect [OF assms(1), of env c key]
  obtain b rt1 w1 where o: "open_local_store (?f, w) = (b, rt1, w1)" by (metis surj_pair)
  have "rt_uploader ?f = None" using f by (simp add: pristine_def)
  from open_local_store_effect [OF conjunct1 [OF f] this o, of c] f
  have o1: "runtime_wf (rt1, w1)" "pristine c rt1" "rt_channels rt1 = []" "rt_scheduler rt1 = rt_scheduler rt"
    by simp_all
  show ?thesis
  proof (cases b)
    case False
    then have "rt' = rt1" "w' = w1" "\<not> ok" using assms(2) o by (simp_all add: runtime_configure_def)
    with o1 show ?thesis by (simp add: pristine_def)
  next
    case True
    obtain sched rt2 w2 where bc: "bind_channels env (cfg_channels c) [] (rt1, w1) = (sched, rt2, w2)"
      by (metis surj_pair)
    have b2: "bound c (cfg_channels c) [] (rt1, w1) (sched, rt2, w2)"
      using bind_channels_effect [OF o1(1,2), of "cfg_channels c" "[]" env] bc by simp
    show ?thesis
    proof (cases sched)
      case None
      then have "rt' = rt2" "w' = w2" "\<not> ok" using assms(2) o True bc by (simp_all add: runtime_configure_def)
      with b2 o1 show ?thesis by (simp add: bound_def pristine_def)
    next
      case (Some schedule)
      then obtain q where q: "Scheduler.configure (fst (steady_now w2)) schedule = Some q"
          "rt' = rt2\<lparr>rt_scheduler := q, rt_uploader := make_uploader (rt2\<lparr>rt_scheduler := q\<rparr>)\<rparr>"
          "w' = snd (steady_now w2)" "ok"
        using assms(2) o True bc
        by (auto simp: runtime_configure_def finish_configure_def case_prod_beta Let_def split: option.splits)
      have sch: "schedule = map entry_of (filter active (cfg_channels c))"
        "fst ` set (rt_channels rt2) = ch_id ` set (filter active (cfg_channels c))"
        using b2 Some o1(3) by (simp_all add: bound_def)
      have wf2: "runtime_wf (rt2, w2)" "pristine c rt2" using b2 by (simp_all add: bound_def)
      then have "wf_members rt'"
        using wf_members_uploader [of "rt2\<lparr>rt_scheduler := q\<rparr>"] by (simp add: q(2) runtime_wf_def pristine_def)
      then have "runtime_wf (rt', w')" using wf2(1) by (simp add: runtime_wf_def q(2,3) steady_now_def)
      moreover have "configured c rt'"
        using wf2(2) sch configure_Some [OF q(1)]
        by (auto simp: configured_def pristine_def q(2) make_uploader_def)
      ultimately show ?thesis using q sch(1) wf2(2) by (auto simp: pristine_def)
    qed
  qed
qed

end
