(* ===== verification/Pipeline.thy ===== *)
theory Pipeline
  imports Runtime
begin

text \<open>
  What the pipeline of \<open>Runtime\<close> guarantees: what a configuration builds, what becomes of the
  samples of a reading and of a batch, how the retries of an outage are spaced, and when the service
  is to wake up again.
\<close>

section \<open>The environment's promises\<close>

definition mono_clock :: "world \<Rightarrow> bool" where
  \<comment> \<open>\<open>steady_clock\<close> never goes back\<close>
  "mono_clock w \<longleftrightarrow> (\<forall>m n. m \<le> n \<longrightarrow> w_steady w m \<le> w_steady w n)"

definition count_works :: "sqlite \<Rightarrow> bool" where
  \<comment> \<open>the query for the number of rows always delivers its row\<close>
  "count_works e \<longleftrightarrow> (\<forall>n db d. d db \<noteq> None \<longrightarrow>
     (\<exists>row rows failure. fst (sq_run e n db count_sql [] d) = Stepped (row # rows) failure))"

lemma pending_count_works:
  assumes "store_wf s" "ls_db (fst s) \<noteq> None" "count_works (w_sqlite (snd s))"
  shows "fst (pending_count s) = length (store_rows s)"
proof -
  obtain ls w where s: "s = (ls, w)" by fastforce
  obtain db where db: "ls_db ls = Some db" using assms(2) s by auto
  obtain t where t: "w_disk w db = Some t" using assms(1) s db by (auto simp: store_wf.simps)
  obtain result w1 where run: "sql_run db count_sql [] w = (result, w1)" by fastforce
  obtain row rows failure where r: "result = Stepped (row # rows) failure"
    using assms(3) run t s unfolding count_works_def by (auto simp: sql_run_def split: prod.splits)
       (metis fst_conv option.distinct(1))
  have laws: "sqlite_laws (w_sqlite w)" using assms(1) s by (simp add: store_wf.simps)
  have "cell_int64 (row ! 0) = int (length (tb_rows t))" using sql_count_cases [OF run laws t] r by auto
  then show ?thesis using s db t run r by (simp add: pending_count_def store_rows_def)
qed

section \<open>Backoff\<close>

lemma backoff_delay_table:
  "backoff_delay n = (if n \<le> 1 then 5 else if n = 2 then 10 else if n = 3 then 30 else if n = 4 then 60 else 300) * 1000000000"
proof -
  consider "n \<le> 1" | "n = 2" | "n = 3" | "n = 4" | "5 \<le> n" by linarith
  then show ?thesis by cases (simp_all add: backoff_delay_def Let_def)
qed

lemma backoff_delay_pos: "5000000000 \<le> backoff_delay n"
  by (simp add: backoff_delay_table)

lemma advance_backoff_simps:
  "advance_backoff_after_failure (rt, w) =
     (rt\<lparr>rt_retry_attempt := rt_retry_attempt rt + 1,
         rt_next_retry_at := fst (steady_now w) + backoff_delay (rt_retry_attempt rt + 1)\<rparr>, snd (steady_now w))"
  by (simp add: advance_backoff_after_failure_def case_prod_beta Let_def)

lemma steady_now_simps [simp]:
  "fst (steady_now w) = w_steady w (w_steady_n w)"
  "snd (steady_now w) = w\<lparr>w_steady_n := w_steady_n w + 1\<rparr>"
  by (simp_all add: steady_now_def)

section \<open>Flushing and retrying, case by case\<close>

lemma after_upload_cases:
  "after_upload now (Inr KAccepted, rt, w) =
     Done ((reset_backoff_after_success (rt\<lparr>rt_policy := mark_flushed now (rt_policy rt)\<rparr>))
             \<lparr>rt_accepted_upload_count := rt_accepted_upload_count rt + 1\<rparr>, w)"
  "after_upload now (Inr KRejected, rt, w) = Done (rt\<lparr>rt_policy := mark_flushed now (rt_policy rt)\<rparr>, w)"
  "after_upload now (Inr KTransientFailure, rt, w) = Done (advance_backoff_after_failure (rt, w))"
  "after_upload now (Inl e, rt, w) = Raised e (rt, w)"
  by (simp_all add: after_upload_def Let_def reset_backoff_after_success_def)

lemma after_retry_cases:
  "after_retry (Inr KAccepted, rt, w) =
     Done ((reset_backoff_after_success rt)\<lparr>rt_accepted_upload_count := rt_accepted_upload_count rt + 1\<rparr>, w)"
  "r \<noteq> KAccepted \<Longrightarrow> after_retry (Inr r, rt, w) = Done (advance_backoff_after_failure (rt, w))"
  "after_retry (Inl e, rt, w) = Raised e (rt, w)"
  by (simp_all add: after_retry_def Let_def reset_backoff_after_success_def)

text \<open>Backoff after a step that sent something.\<close>

definition backoff_after :: "upload_result \<Rightarrow> telemetry_runtime \<Rightarrow> int \<Rightarrow> telemetry_runtime \<Rightarrow> bool" where
  "backoff_after r rt t rt' \<longleftrightarrow>
     (if r = KAccepted then rt_retry_attempt rt' = 0 \<and> rt_accepted_upload_count rt' = rt_accepted_upload_count rt + 1
      else rt_retry_attempt rt' = rt_retry_attempt rt + 1 \<and>
           rt_next_retry_at rt' = t + backoff_delay (rt_retry_attempt rt + 1))"

definition retry_nothing_pending :: "runtime \<Rightarrow> runtime \<Rightarrow> bool" where
  "retry_nothing_pending s s' \<longleftrightarrow> store_pending s = (0, s') \<and> w_posts (snd s') = w_posts (snd s)"

definition retry_early :: "runtime \<Rightarrow> runtime \<Rightarrow> bool" where
  "retry_early s s' \<longleftrightarrow> 0 < rt_retry_attempt (fst s) \<and>
     w_steady (snd s) (w_steady_n (snd s)) < rt_next_retry_at (fst s) \<and>
     w_posts (snd s') = w_posts (snd s) \<and> rt_retry_attempt (fst s') = rt_retry_attempt (fst s) \<and>
     rt_next_retry_at (fst s') = rt_next_retry_at (fst s)"

definition retry_tried :: "upload_result \<Rightarrow> runtime \<Rightarrow> runtime \<Rightarrow> bool" where
  "retry_tried r s s' \<longleftrightarrow>
     \<not> (0 < rt_retry_attempt (fst s) \<and> w_steady (snd s) (w_steady_n (snd s)) < rt_next_retry_at (fst s)) \<and>
     backoff_after r (fst s) (w_steady (snd s) (w_steady_n (snd s) + 1)) (fst s') \<and>
     (w_posts (snd s') = w_posts (snd s) \<and> r = KAccepted \<or>
      (\<exists>q. w_posts (snd s') = w_posts (snd s) @ [q] \<and> r = next_reply (snd s)))"

lemma retry_result:
  assumes "runtime_wf (rt, w)" "rt_uploader rt = Some up" "rt_store_open rt"
    and "maybe_retry (rt, w) = Done (rt', w')"
  shows "retry_nothing_pending (rt, w) (rt', w') \<or> retry_early (rt, w) (rt', w') \<or>
         (\<exists>r. retry_tried r (rt, w) (rt', w'))"
proof -
  obtain n ls w1 where pc: "pending_count (rt_store rt, w) = (n, ls, w1)" by (metis surj_pair)
  define rt1 where rt1: "rt1 = rt\<lparr>rt_store := ls\<rparr>"
  have p: "store_pending (rt, w) = (n, rt1, w1)" by (simp add: store_pending_def pc rt1)
  have wf: "store_wf (rt_store rt, w)" using assms(1) by (simp add: runtime_wf_def)
  have net: "same_net w w1" using pending_count_file [OF wf] pc by simp
  have clock: "w_steady_n w1 = w_steady_n w" using store_clock(4) [of "(rt_store rt, w)"] pc by simp
  have w1: "w_steady w1 = w_steady w" "w_posts w1 = w_posts w" "w_reply w1 = w_reply w"
    using net by (simp_all add: same_net_def)
  have e1: "runtime_wf (rt1, w1)" using store_pending_effect [OF assms(1)] p by simp
  show ?thesis
  proof (cases "n = 0 \<or> \<not> retry_due (rt1, w1)")
    case True
    then show ?thesis
      using assms(4) maybe_retry_eq [OF assms(2,3), of w] p rt1 w1 clock
      by (cases "n = 0") (auto simp: retry_due_def retry_nothing_pending_def retry_early_def)
  next
    case False
    let ?w = "w1\<lparr>w_steady_n := w_steady_n w1 + 1\<rparr>"
    obtain r ls2 w2 where rp: "retry_pending up (max_batch rt1) (rt_store rt1, ?w) = (r, ls2, w2)"
      by (metis surj_pair)
    have wf1: "store_wf (rt_store rt1, ?w)" using e1 by (simp add: runtime_wf_def)
    have "up_has_store up" using assms(1,2,3) by (simp add: runtime_wf_def wf_members_def)
    then obtain k where k: "retry_spec up (take k (store_rows (rt_store rt1, ?w))) (rt_store rt1, ?w) r (ls2, w2)"
      using retry_effect [OF wf1 _ rp] by blast
    have res: "after_retry (r, rt1\<lparr>rt_store := ls2\<rparr>, w2) = Done (rt', w')"
      using assms(4) maybe_retry_eq [OF assms(2,3), of w] p False rp by simp
    then obtain x where x: "r = Inr x" by (cases r) (simp_all add: after_retry_cases(3))
    have frame: "w_steady w2 = w_steady w" "w_steady_n w2 = w_steady_n w + 1"
      using retry_keeps_frame [OF wf1 rp] w1 clock by (simp_all add: upload_frame_def)
    have posts: "w_posts w2 = w_posts w \<and> x = KAccepted \<or> (\<exists>q. w_posts w2 = w_posts w @ [q] \<and> x = next_reply w)"
      using k x w1 by (auto simp: retry_spec_def next_reply_def split: if_splits option.splits)
    have "backoff_after x rt (w_steady w (w_steady_n w + 1)) rt' \<and> w_posts w' = w_posts w2"
    proof (cases "x = KAccepted")
      case True
      then show ?thesis using res x rt1
        by (auto simp: after_retry_cases backoff_after_def reset_backoff_after_success_def)
    next
      case False
      then show ?thesis using res x rt1 frame
        by (auto simp: after_retry_cases backoff_after_def advance_backoff_simps)
    qed
    with posts False rt1 w1 clock have "retry_tried x (rt, w) (rt', w')"
      by (simp add: retry_due_def retry_tried_def)
    then show ?thesis by blast
  qed
qed

section \<open>The next time to wake up\<close>

lemma tick_schedule:
  assumes "runtime_wf (rt, w)" "wf_scheduler (rt_scheduler rt)" "poll_due (rt, w) = Some (rt1, w1)"
  shows "wf_scheduler (rt_scheduler rt1) \<and>
         (\<forall>t. next_deadline (rt_scheduler rt1) = Some t \<longrightarrow> w_steady w (w_steady_n w) < t)"
proof -
  let ?now = "w_steady w (w_steady_n w)"
  obtain n q st where d: "dispatch_due (Some poll_channel) ?now (rt_scheduler rt) (rt, w\<lparr>w_steady_n := w_steady_n w + 1\<rparr>)
      = Some (n, q, st)" "rt_scheduler rt1 = q"
    using assms(3) by (auto simp: poll_due_def case_prod_beta split: option.splits)
  show ?thesis
    using sched.wake_in_future [OF assms(2) d(1)] sched.dispatch_keeps_invar [OF assms(2) d(1)] d(2) by simp
qed

lemma mono_clock_later: "mono_clock w \<Longrightarrow> m \<le> n \<Longrightarrow> w_steady w m \<le> w_steady w n"
  by (simp add: mono_clock_def)

definition retry_waits :: "int \<Rightarrow> runtime \<Rightarrow> bool" where
  \<comment> \<open>if a retry is what the service waits for, it is later than the given time\<close>
  "retry_waits t s \<longleftrightarrow> (rt_store_open (fst s) \<and> store_rows (rt_store (fst s), snd s) \<noteq> [] \<and>
     0 < rt_retry_attempt (fst s) \<longrightarrow> t < rt_next_retry_at (fst s))"

lemma maybe_retry_waits:
  assumes "runtime_wf (rt, w)" "maybe_retry (rt, w) = Done (rt', w')" "mono_clock w" "count_works (w_sqlite w)"
    and "t \<le> w_steady w (w_steady_n w)"
  shows "retry_waits t (rt', w')"
proof (cases "rt_uploader rt")
  case None
  then have "rt_retry_attempt rt = 0" using assms(1) by (simp add: runtime_wf_def wf_members_def)
  then show ?thesis using None assms(2) by (simp add: maybe_retry_def retry_waits_def)
next
  case (Some up)
  show ?thesis
  proof (cases "rt_store_open rt")
    case False
    then show ?thesis using Some assms(2) by (simp add: maybe_retry_def retry_waits_def)
  next
    case True
    consider (idle) "retry_nothing_pending (rt, w) (rt', w')" | (early) "retry_early (rt, w) (rt', w')"
      | (tried) r where "retry_tried r (rt, w) (rt', w')"
      using retry_result [OF assms(1) Some True assms(2)] by blast
    then show ?thesis
    proof cases
      case idle
      have wf: "store_wf (rt_store rt, w)" "ls_db (rt_store rt) \<noteq> None"
        using assms(1) True by (simp_all add: runtime_wf_def wf_members_def)
      obtain ls where pc: "pending_count (rt_store rt, w) = (0, ls, w')" "rt_store rt' = ls"
        using idle by (auto simp: retry_nothing_pending_def store_pending_def split: prod.splits)
      then have "store_rows (rt_store rt, w) = []"
        using pending_count_works [OF wf(1)] wf(2) assms(4) by simp
      then have "store_rows (ls, w') = []" using pending_count_wf(2) [OF wf(1)] pc by simp
      then show ?thesis using pc by (simp add: retry_waits_def)
    next
      case early
      then show ?thesis using assms(5) by (simp add: retry_waits_def retry_early_def)
    next
      case (tried r)
      then show ?thesis
        using assms(5) mono_clock_later [OF assms(3), of "w_steady_n w" "w_steady_n w + 1"]
          backoff_delay_pos [of "rt_retry_attempt rt + 1"]
        by (auto simp: retry_tried_def backoff_after_def retry_waits_def split: if_splits)
    qed
  qed
qed

section \<open>Configuring keeps the engine\<close>

lemma open_local_store_net:
  assumes "runtime_wf (rt, w)" "open_local_store (rt, w) = (ok, rt', w')"
  shows "same_net w w'"
proof (cases "lc_path (cfg_local_storage (rt_config rt)) = []")
  case True
  then show ?thesis using assms(2) by (auto simp: open_local_store_def)
next
  case False
  obtain b ls w2 where op: "open_store (lc_path (cfg_local_storage (rt_config rt))) (rt_store rt, w) = (b, ls, w2)"
    by (metis surj_pair)
  have "sqlite_laws (w_sqlite w)" using assms(1) by (simp add: runtime_wf_def store_wf.simps)
  from open_store_disk [OF op this] show ?thesis
    using assms(2) op False by (auto simp: open_local_store_def Let_def split: if_splits)
qed

lemma runtime_configure_net:
  assumes "runtime_wf s" "runtime_configure env c key s = Some (ok, s')"
  shows "same_net (snd s) (snd s')"
proof -
  obtain rt w where s: "s = (rt, w)" by fastforce
  let ?f = "fresh_members env c key rt"
  note f = fresh_members_effect [OF assms(1) [unfolded s], of env c key]
  obtain b rt1 w1 where o: "open_local_store (?f, w) = (b, rt1, w1)" by (metis surj_pair)
  have w1: "same_net w w1" using open_local_store_net [OF conjunct1 [OF f] o] .
  have "rt_uploader ?f = None" using f by (simp add: pristine_def)
  from open_local_store_effect [OF conjunct1 [OF f] this o, of c] f
  have o1: "runtime_wf (rt1, w1)" "pristine c rt1" by simp_all
  obtain sched s2 where bc: "bind_channels env (cfg_channels c) [] (rt1, w1) = (sched, s2)" by (metis surj_pair)
  have "poll_world w1 (snd s2)"
    using bind_channels_effect [OF o1, of "cfg_channels c" "[]" env] bc by (simp add: bound_def)
  then have "same_net w (snd s2)" using poll_world_store(6) same_net_trans [OF w1] by blast
  then show ?thesis using assms(2) s o bc w1
    by (cases s2) (auto simp: runtime_configure_def finish_configure_def case_prod_beta Let_def
        split: if_splits option.splits)
qed

section \<open>A payload that can be serialised\<close>

lemma maybe_flush_done:
  assumes "runtime_wf (rt, w)" "\<forall>j. w_dump w j \<noteq> None"
  shows "\<exists>s'. maybe_flush (rt, w) = Done s'"
proof (cases "rt_uploader rt = None \<or> rt_buffer rt = None")
  case True
  then show ?thesis by (auto simp: maybe_flush_def split: option.splits)
next
  case False
  then obtain up rb where ub: "rt_uploader rt = Some up" "rt_buffer rt = Some rb" by auto
  let ?w = "w\<lparr>w_steady_n := w_steady_n w + 1\<rparr>" and ?batch = "take (max_batch rt) (contents rb)"
  have wf: "wf_buffer rb" "store_wf (rt_store rt, ?w)"
    using assms(1) ub by (simp_all add: runtime_wf_def wf_members_def)
  show ?thesis
  proof (cases "should_flush (w_steady w (w_steady_n w)) (rb_size rb) (max_batch rt) (rt_policy rt)")
    case True
    obtain r ls w2 where up: "upload up ?batch (rt_store rt, ?w) = (r, ls, w2)" by (metis surj_pair)
    have "upload_spec up ?batch (rt_store rt, ?w) r (ls, w2)"
      using upload_effect [OF wf(2) flush_batch_nonempty [OF True max_batch_pos] up] by blast
    moreover have "batch_request up ?batch ?w \<noteq> None" using assms(2) by (simp add: batch_request_def)
    ultimately obtain x where "r = Inr x" by (auto simp: upload_spec_def)
    then show ?thesis using maybe_flush_eq [OF ub wf(1), of w] True up
      by (cases x) (simp_all add: after_upload_cases)
  next
    case False
    then show ?thesis using maybe_flush_eq [OF ub wf(1), of w] by simp
  qed
qed

section \<open>Example pipeline\<close>

definition ex_env :: runtime_env where
  "ex_env = \<lparr>re_registry = static_registration kForceLinkDrivers, re_key_file = (\<lambda>_. None), re_what = (\<lambda>_. [])\<rparr>"

definition ex_channel_config :: channel_config where
  "ex_channel_config = channel_config_new\<lparr>ch_id := ''t'', ch_driver := ''sim'',
     ch_parameters := JObject [(''channel_id'', JString ''t'')],
     ch_sync := channel_sync_config_new\<lparr>sy_mode := KRealtime\<rparr>\<rparr>"

definition ex_config :: config where
  "ex_config = config_new\<lparr>cfg_version := 1, cfg_node := \<lparr>nd_id = ''n1'', nd_api_key_file = ''/k''\<rparr>,
     cfg_server := \<lparr>sv_url = ''https://t.example.com'', sv_upload_timeout_seconds = 30, sv_max_batch_size = 2\<rparr>,
     cfg_local_storage := \<lparr>lc_path = ex_file, lc_max_size_megabytes = 256, lc_retention_hours = 72\<rparr>,
     cfg_channels := [ex_channel_config]\<rparr>"

definition ex_down :: world where
  \<comment> \<open>the example world with a server that cannot be reached\<close>
  "ex_down = ex_world\<lparr>w_reply := \<lambda>_. \<lparr>hr_status_code = 0, hr_body = [], hr_error = ''timeout''\<rparr>\<rparr>"

definition ex_runtime :: runtime where
  "ex_runtime =
     (case runtime_configure ex_env ex_config [] (runtime_new, ex_down) of
        Some (_, s) \<Rightarrow> s | None \<Rightarrow> (runtime_new, ex_down))"

definition ex_polled :: runtime where
  "ex_polled = poll_channel ''t'' ex_runtime"

definition ex_backoff :: runtime where
  \<comment> \<open>the example pipeline after three failures, a quarter of an hour before the next retry\<close>
  "ex_backoff = ((fst ex_polled)\<lparr>rt_retry_attempt := 3, rt_next_retry_at := 900000000000\<rparr>, snd ex_polled)"

definition ex_no_url :: runtime where
  \<comment> \<open>the example pipeline without a server\<close>
  "ex_no_url = ((fst ex_runtime)\<lparr>rt_uploader := None\<rparr>, snd ex_runtime)"

lemma ex_mono: "mono_clock ex_down"
  by (simp add: mono_clock_def ex_down_def ex_world_def)

lemma ex_count_works: "count_works (w_sqlite ex_down)"
  by (auto simp: count_works_def ex_down_def ex_world_def ref_sqlite_def ref_run_def differ)

lemma runtime_new_wf:
  assumes "sqlite_laws (w_sqlite w)" "\<forall>t \<in> ran (w_disk w). wf_table t"
  shows "runtime_wf (runtime_new, w)"
  using assms by (simp add: runtime_wf_def wf_members_def runtime_new_def store_wf.simps local_store_new_def)

lemma ex_new_wf: "runtime_wf (runtime_new, ex_down)"
proof (rule runtime_new_wf)
  show "sqlite_laws (w_sqlite ex_down)" using ex_world_laws by (simp add: ex_down_def)
  show "\<forall>t \<in> ran (w_disk ex_down). wf_table t" by (simp add: ex_down_def ex_world_def)
qed

lemma ex_configured:
  "runtime_configure ex_env ex_config [] (runtime_new, ex_down) = Some (True, ex_runtime)"
proof -
  have "case runtime_configure ex_env ex_config [] (runtime_new, ex_down) of Some (ok, _) \<Rightarrow> ok | None \<Rightarrow> False"
    by code_simp
  then show ?thesis by (auto simp: ex_runtime_def split: option.splits)
qed

lemma ex_runtime_wf: "runtime_wf ex_runtime"
  using runtime_configure_effect [OF ex_new_wf, of ex_env ex_config "[]" True "fst ex_runtime" "snd ex_runtime"]
    ex_configured by simp

lemma ex_polled_wf: "runtime_wf ex_polled"
  using poll_channel_effect [of "fst ex_runtime" "snd ex_runtime" "''t''" "fst ex_polled" "snd ex_polled"]
    ex_runtime_wf by (simp add: ex_polled_def)

lemma ex_polled_net: "same_net ex_down (snd ex_polled)"
proof -
  have "same_net (snd ex_runtime) (snd ex_polled)"
    using poll_channel_effect [of "fst ex_runtime" "snd ex_runtime" "''t''" "fst ex_polled" "snd ex_polled"]
      ex_runtime_wf poll_world_store(6) by (auto simp: ex_polled_def polled_def)
  with runtime_configure_net [OF ex_new_wf ex_configured] show ?thesis by (auto intro: same_net_trans)
qed

text \<open>The examples evaluated once.\<close>

lemma ex_runtime_state:
  "rt_channels (fst ex_runtime) \<noteq> [] \<and> rt_retry_attempt (fst ex_runtime) = 0 \<and> w_posts (snd ex_runtime) = [] \<and>
   list_all wf_channel (rt_scheduler (fst ex_runtime))"
proof -
  have "case ex_runtime of (rt, w) \<Rightarrow> rt_channels rt \<noteq> [] \<and> rt_retry_attempt rt = 0 \<and> w_posts w = [] \<and>
      list_all wf_channel (rt_scheduler rt)" by code_simp
  then show ?thesis by (simp add: case_prod_beta)
qed

lemma ex_polled_state:
  obtains up rb where "rt_uploader (fst ex_polled) = Some up" "rt_buffer (fst ex_polled) = Some rb"
    "should_flush (w_steady (snd ex_polled) (w_steady_n (snd ex_polled))) (rb_size rb) (max_batch (fst ex_polled))
       (rt_policy (fst ex_polled))"
    "rb_size rb = 1" "max_batch (fst ex_polled) = 2" "\<forall>x \<in> set (contents rb). ss_value x \<noteq> NaN"
    "rt_store_open (fst ex_polled)" "store_rows (rt_store (fst ex_polled), snd ex_polled) = []"
    "w_posts (snd ex_polled) = []" "next_reply (snd ex_polled) = KTransientFailure"
    "w_steady (snd ex_polled) (w_steady_n (snd ex_polled)) < 900000000000"
proof -
  have "case ex_polled of (rt, w) \<Rightarrow> rt_store_open rt \<and> store_rows (rt_store rt, w) = [] \<and> w_posts w = [] \<and>
      next_reply w = KTransientFailure \<and> w_steady w (w_steady_n w) < 900000000000 \<and>
      (case (rt_uploader rt, rt_buffer rt) of
         (Some up, Some rb) \<Rightarrow> should_flush (w_steady w (w_steady_n w)) (rb_size rb) (max_batch rt) (rt_policy rt) \<and>
           rb_size rb = 1 \<and> max_batch rt = 2 \<and> list_all (\<lambda>x. ss_value x \<noteq> NaN) (contents rb)
       | _ \<Rightarrow> False)" by code_simp
  then show ?thesis using that by (auto simp: case_prod_beta list.pred_set split: option.splits)
qed

section \<open>Enqueuing a reading\<close>

lemma enqueue_all_refines:
  "rb_wf q \<Longrightarrow> contents (fold (\<lambda>s rb. snd (enqueue (from_sample s p) rb)) xs q) =
     fold (\<lambda>s q'. fst (snd (queue_enqueue (rb_capacity q) (from_sample s p) q'))) xs (contents q)"
proof (induction xs arbitrary: q)
  case (Cons x xs)
  let ?q = "snd (enqueue (from_sample x p) q)"
  have "rb_wf ?q" "rb_capacity ?q = rb_capacity q"
    using rb.invar_enq [OF Cons.prems] rb.room_enq [OF Cons.prems] by simp_all
  moreover have "contents ?q = fst (snd (queue_enqueue (rb_capacity q) (from_sample x p) (contents q)))"
    using enqueue_refines [OF Cons.prems, of "from_sample x p"] by simp
  ultimately show ?case using Cons.IH [of ?q] by simp
qed simp

lemma enqueue_all_room:
  "rb_wf q \<Longrightarrow> rb_size q + length xs \<le> rb_capacity q \<Longrightarrow>
   contents (fold (\<lambda>s rb. snd (enqueue (from_sample s p) rb)) xs q) = contents q @ map (\<lambda>s. from_sample s p) xs"
proof (induction xs arbitrary: q)
  case (Cons x xs)
  let ?q = "snd (enqueue (from_sample x p) q)"
  have c: "contents ?q = contents q @ [from_sample x p]"
    using rb.enq_room [OF Cons.prems(1), of "from_sample x p"] Cons.prems(2) by simp
  have "rb_wf ?q" "rb_capacity ?q = rb_capacity q"
    using rb.invar_enq [OF Cons.prems(1)] rb.room_enq [OF Cons.prems(1)] by simp_all
  moreover have "rb_size ?q = Suc (rb_size q)" using arg_cong [OF c, of length] by simp
  ultimately show ?case using Cons.IH [of ?q] Cons.prems(2) c by simp
qed simp

section \<open>Properties\<close>

text \<open>
  C28: A successful \<open>configure\<close> builds the pipeline of the configuration, and nothing of an earlier one
  survives: the API key given or the one of the key file; the store open, on the configured file, exactly if
  there is a path; an empty buffer of one batch; no backoff and no uploads counted; an uploader, with the URL,
  the node, the key and the time limit of the configuration, exactly if there is a server URL; for every
  identifier of a channel with a positive rate the settings of the last such channel in the idle policy and
  a driver made by the registered factory from the parameters of the first, and nothing for any other
  identifier; and one schedule entry for each such channel in the order of the file, due at once.
\<close>

theorem configure_builds_pipeline:
  assumes "runtime_wf s" "runtime_configure env c key s = Some (True, rt, w)"
  defines "chs \<equiv> filter active (cfg_channels c)"
    and "api_key \<equiv> if key \<noteq> [] then key else read_api_key_file env (nd_api_key_file (cfg_node c))"
  shows "rt_config rt = c \<and> rt_api_key rt = api_key \<and> rt_retry_attempt rt = 0 \<and> rt_accepted_upload_count rt = 0 \<and>
    (rt_store_open rt \<longleftrightarrow> lc_path (cfg_local_storage c) \<noteq> []) \<and>
    (rt_store_open rt \<longrightarrow> ls_db (rt_store rt) = Some (c_str (lc_path (cfg_local_storage c)))) \<and>
    (\<exists>rb. rt_buffer rt = Some rb \<and> contents rb = [] \<and> rb_capacity rb = buffer_capacity c) \<and>
    rt_uploader rt = (if sv_url (cfg_server c) = [] then None
      else Some \<lparr>up_has_store = rt_store_open rt, up_server_url = sv_url (cfg_server c),
                 up_node_id = nd_id (cfg_node c), up_api_key = api_key,
                 up_timeout_seconds = sv_upload_timeout_seconds (cfg_server c)\<rparr>) \<and>
    fresh_policy (rt_policy rt) \<and>
    (\<forall>i. map_option ps_config (map_of (pol_channels (rt_policy rt)) i)
         = map_option sync_state_of (map_of (rev (map (\<lambda>ch. (ch_id ch, ch)) chs)) i)) \<and>
    (\<forall>i. case map_of (map (\<lambda>ch. (ch_id ch, ch)) chs) i of
           None \<Rightarrow> map_of (rt_channels rt) i = None
         | Some ch \<Rightarrow> \<exists>d. map_of (rt_channels rt) i = Some \<lparr>bd_config = ch, bd_driver = d\<rparr> \<and> device_ready d \<and>
             (\<exists>f v v'. registry_create (ch_driver ch) (re_registry env) = Some f \<and>
                device_configure (ch_parameters ch) (make_device f, v) = (None, d, v'))) \<and>
    map cs_entry (rt_scheduler rt) = map entry_of chs \<and>
    (\<exists>now. \<forall>ch \<in> set (rt_scheduler rt). cs_next_deadline ch = now)"
proof -
  obtain rt0 w0 where s: "s = (rt0, w0)" by fastforce
  note e = runtime_configure_effect [OF assms(1) [unfolded s] assms(2) [unfolded s]]
    and r = runtime_configure_result [OF assms(1) [unfolded s] assms(2) [unfolded s], folded chs_def]
  then obtain now where c: "configured c rt" "Scheduler.configure now (map entry_of chs) = Some (rt_scheduler rt)"
    by (auto simp: chs_def)
  have key: "rt_api_key rt = api_key" using r by (simp add: api_key_def key_of_def)
  have "rt_uploader rt = (if sv_url (cfg_server c) = [] then None
      else Some \<lparr>up_has_store = rt_store_open rt, up_server_url = sv_url (cfg_server c),
                 up_node_id = nd_id (cfg_node c), up_api_key = api_key,
                 up_timeout_seconds = sv_upload_timeout_seconds (cfg_server c)\<rparr>)"
    using c(1) key by (simp add: configured_def make_uploader_def)
  moreover have "case map_of (map (\<lambda>ch. (ch_id ch, ch)) chs) i of
           None \<Rightarrow> map_of (rt_channels rt) i = None
         | Some ch \<Rightarrow> \<exists>d. map_of (rt_channels rt) i = Some \<lparr>bd_config = ch, bd_driver = d\<rparr> \<and> device_ready d \<and>
             (\<exists>f v v'. registry_create (ch_driver ch) (re_registry env) = Some f \<and>
                device_configure (ch_parameters ch) (make_device f, v) = (None, d, v'))" for i
  proof -
    have "device_ready d" if "driver_of env ch d" for ch d using that device.start_ready by (auto simp: driver_of_def)
    moreover have "bound_to env (map_of (map (\<lambda>ch. (ch_id ch, ch)) chs) i) (map_of (rt_channels rt) i)"
      using r unfolding by_id_def by blast
    ultimately show ?thesis by (fastforce simp: bound_to_def driver_of_def split: option.splits)
  qed
  moreover have "\<forall>ch \<in> set (rt_scheduler rt). cs_next_deadline ch = now"
    using configure_Some [OF c(2)] by blast
  ultimately show ?thesis using c(1) r key unfolding configured_def policies_def by_id_def chs_def by blast
qed

theorem configure_builds_pipeline_witness:
  "(\<exists>d. map_of (rt_channels (fst ex_runtime)) ''t'' = Some \<lparr>bd_config = ex_channel_config, bd_driver = d\<rparr>) \<and>
   map_option ps_config (map_of (pol_channels (rt_policy (fst ex_runtime))) ''t'') = Some (sync_state_of ex_channel_config) \<and>
   map_option up_node_id (rt_uploader (fst ex_runtime)) = Some (nd_id (cfg_node ex_config))"
proof -
  have "runtime_configure ex_env ex_config [] (runtime_new, ex_down) = Some (True, fst ex_runtime, snd ex_runtime)"
    using ex_configured by simp
  note b = configure_builds_pipeline [OF ex_new_wf this]
  have x: "filter active (cfg_channels ex_config) = [ex_channel_config]" "ch_id ex_channel_config = ''t''"
    "sv_url (cfg_server ex_config) \<noteq> []" by code_simp+
  have x': "map (\<lambda>ch. (ch_id ch, ch)) (filter active (cfg_channels ex_config)) = [(''t'', ex_channel_config)]"
    by (simp add: x(1,2))
  note b = b [unfolded x']
  have p: "\<forall>i. map_option ps_config (map_of (pol_channels (rt_policy (fst ex_runtime))) i)
         = map_option sync_state_of (map_of (rev [(''t'', ex_channel_config)]) i)"
    and c: "\<forall>i. case map_of [(''t'', ex_channel_config)] i of
           None \<Rightarrow> map_of (rt_channels (fst ex_runtime)) i = None
         | Some ch \<Rightarrow> \<exists>d. map_of (rt_channels (fst ex_runtime)) i = Some \<lparr>bd_config = ch, bd_driver = d\<rparr> \<and> device_ready d \<and>
             (\<exists>f v v'. registry_create (ch_driver ch) (re_registry ex_env) = Some f \<and>
                device_configure (ch_parameters ch) (make_device f, v) = (None, d, v'))"
    and u: "map_option up_node_id (rt_uploader (fst ex_runtime)) = Some (nd_id (cfg_node ex_config))"
    using b x(3) by (blast, blast, simp)
  show ?thesis using spec [OF p, of "''t''"] spec [OF c, of "''t''"] u by auto
qed

text \<open>
  A poll records the whole reading: the samples the driver returned, at most eight, go to the buffer
  in their order with the priority of the channel, as enqueuing them on the abstract priority queue
  does (so all of them are kept while there is room), and the policy sees their values under the
  channel's identifier at the time of the poll. Nothing is sent or written to disk.
\<close>

theorem poll_records_reading:
  assumes "runtime_wf (rt, w)" "map_of (rt_channels rt) i = Some b" "rt_buffer rt = Some rb"
    and "device_read (bd_driver b, w) = (r, d, w1)" "poll_channel i (rt, w) = (rt', w')"
  shows "let p = sy_priority (ch_sync (bd_config b)); ss = take (rr_sample_count r) (rr_samples r);
             now = w_steady w (w_steady_n w) in
    length ss \<le> 8 \<and>
    (\<exists>rb'. rt_buffer rt' = Some rb' \<and>
       contents rb' = fold (\<lambda>s q. fst (snd (queue_enqueue (rb_capacity rb) (from_sample s p) q))) ss (contents rb) \<and>
       (rb_size rb + length ss \<le> rb_capacity rb \<longrightarrow>
          contents rb' = contents rb @ map (\<lambda>s. from_sample s p) ss)) \<and>
    rt_policy rt' = run_policy (map (\<lambda>s. PolSample i (sa_value s) now) ss) (rt_policy rt) \<and>
    w_posts w' = w_posts w \<and> w_disk w' = w_disk w"
proof -
  define p ss where "p = sy_priority (ch_sync (bd_config b))" and "ss = take (rr_sample_count r) (rr_samples r)"
  let ?enq = "\<lambda>ss rb. fold (\<lambda>s rb. snd (enqueue (from_sample s p) rb)) ss rb"
  have rb: "rb_wf rb" using assms(1,2,3) by (auto simp: runtime_wf_def wf_members_def wf_buffer_def split: option.splits)
  have w1: "device_world w w1" using device_read_world [OF assms(4)] .
  have eq: "rt_buffer rt' = Some (?enq ss rb)" "w' = snd (steady_now w1)"
    "rt_policy rt' = fold (\<lambda>s pol. on_sample i (sa_value s) (fst (steady_now w1)) pol) ss (rt_policy rt)"
    using poll_channel_known [OF assms(2,3,4)] assms(5) by (simp_all add: p_def ss_def)
  have pol: "fold (\<lambda>s pol. on_sample i (sa_value s) t pol) xs q = run_policy (map (\<lambda>s. PolSample i (sa_value s) t) xs) q"
    for t xs q by (induction xs arbitrary: q) (simp_all add: run_policy_def)
  have len: "length ss \<le> 8" using device.emitted_bound [of "(bd_driver b, w)"] assms(4)
    by (simp add: device.emitted_def ss_def)
  have world: "w_posts w' = w_posts w" "w_disk w' = w_disk w" "w_steady w1 = w_steady w" "w_steady_n w1 = w_steady_n w"
    using w1 by (auto simp: eq(2) device_world_def)
  show ?thesis
    unfolding Let_def p_def [symmetric] ss_def [symmetric]
    using enqueue_all_refines [OF rb, of p ss] enqueue_all_room [OF rb, of ss p] eq(1,3) world len by (simp add: pol)
qed

theorem poll_records_reading_witness:
  "\<exists>rb x. rt_buffer (fst ex_polled) = Some rb \<and> contents rb = [from_sample x KNormal]"
proof -
  have "case (map_of (rt_channels (fst ex_runtime)) ''t'', rt_buffer (fst ex_runtime)) of
      (Some b, Some rb) \<Rightarrow> rb_size rb = 0 \<and> rb_capacity rb = 2 \<and> sy_priority (ch_sync (bd_config b)) = KNormal \<and>
        rr_sample_count (fst (device_read (bd_driver b, snd ex_runtime))) = 1 \<and>
        length (rr_samples (fst (device_read (bd_driver b, snd ex_runtime)))) = 8 | _ \<Rightarrow> False" by code_simp
  then obtain b rb where b: "map_of (rt_channels (fst ex_runtime)) ''t'' = Some b" "rt_buffer (fst ex_runtime) = Some rb"
      "rb_size rb = 0" "rb_capacity rb = 2" "sy_priority (ch_sync (bd_config b)) = KNormal"
      "rr_sample_count (fst (device_read (bd_driver b, snd ex_runtime))) = 1"
      "length (rr_samples (fst (device_read (bd_driver b, snd ex_runtime)))) = 8"
    by (auto split: option.splits)
  obtain r d w1 where r: "device_read (bd_driver b, snd ex_runtime) = (r, d, w1)" by (metis surj_pair)
  have wf: "runtime_wf (fst ex_runtime, snd ex_runtime)" using ex_runtime_wf by simp
  have p: "poll_channel ''t'' (fst ex_runtime, snd ex_runtime) = (fst ex_polled, snd ex_polled)"
    by (simp add: ex_polled_def)
  have "contents rb = []" using b(3) by (simp flip: length_0_conv)
  moreover obtain x xs where "rr_samples r = x # xs" using b(7) r by (cases "rr_samples r") auto
  ultimately show ?thesis using poll_records_reading [OF wf b(1,2) r p] b r by (auto simp: Let_def)
qed

lemma drain_keeps_ring:
  "rb_drop_count (snd (drain dequeue n batch rb)) = rb_drop_count rb"
  "rb_capacity (snd (drain dequeue n batch rb)) = rb_capacity rb"
  by (rule drain_keeps, simp add: dequeue_def)+

definition kept_of :: "bool \<Rightarrow> stored_sample list \<Rightarrow> stored_sample list \<Rightarrow> bool" where
  \<comment> \<open>what reaches the store of a batch, all of it if the store works\<close>
  "kept_of works batch kept \<longleftrightarrow> subseq kept batch \<and> (works \<and> (\<forall>x \<in> set batch. ss_value x \<noteq> NaN) \<longrightarrow> kept = batch)"

lemma flush_step:
  assumes "runtime_wf (rt, w)" "rt_uploader rt = Some up" "rt_buffer rt = Some rb"
    and "should_flush (w_steady w (w_steady_n w)) (rb_size rb) (max_batch rt) (rt_policy rt)"
    and "maybe_flush (rt, w) = Done (rt', w')"
  defines "batch \<equiv> take (max_batch rt) (contents rb)"
  obtains rb' q where "batch \<noteq> []" "rt_buffer rt' = Some rb'" "contents rb' = drop (max_batch rt) (contents rb)"
    "rb_drop_count rb' = rb_drop_count rb" "rb_capacity rb' = rb_capacity rb"
    "batch_request up batch (w\<lparr>w_steady_n := w_steady_n w + 1\<rparr>) = Some q" "w_posts w' = w_posts w @ [q]"
    "case next_reply w of
       KAccepted \<Rightarrow> rt_retry_attempt rt' = 0
     | KRejected \<Rightarrow> rt_retry_attempt rt' = rt_retry_attempt rt
     | KTransientFailure \<Rightarrow> rt_retry_attempt rt' = rt_retry_attempt rt + 1"
    "rt_accepted_upload_count rt' = rt_accepted_upload_count rt + (if next_reply w = KAccepted then 1 else 0)"
    "if next_reply w = KTransientFailure
     then \<exists>kept. kept_of (rt_store_open rt \<and> insert_works (w_sqlite w)) batch kept \<and>
            map snd (store_rows (rt_store rt', w')) = map snd (store_rows (rt_store rt, w)) @ map saved_sample kept
     else store_rows (rt_store rt', w') = store_rows (rt_store rt, w)"
proof -
  let ?w = "w\<lparr>w_steady_n := w_steady_n w + 1\<rparr>"
  have wf: "wf_members rt" "store_wf (rt_store rt, ?w)" using assms(1) by (simp_all add: runtime_wf_def)
  have rb: "wf_buffer rb" using wf(1) assms(3) by (simp add: wf_members_def)
  have ne: "batch \<noteq> []" unfolding batch_def using flush_batch_nonempty [OF assms(4) max_batch_pos] .
  obtain rb' where d: "drain dequeue (max_batch rt) [] rb = (batch, rb')" "contents rb' = drop (max_batch rt) (contents rb)"
    unfolding batch_def using drain_buffer [OF rb] by blast
  have ring: "rb_drop_count rb' = rb_drop_count rb" "rb_capacity rb' = rb_capacity rb"
    using drain_keeps_ring [of "max_batch rt" "[]" rb] d(1) by simp_all
  obtain r ls w2 where up: "upload up batch (rt_store rt, ?w) = (r, ls, w2)" by (metis surj_pair)
  have spec: "upload_spec up batch (rt_store rt, ?w) r (ls, w2)" using upload_effect [OF wf(2) ne up] by blast
  have res: "after_upload (w_steady w (w_steady_n w)) (r, (sent_away rt rb)\<lparr>rt_store := ls\<rparr>, w2) = Done (rt', w')"
    using assms(5) maybe_flush_eq [OF assms(2,3) rb, of w] assms(4) up by (simp add: batch_def)
  then obtain x where x: "r = Inr x" by (cases r) (simp_all add: after_upload_cases(4))
  then obtain q where q: "batch_request up batch ?w = Some q" "x = next_reply w" "w_posts w2 = w_posts w @ [q]"
    using spec by (auto simp: upload_spec_def next_reply_def split: option.splits)
  have buf: "rt_buffer rt' = Some rb'" "w_posts w' = w_posts w2" "store_rows (rt_store rt', w') = store_rows (ls, w2)"
    using res x d
    by (cases x; auto simp: after_upload_cases reset_backoff_after_success_def sent_away_def advance_backoff_simps)+
  have att: "case x of
      KAccepted \<Rightarrow> rt_retry_attempt rt' = 0
    | KRejected \<Rightarrow> rt_retry_attempt rt' = rt_retry_attempt rt
    | KTransientFailure \<Rightarrow> rt_retry_attempt rt' = rt_retry_attempt rt + 1"
    "rt_accepted_upload_count rt' = rt_accepted_upload_count rt + (if x = KAccepted then 1 else 0)"
    using res x
    by (cases x; auto simp: after_upload_cases reset_backoff_after_success_def sent_away_def advance_backoff_simps)+
  have rows: "if x = KTransientFailure
      then \<exists>kept. kept_of (rt_store_open rt \<and> insert_works (w_sqlite w)) batch kept \<and>
             map snd (store_rows (ls, w2)) = map snd (store_rows (rt_store rt, w)) @ map saved_sample kept
      else store_rows (ls, w2) = store_rows (rt_store rt, w)"
    using spec q(1,2) wf(1) assms(2)
    by (auto simp: upload_spec_def next_reply_def wf_members_def kept_of_def split: if_splits)
  show thesis using that [of rb' q] ne buf q att rows ring d(2) by simp
qed

lemma flush_after_upload:
  assumes "runtime_wf (rt, w)" "rt_uploader rt = Some up" "rt_buffer rt = Some rb"
    and "should_flush (w_steady w (w_steady_n w)) (rb_size rb) (max_batch rt) (rt_policy rt)"
    and "maybe_flush (rt, w) = Done (rt', w')"
  obtains ls w2 where "after_upload (w_steady w (w_steady_n w)) (Inr (next_reply w), (sent_away rt rb)\<lparr>rt_store := ls\<rparr>, w2)
      = Done (rt', w')" "w_steady w2 = w_steady w" "w_steady_n w2 = w_steady_n w + 1"
proof -
  let ?batch = "take (max_batch rt) (contents rb)" and ?w = "w\<lparr>w_steady_n := w_steady_n w + 1\<rparr>"
  have wf: "wf_buffer rb" "store_wf (rt_store rt, ?w)" using assms(1,3) by (simp_all add: runtime_wf_def wf_members_def)
  obtain r ls w2 where up: "upload up ?batch (rt_store rt, ?w) = (r, ls, w2)" by (metis surj_pair)
  have res: "after_upload (w_steady w (w_steady_n w)) (r, (sent_away rt rb)\<lparr>rt_store := ls\<rparr>, w2) = Done (rt', w')"
    using assms(5) maybe_flush_eq [OF assms(2,3) wf(1), of w] assms(4) up by simp
  have "upload_spec up ?batch (rt_store rt, ?w) r (ls, w2)"
    using upload_effect [OF wf(2) flush_batch_nonempty [OF assms(4) max_batch_pos] up] by blast
  moreover have "r \<noteq> Inl e" for e using res by (auto simp: after_upload_cases(4))
  ultimately have "r = Inr (next_reply w)" by (auto simp: upload_spec_def next_reply_def split: option.splits)
  then show thesis using that res upload_keeps_frame [OF wf(2) up] by (simp add: upload_frame_def)
qed

lemma flush_outcome:
  assumes "runtime_wf (rt, w)" "rt_uploader rt = Some up" "rt_buffer rt = Some rb"
    and "should_flush (w_steady w (w_steady_n w)) (rb_size rb) (max_batch rt) (rt_policy rt)"
    and "maybe_flush (rt, w) = Done (rt', w')"
  shows "let batch = take (max_batch rt) (contents rb) in
    batch \<noteq> [] \<and>
    (\<exists>rb'. rt_buffer rt' = Some rb' \<and> contents rb = batch @ contents rb') \<and>
    (\<exists>q. batch_request up batch (w\<lparr>w_steady_n := w_steady_n w + 1\<rparr>) = Some q \<and> w_posts w' = w_posts w @ [q]) \<and>
    (case next_reply w of
       KAccepted \<Rightarrow> rt_retry_attempt rt' = 0 \<and> rt_accepted_upload_count rt' = rt_accepted_upload_count rt + 1 \<and>
         store_rows (rt_store rt', w') = store_rows (rt_store rt, w)
     | KRejected \<Rightarrow> rt_retry_attempt rt' = rt_retry_attempt rt \<and>
         store_rows (rt_store rt', w') = store_rows (rt_store rt, w)
     | KTransientFailure \<Rightarrow> rt_retry_attempt rt' = rt_retry_attempt rt + 1 \<and>
         (rt_store_open rt \<and> insert_works (w_sqlite w) \<and> (\<forall>x \<in> set batch. ss_value x \<noteq> NaN) \<longrightarrow>
            map snd (store_rows (rt_store rt', w')) =
              map snd (store_rows (rt_store rt, w)) @ map saved_sample batch))"
  by (rule flush_step [OF assms])
     (cases "next_reply w", auto simp: Let_def kept_of_def)

text \<open>
  C29: A flush accounts for every buffered sample. The oldest samples, one batch at most, leave the
  buffer and are posted in one request, the rest stay in their order. If the server accepts, the upload
  counts and the backoff ends; if it rejects, the batch is gone; if it fails, the retry is put off and
  the whole batch is in the offline store behind what was there, provided the store is open, the
  database works and no value is NaN.
\<close>

theorem flush_accounts_for_samples:
  assumes "runtime_wf (rt, w)" "rt_uploader rt = Some up" "rt_buffer rt = Some rb"
    and "should_flush (w_steady w (w_steady_n w)) (rb_size rb) (max_batch rt) (rt_policy rt)"
    and "maybe_flush (rt, w) = Done (rt', w')"
  shows "let batch = take (max_batch rt) (contents rb) in
    batch \<noteq> [] \<and>
    (\<exists>rb'. rt_buffer rt' = Some rb' \<and> contents rb = batch @ contents rb') \<and>
    (\<exists>q. batch_request up batch (w\<lparr>w_steady_n := w_steady_n w + 1\<rparr>) = Some q \<and> w_posts w' = w_posts w @ [q]) \<and>
    (case next_reply w of
       KAccepted \<Rightarrow> rt_retry_attempt rt' = 0 \<and> rt_accepted_upload_count rt' = rt_accepted_upload_count rt + 1 \<and>
         store_rows (rt_store rt', w') = store_rows (rt_store rt, w)
     | KRejected \<Rightarrow> rt_retry_attempt rt' = rt_retry_attempt rt \<and>
         store_rows (rt_store rt', w') = store_rows (rt_store rt, w)
     | KTransientFailure \<Rightarrow> rt_retry_attempt rt' = rt_retry_attempt rt + 1 \<and>
         (rt_store_open rt \<and> insert_works (w_sqlite w) \<and> (\<forall>x \<in> set batch. ss_value x \<noteq> NaN) \<longrightarrow>
            map snd (store_rows (rt_store rt', w')) =
              map snd (store_rows (rt_store rt, w)) @ map saved_sample batch))"
  using flush_outcome [OF assms] .

theorem flush_accounts_for_samples_witness:
  "\<exists>rt w. maybe_flush ex_polled = Done (rt, w) \<and> length (store_rows (rt_store rt, w)) = 1 \<and> length (w_posts w) = 1"
proof -
  have net: "\<forall>j. w_dump (snd ex_polled) j \<noteq> None" "w_sqlite (snd ex_polled) = ref_sqlite (\<lambda>_. None)"
    using ex_polled_net by (simp_all add: same_net_def ex_down_def ex_world_def)
  obtain rt w where m: "maybe_flush (fst ex_polled, snd ex_polled) = Done (rt, w)"
    using maybe_flush_done [of "fst ex_polled" "snd ex_polled"] ex_polled_wf net(1) by auto
  obtain up rb where e: "rt_uploader (fst ex_polled) = Some up" "rt_buffer (fst ex_polled) = Some rb"
      "should_flush (w_steady (snd ex_polled) (w_steady_n (snd ex_polled))) (rb_size rb) (max_batch (fst ex_polled))
         (rt_policy (fst ex_polled))" "rb_size rb = 1" "max_batch (fst ex_polled) = 2"
      "\<forall>x \<in> set (contents rb). ss_value x \<noteq> NaN"
    and s: "next_reply (snd ex_polled) = KTransientFailure" "rt_store_open (fst ex_polled)"
      "store_rows (rt_store (fst ex_polled), snd ex_polled) = []" "w_posts (snd ex_polled) = []"
    using ex_polled_state by metis
  have wf: "runtime_wf (fst ex_polled, snd ex_polled)" using ex_polled_wf by simp
  have "insert_works (w_sqlite (snd ex_polled))" by (simp add: net(2) ref_insert_works)
  with flush_accounts_for_samples [OF wf e(1-3) m] s e(4-6)
  have "map snd (store_rows (rt_store rt, w)) = map saved_sample (contents rb) \<and> length (w_posts w) = 1"
    by (auto simp: Let_def)
  then have "length (store_rows (rt_store rt, w)) = 1 \<and> length (w_posts w) = 1"
    using e(4) by (metis length_contents length_map)
  with m show ?thesis by auto
qed

text \<open>
  C30: Retries respect the backoff. While the announced time of the next retry has not come, nothing is sent
  from the offline store and the announcement stands. Otherwise one call sends at most one request, and
  if that is not accepted the next retry is announced 5, 10, 30, 60 and then always 300 seconds after
  the reply, for the first, second, third, fourth and every further failure in a row; success ends the
  backoff.
\<close>

theorem retry_waits_out_backoff:
  assumes "runtime_wf (rt, w)" "maybe_retry (rt, w) = Done (rt', w')"
  shows "if 0 < rt_retry_attempt rt \<and> w_steady w (w_steady_n w) < rt_next_retry_at rt
    then w_posts w' = w_posts w \<and> rt_retry_attempt rt' = rt_retry_attempt rt \<and>
         rt_next_retry_at rt' = rt_next_retry_at rt
    else w_posts w' = w_posts w \<or>
      (\<exists>q. w_posts w' = w_posts w @ [q]) \<and>
      (if next_reply w = KAccepted then rt_retry_attempt rt' = 0
       else let k = rt_retry_attempt rt + 1 in
         rt_retry_attempt rt' = k \<and>
         rt_next_retry_at rt' = w_steady w (w_steady_n w + 1) +
           (if k = 1 then 5 else if k = 2 then 10 else if k = 3 then 30 else if k = 4 then 60 else 300) * 1000000000)"
proof -
  have wf: "wf_members rt" using assms(1) by (simp add: runtime_wf_def)
  show ?thesis
  proof (cases "rt_uploader rt \<noteq> None \<and> rt_store_open rt")
    case False
    then show ?thesis using assms(2) by (auto simp: maybe_retry_def split: option.splits if_splits)
  next
    case True
    then obtain up where up: "rt_uploader rt = Some up" "rt_store_open rt" by auto
    have pos: "0 \<le> rt_retry_attempt rt" using wf by (simp add: wf_members_def)
    consider (idle) "retry_nothing_pending (rt, w) (rt', w')" | (early) "retry_early (rt, w) (rt', w')"
      | (tried) r where "retry_tried r (rt, w) (rt', w')"
      using retry_result [OF assms(1) up assms(2)] by blast
    then show ?thesis
    proof cases
      case idle
      then have "\<exists>ls. rt' = rt\<lparr>rt_store := ls\<rparr>"
        using store_pending_effect [OF assms(1)] by (simp add: retry_nothing_pending_def)
      with idle show ?thesis by (auto simp: retry_nothing_pending_def)
    next
      case early
      then show ?thesis by (simp add: retry_early_def)
    next
      case (tried r)
      then show ?thesis using pos by (auto simp: retry_tried_def backoff_after_def Let_def backoff_delay_table)
    qed
  qed
qed

lemma maybe_retry_done:
  assumes "runtime_wf (rt, w)" "\<forall>j. w_dump w j \<noteq> None"
  shows "\<exists>s'. maybe_retry (rt, w) = Done s'"
proof (cases "rt_uploader rt \<noteq> None \<and> rt_store_open rt")
  case False
  then show ?thesis by (auto simp: maybe_retry_def split: option.splits)
next
  case True
  then obtain up where u: "rt_uploader rt = Some up" "rt_store_open rt" by auto
  obtain n rt1 w1 where p: "store_pending (rt, w) = (n, rt1, w1)" by (metis surj_pair)
  have e1: "runtime_wf (rt1, w1)" "pipeline_frame (rt, w) (rt1, w1)"
    using store_pending_effect [OF assms(1)] p by simp_all
  let ?w = "w1\<lparr>w_steady_n := w_steady_n w1 + 1\<rparr>"
  obtain r ls w2 where rp: "retry_pending up (max_batch rt1) (rt_store rt1, ?w) = (r, ls, w2)" by (metis surj_pair)
  have wf: "store_wf (rt_store rt1, ?w)" using e1(1) by (simp add: runtime_wf_def)
  have "up_has_store up" using assms(1) u by (simp add: runtime_wf_def wf_members_def)
  then obtain k where k: "retry_spec up (take k (store_rows (rt_store rt1, ?w))) (rt_store rt1, ?w) r (ls, w2)"
    using retry_effect [OF wf _ rp] by blast
  have req: "batch_request up samples ?w \<noteq> None" for samples
    using assms(2) e1(2) by (simp add: batch_request_def pipeline_frame_def)
  obtain x where "r = Inr x"
    using k req [of "map snd (take k (store_rows (rt_store rt1, ?w)))"]
    by (auto simp: retry_spec_def split: if_splits option.splits)
  then show ?thesis using maybe_retry_eq [OF u, of w] p rp
    by (cases "x = KAccepted") (simp_all add: after_retry_cases)
qed

lemma ex_backoff_wf: "runtime_wf ex_backoff"
proof -
  have "rt_uploader (fst ex_polled) \<noteq> None" using ex_polled_state by (metis option.distinct(1))
  then show ?thesis using ex_polled_wf
    by (auto simp: ex_backoff_def runtime_wf_def wf_members_def split: option.splits)
qed

theorem retry_waits_out_backoff_witness:
  "\<exists>rt w. maybe_retry ex_backoff = Done (rt, w) \<and> w_posts w = [] \<and> rt_retry_attempt rt = 3"
proof -
  have wf: "runtime_wf (fst ex_backoff, snd ex_backoff)" using ex_backoff_wf by simp
  have "\<forall>j. w_dump (snd ex_backoff) j \<noteq> None"
    using ex_polled_net by (simp add: same_net_def ex_backoff_def ex_down_def ex_world_def)
  from maybe_retry_done [OF wf this] obtain rt w where
    m: "maybe_retry (fst ex_backoff, snd ex_backoff) = Done (rt, w)" by auto
  have c: "w_posts (snd ex_backoff) = []" "rt_retry_attempt (fst ex_backoff) = 3"
    "w_steady (snd ex_backoff) (w_steady_n (snd ex_backoff)) < rt_next_retry_at (fst ex_backoff)"
    using ex_polled_state by (simp_all add: ex_backoff_def) metis+
  with retry_waits_out_backoff [OF wf m] m show ?thesis by auto
qed

end
