(* ===== verification/Liveness.thy ===== *)
theory Liveness
  imports Pipeline
begin

text \<open>
  The step of the pipeline as a whole: that it returns, that the next time to wake up is never in the
  past, and what happens without a server.
\<close>

section \<open>The parts of a step\<close>

lemma tick_busy:
  "rt_channels (fst s) \<noteq> [] \<Longrightarrow> tick s = (case poll_due s of None \<Rightarrow> None
     | Some s1 \<Rightarrow> Some (case maybe_flush s1 of Raised e s2 \<Rightarrow> Raised e s2 | Done s2 \<Rightarrow> maybe_retry s2))"
  by (simp add: tick_def)

lemma tick_SomeE:
  assumes "tick s = Some (Done s')" "rt_channels (fst s) \<noteq> []"
  obtains s1 s2 where "poll_due s = Some s1" "maybe_flush s1 = Done s2" "maybe_retry s2 = Done s'"
  using assms by (auto simp: tick_busy split: option.splits step_result.splits)

lemma poll_due_returns:
  assumes "wf_scheduler (rt_scheduler rt)"
  shows "\<exists>s1. poll_due (rt, w) = Some s1"
proof -
  have "dispatch_due (Some poll_channel) t (rt_scheduler rt) st \<noteq> None" for t st
    using dispatch_due_eq [OF assms, of poll_channel t st] by simp
  then show ?thesis unfolding poll_due_def by (auto simp: case_prod_beta split: option.split)
qed

lemma poll_due_world:
  assumes "runtime_wf (rt, w)" "poll_due (rt, w) = Some (rt1, w1)"
  shows "runtime_wf (rt1, w1)" "poll_world w w1" "rt_uploader rt1 = rt_uploader rt"
    "rt_store rt1 = rt_store rt" "rt_store_open rt1 = rt_store_open rt" "rt_retry_attempt rt1 = rt_retry_attempt rt"
    "w_dump w1 = w_dump w" "rt_config rt1 = rt_config rt"
proof -
  from poll_due_effect [OF assms] obtain q rt2 where
    e: "runtime_wf (rt1, w1)" "polled (rt, w) (rt2, w1)" "rt1 = rt2\<lparr>rt_scheduler := q\<rparr>" by (metis prod.inject)
  then show "runtime_wf (rt1, w1)" "poll_world w w1" "rt_uploader rt1 = rt_uploader rt"
    "rt_store rt1 = rt_store rt" "rt_store_open rt1 = rt_store_open rt" "rt_retry_attempt rt1 = rt_retry_attempt rt"
    "w_dump w1 = w_dump w" "rt_config rt1 = rt_config rt"
    by (auto simp: polled_def poll_world_def)
qed

lemma store_pending_world:
  assumes "runtime_wf (rt, w)" "store_pending (rt, w) = (n, rt', w')"
  shows "runtime_wf (rt', w') \<and> w_steady w' = w_steady w \<and> w_steady_n w' = w_steady_n w \<and>
         w_posts w' = w_posts w \<and> (\<exists>ls. rt' = rt\<lparr>rt_store := ls\<rparr>)"
proof -
  obtain ls where p: "pending_count (rt_store rt, w) = (n, ls, w')" "rt' = rt\<lparr>rt_store := ls\<rparr>"
    using assms(2) by (auto simp: store_pending_def split: prod.splits)
  have wf: "store_wf (rt_store rt, w)" using assms(1) by (simp add: runtime_wf_def)
  have "same_net w w'" "w_steady_n w' = w_steady_n w"
    using pending_count_file [OF wf] store_clock(4) [of "(rt_store rt, w)"] p(1) by simp_all
  then show ?thesis using store_pending_effect [OF assms(1)] assms(2) p(2) by (auto simp: same_net_def)
qed

lemma tick_completes:
  assumes "runtime_wf (rt, w)" "wf_scheduler (rt_scheduler rt)" "\<forall>j. w_dump w j \<noteq> None"
  shows "\<exists>rt' w'. tick (rt, w) = Some (Done (rt', w')) \<and> runtime_wf (rt', w') \<and> wf_scheduler (rt_scheduler rt')"
proof (cases "rt_channels rt = []")
  case True
  then show ?thesis using assms by (simp add: tick_def)
next
  case False
  obtain rt1 w1 where p: "poll_due (rt, w) = Some (rt1, w1)"
    using poll_due_returns [OF assms(2), of w] by (metis surj_pair)
  have d1: "\<forall>j. w_dump w1 j \<noteq> None" using assms(3) poll_due_world(7) [OF assms(1) p] by simp
  obtain rt2 w2 where f: "maybe_flush (rt1, w1) = Done (rt2, w2)"
    using maybe_flush_done [OF poll_due_world(1) [OF assms(1) p] d1] by (metis surj_pair)
  have e2: "runtime_wf (rt2, w2)" "pipeline_frame (rt1, w1) (rt2, w2)"
    using maybe_flush_effect [OF poll_due_world(1) [OF assms(1) p]] f by simp_all
  have "\<forall>j. w_dump w2 j \<noteq> None" using d1 e2(2) by (simp add: pipeline_frame_def)
  from maybe_retry_done [OF e2(1) this] obtain rt3 w3 where r: "maybe_retry (rt2, w2) = Done (rt3, w3)"
    by (metis surj_pair)
  have e3: "runtime_wf (rt3, w3)" "pipeline_frame (rt2, w2) (rt3, w3)"
    using maybe_retry_effect [OF e2(1)] r by simp_all
  have "wf_scheduler (rt_scheduler rt3)"
    using tick_schedule [OF assms(1,2) p] e2(2) e3(2) by (simp add: pipeline_frame_def)
  then show ?thesis using False p f r e3(1) by (simp add: tick_busy)
qed

lemma tick_frame:
  assumes "runtime_wf (rt, w)" "wf_scheduler (rt_scheduler rt)" "tick (rt, w) = Some (Done (rt', w'))"
  shows "wf_scheduler (rt_scheduler rt')" "rt_config rt' = rt_config rt" "rt_uploader rt' = rt_uploader rt"
    "rt_store_open rt' = rt_store_open rt" "w_sqlite w' = w_sqlite w" "w_dump w' = w_dump w"
proof -
  have "wf_scheduler (rt_scheduler rt') \<and> rt_config rt' = rt_config rt \<and> rt_uploader rt' = rt_uploader rt \<and>
    rt_store_open rt' = rt_store_open rt \<and> w_sqlite w' = w_sqlite w \<and> w_dump w' = w_dump w"
  proof (cases "rt_channels rt = []")
    case True
    then show ?thesis using assms by (simp add: tick_def)
  next
    case False
    then obtain rt1 w1 rt2 w2 where st: "poll_due (rt, w) = Some (rt1, w1)" "maybe_flush (rt1, w1) = Done (rt2, w2)"
        "maybe_retry (rt2, w2) = Done (rt', w')"
      using tick_SomeE [OF assms(3)] by (metis fst_conv surj_pair)
    note e1 = poll_due_world [OF assms(1) st(1)]
    have e2: "runtime_wf (rt2, w2)" "pipeline_frame (rt1, w1) (rt2, w2)"
      using maybe_flush_effect [OF e1(1)] st(2) by simp_all
    have "pipeline_frame (rt2, w2) (rt', w')" using maybe_retry_effect [OF e2(1)] st(3) by simp
    then show ?thesis
      using e1 e2(2) tick_schedule [OF assms(1,2) st(1)] poll_world_store(5) [OF e1(2)] by (simp add: pipeline_frame_def)
  qed
  then show "wf_scheduler (rt_scheduler rt')" "rt_config rt' = rt_config rt" "rt_uploader rt' = rt_uploader rt"
    "rt_store_open rt' = rt_store_open rt" "w_sqlite w' = w_sqlite w" "w_dump w' = w_dump w" by simp_all
qed

lemma ex_runtime_schedule: "wf_scheduler (rt_scheduler (fst ex_runtime))"
  using ex_runtime_state by (simp add: wf_scheduler_def list.pred_set)

lemma ex_runtime_net: "same_net ex_down (snd ex_runtime)"
  using runtime_configure_net [OF ex_new_wf ex_configured] by simp

lemma ex_runtime_dump: "\<forall>j. w_dump (snd ex_runtime) j \<noteq> None"
  using ex_runtime_net by (simp add: same_net_def ex_down_def ex_world_def)

lemma wake_after_dispatch:
  assumes "runtime_wf (rt, w)" "wf_scheduler (rt_scheduler rt)" "rt_channels rt \<noteq> []"
    and "mono_clock w" "count_works (w_sqlite w)"
    and "tick (rt, w) = Some (Done (rt', w'))" "next_wake (rt', w') = (Some t, s)"
  shows "w_steady w (w_steady_n w) < t"
proof -
  let ?now = "w_steady w (w_steady_n w)"
  obtain rt1 w1 rt2 w2 where st: "poll_due (rt, w) = Some (rt1, w1)" "maybe_flush (rt1, w1) = Done (rt2, w2)"
      "maybe_retry (rt2, w2) = Done (rt', w')"
    using tick_SomeE [OF assms(6)] assms(3) by (metis fst_conv surj_pair)
  note e1 = poll_due_world [OF assms(1) st(1)]
  have e2: "runtime_wf (rt2, w2)" "pipeline_frame (rt1, w1) (rt2, w2)"
    using maybe_flush_effect [OF e1(1)] st(2) by simp_all
  have e3: "runtime_wf (rt', w')" "pipeline_frame (rt2, w2) (rt', w')"
    using maybe_retry_effect [OF e2(1)] st(3) by simp_all
  have w2: "w_steady w2 = w_steady w" "w_steady_n w \<le> w_steady_n w2" "w_sqlite w2 = w_sqlite w"
    using e2(2) poll_world_store(4,5,7) [OF e1(2)] by (simp_all add: pipeline_frame_def)
  have "?now \<le> w_steady w2 (w_steady_n w2)"
    using mono_clock_later [OF assms(4) w2(2)] w2(1) by simp
  moreover have "mono_clock w2" "count_works (w_sqlite w2)" using assms(4,5) w2 by (simp_all add: mono_clock_def)
  ultimately have waits: "retry_waits ?now (rt', w')" using maybe_retry_waits [OF e2(1) st(3)] by blast
  have sched: "\<forall>t. next_deadline (rt_scheduler rt') = Some t \<longrightarrow> ?now < t"
    using tick_schedule [OF assms(1,2) st(1)] e2(2) e3(2) by (simp add: pipeline_frame_def)
  obtain n rt4 w4 where p: "store_pending (rt', w') = (n, rt4, w4)" by (metis surj_pair)
  obtain ls where ls: "pending_count (rt_store rt', w') = (n, ls, w4)" "rt4 = rt'\<lparr>rt_store := ls\<rparr>"
    using p by (auto simp: store_pending_def split: prod.splits)
  have rows: "store_rows (rt_store rt', w') \<noteq> []" if "rt_store_open rt'" "0 < n"
  proof -
    have "store_wf (rt_store rt', w')" "ls_db (rt_store rt') \<noteq> None"
      using e3(1) that(1) by (simp_all add: runtime_wf_def wf_members_def)
    moreover have "count_works (w_sqlite w')" using assms(5) w2(3) e3(2) by (simp add: pipeline_frame_def)
    ultimately show ?thesis using pending_count_works [of "(rt_store rt', w')"] ls(1) that(2) by auto
  qed
  have retry: "?now < rt_next_retry_at rt'" if "rt_store_open rt'" "0 < n" "0 < rt_retry_attempt rt'"
    using waits rows that by (simp add: retry_waits_def)
  have "Some t = (if rt_store_open rt' \<and> 0 < n \<and> 0 < rt_retry_attempt rt'
      then (case next_deadline (rt_scheduler rt') of
              None \<Rightarrow> Some (rt_next_retry_at rt')
            | Some d \<Rightarrow> Some (if rt_next_retry_at rt' < d then rt_next_retry_at rt' else d))
      else next_deadline (rt_scheduler rt'))"
    using assms(7) p ls(2) by (cases "rt_store_open rt'") (simp_all add: next_wake_def Let_def split: if_splits option.splits)
  then show ?thesis using sched retry by (auto split: if_splits option.splits)
qed

text \<open>
  The service never spins on a step that succeeded. When the clock does not go back and the row
  count of the store can be queried, every time that \<open>next_wake\<close> announces after \<open>tick\<close> is later than
  the time at which that \<open>tick\<close> looked at the schedule: every deadline up to then has been served and
  no retry is due.
\<close>

theorem wake_is_in_the_future:
  assumes "runtime_wf (rt, w)" "wf_scheduler (rt_scheduler rt)" "rt_channels rt \<noteq> []"
    and "mono_clock w" "count_works (w_sqlite w)"
    and "tick (rt, w) = Some (Done (rt', w'))" "next_wake (rt', w') = (Some t, s)"
  shows "w_steady w (w_steady_n w) < t"
  using wake_after_dispatch [OF assms] .

theorem wake_is_in_the_future_witness:
  "\<exists>rt w. tick ex_runtime = Some (Done (rt, w)) \<and>
     (\<forall>t s. next_wake (rt, w) = (Some t, s) \<longrightarrow> w_steady (snd ex_runtime) (w_steady_n (snd ex_runtime)) < t)"
proof -
  obtain rt w where t: "tick (fst ex_runtime, snd ex_runtime) = Some (Done (rt, w))"
    using tick_completes [of "fst ex_runtime" "snd ex_runtime"] ex_runtime_wf ex_runtime_schedule ex_runtime_dump by auto
  have c: "mono_clock (snd ex_runtime)" "count_works (w_sqlite (snd ex_runtime))"
    using ex_runtime_net ex_mono ex_count_works by (simp_all add: same_net_def mono_clock_def)
  have "rt_channels (fst ex_runtime) \<noteq> []" using ex_runtime_state by simp
  then show ?thesis
    using wake_is_in_the_future [OF _ ex_runtime_schedule _ c t] ex_runtime_wf t by auto
qed

text \<open>
  Without a server address nothing leaves the buffer. An empty \<open>server.url\<close> leaves the pipeline
  without an uploader, and then a step only polls: nothing is sent, nothing is written to the offline
  store although one may be configured, and no sample leaves the buffer other than by eviction.
\<close>

theorem no_url_keeps_everything_in_memory:
  assumes "runtime_wf (rt, w)" "rt_uploader rt = None" "tick (rt, w) = Some res"
  shows "\<exists>rt' w'. res = Done (rt', w') \<and> rt_uploader rt' = None \<and> w_posts w' = w_posts w \<and> w_disk w' = w_disk w \<and>
    rt_store rt' = rt_store rt \<and>
    (\<exists>ids. rt_buffer rt' = rt_buffer (fst (fold poll_channel ids (rt, snd (steady_now w)))))"
proof (cases "rt_channels rt = []")
  case True
  then show ?thesis using assms by (auto simp: tick_def intro!: exI [of _ "[]"])
next
  case False
  then obtain rt1 w1 where p: "poll_due (rt, w) = Some (rt1, w1)"
    using assms(3) by (auto simp: tick_busy split: option.splits)
  note e = poll_due_world [OF assms(1) p]
  obtain q ids rt2 where i: "(rt2, w1) = fold poll_channel ids (rt, snd (steady_now w))" "rt1 = rt2\<lparr>rt_scheduler := q\<rparr>"
    using poll_due_effect [OF assms(1) p] by auto
  have "res = Done (rt1, w1)"
    using assms(2,3) False p e(3) by (simp add: tick_busy maybe_flush_def maybe_retry_def)
  moreover have "rt_buffer rt1 = rt_buffer (fst (fold poll_channel ids (rt, snd (steady_now w))))"
    unfolding i(1) [symmetric] using i(2) by simp
  ultimately show ?thesis using e(3,4) assms(2) poll_world_store(3,8) [OF e(2)]
    by (intro exI [of _ rt1] exI [of _ w1] conjI exI [of _ ids]) simp_all
qed

theorem no_url_keeps_everything_in_memory_witness:
  "\<exists>rt w. tick ex_no_url = Some (Done (rt, w)) \<and> w_posts w = []"
proof -
  have c: "rt_retry_attempt (fst ex_runtime) = 0" "w_posts (snd ex_runtime) = []"
    using ex_runtime_state by simp_all
  have wf: "runtime_wf (fst ex_no_url, snd ex_no_url)"
    using ex_runtime_wf c by (auto simp: ex_no_url_def runtime_wf_def wf_members_def split: option.splits)
  have "wf_scheduler (rt_scheduler (fst ex_no_url))" "\<forall>j. w_dump (snd ex_no_url) j \<noteq> None"
    using ex_runtime_schedule ex_runtime_dump by (simp_all add: ex_no_url_def)
  with wf obtain res where t: "tick (fst ex_no_url, snd ex_no_url) = Some res" using tick_completes by blast
  from no_url_keeps_everything_in_memory [OF wf _ t] show ?thesis using t c by (auto simp: ex_no_url_def)
qed

end
