(* ===== verification/Recovery.thy ===== *)
theory Recovery
  imports Liveness
begin

text \<open>
  An outage from its first failed upload to the first retry that succeeds, through flushing, the offline
  store and retrying: what the server gets in the end is what it would have got without the store. And what
  happens when there is no such retry: a batch the server keeps refusing holds up everything behind it.
\<close>

section \<open>A store that works\<close>

definition select_works :: "sqlite \<Rightarrow> bool" where
  \<comment> \<open>the query for the oldest rows runs to its end\<close>
  "select_works e \<longleftrightarrow> (\<forall>n db limit d. d db \<noteq> None \<longrightarrow>
     (\<exists>rows. fst (sq_run e n db select_sql [BindInt64 (int limit)] d) = Stepped rows None))"

definition delete_works :: "sqlite \<Rightarrow> bool" where
  "delete_works e \<longleftrightarrow> (\<forall>n db i d. d db \<noteq> None \<longrightarrow> fst (sq_run e n db delete_sql [BindInt64 i] d) = Stepped [] None)"

definition store_works :: "sqlite \<Rightarrow> bool" where
  "store_works e \<longleftrightarrow> insert_works e \<and> select_works e \<and> delete_works e \<and> count_works e"

lemma ref_store_works: "store_works (ref_sqlite (\<lambda>_. None))"
proof -
  have "select_works (ref_sqlite (\<lambda>_. None))" "delete_works (ref_sqlite (\<lambda>_. None))" "count_works (ref_sqlite (\<lambda>_. None))"
    by (auto simp: select_works_def delete_works_def count_works_def ref_sqlite_def ref_run_def differ)
  then show ?thesis using ref_insert_works by (simp add: store_works_def)
qed

lemma peek_batch_works:
  assumes "store_wf s" "ls_db (fst s) \<noteq> None" "select_works (w_sqlite (snd s))" "0 < n" "peek_batch n s = (rows, s')"
  shows "map (\<lambda>r. (pr_id r, pr_sample r)) rows = take n (store_rows s)"
proof -
  obtain ls w where s: "s = (ls, w)" by fastforce
  obtain db where db: "ls_db ls = Some db" using assms(2) s by auto
  obtain t where t: "w_disk w db = Some t" using assms(1) s db by (auto simp: store_wf.simps)
  have laws: "sqlite_laws (w_sqlite w)" and wf: "wf_table t" using assms(1) s t by (auto simp: store_wf.simps ranI)
  obtain result w1 where run: "sql_run db select_sql [BindInt64 (int n)] w = (result, w1)" by fastforce
  have "w_disk w db \<noteq> None" using t by simp
  then have "\<exists>cs. fst (sq_run (w_sqlite w) (w_sql_n w) db select_sql [BindInt64 (int n)] (w_disk w)) = Stepped cs None"
    using assms(3) s unfolding select_works_def by simp
  then obtain cs where cs: "result = Stepped cs None"
    using run by (auto simp: sql_run_def split: prod.splits)
  then have "list_all2 reads_as cs (take n (tb_rows t))" using sql_select_cases [OF run laws t wf] by auto
  moreover have "rows = map decode_row cs" using assms(4,5) s db run cs by (simp add: peek_batch_def)
  ultimately show ?thesis using s db t decode_rows_read
    by (simp add: store_rows_def take_map comp_def)
qed

lemma acknowledge_works:
  assumes "store_wf s" "ls_db (fst s) \<noteq> None" "delete_works (w_sqlite (snd s))"
  shows "fst (acknowledge i s)"
proof -
  obtain ls w where s: "s = (ls, w)" by fastforce
  obtain db where db: "ls_db ls = Some db" using assms(2) s by auto
  have "w_disk w db \<noteq> None" using assms(1) s db by (auto simp: store_wf.simps)
  then have "fst (sql_run db delete_sql [BindInt64 i] w) = Stepped [] None"
    using assms(3) s by (simp add: delete_works_def sql_run_def case_prod_beta)
  then show ?thesis using s db by (auto simp: acknowledge_def split: prod.splits)
qed

lemma acknowledge_all_works:
  assumes "store_wf s" "ls_db (fst s) \<noteq> None" "delete_works (w_sqlite (snd s))"
  shows "store_rows (ack_all acknowledge ids s) = filter (\<lambda>r. fst r \<notin> set ids) (store_rows s)"
proof (rule store.ack_all_ok [where Q = "\<lambda>s. ls_db (fst s) \<noteq> None \<and> delete_works (w_sqlite (snd s))"])
  fix i s
  assume "store_wf s" and q: "ls_db (fst s) \<noteq> None \<and> delete_works (w_sqlite (snd s))"
  then show "fst (acknowledge i s) \<and> ls_db (fst (snd (acknowledge i s))) \<noteq> None \<and>
      delete_works (w_sqlite (snd (snd (acknowledge i s))))"
    using acknowledge_works [of s i] store_op_frame(2) [of s i] by (simp add: upload_frame_def)
qed (use assms in simp_all)

lemma distinct_store_rows: "store_wf s \<Longrightarrow> distinct (map fst (store_rows s))"
  using wf_store_table [of s]
  by (simp add: store_rows_def wf_table_def comp_def strict_sorted_iff)

lemma filter_gone:
  assumes "distinct (map f xs)" "gone \<subseteq> f ` set (take n xs)"
  shows "filter (\<lambda>x. f x \<notin> gone) xs = filter (\<lambda>x. f x \<notin> gone) (take n xs) @ drop n xs"
proof -
  have d: "distinct (map f (take n xs @ drop n xs))" using assms(1) by simp
  then have "f x \<notin> gone" if "x \<in> set (drop n xs)" for x
    using that assms(2) unfolding map_append distinct_append by auto
  then have "filter (\<lambda>x. f x \<notin> gone) (take n xs @ drop n xs) = filter (\<lambda>x. f x \<notin> gone) (take n xs) @ drop n xs"
    by (simp only: filter_append) (simp add: filter_True)
  then show ?thesis by simp
qed

lemma filter_not_taken:
  "distinct (map f xs) \<Longrightarrow> filter (\<lambda>x. f x \<notin> f ` set (take n xs)) xs = drop n xs"
  using filter_gone [of f xs "f ` set (take n xs)" n] by (simp add: filter_False)

section \<open>A retry that is refused\<close>

definition carries :: "http_uploader \<Rightarrow> (json \<Rightarrow> string option) \<Rightarrow> stored_sample list \<Rightarrow> http_request \<Rightarrow> bool" where
  \<comment> \<open>the request with the payload of these samples, built at some time\<close>
  "carries u dump samples q \<longleftrightarrow>
     (\<exists>now. map_option (upload_request u) (dump (payload_json (up_node_id u) now samples)) = Some q)"

lemma refused_retry:
  assumes "store_wf s" "ls_db (fst s) \<noteq> None" "up_has_store u" "select_works (w_sqlite (snd s))" "\<forall>j. w_dump (snd s) j \<noteq> None"
    and "0 < n" "store_rows s \<noteq> []"
  defines "batch \<equiv> map snd (take n (store_rows s))" and "s' \<equiv> snd (retry_pending u n s)"
  assumes refused: "\<forall>q. w_posts (snd s') = w_posts (snd s) @ [q] \<and> carries u (w_dump (snd s)) batch q \<longrightarrow>
      next_reply (snd s) \<noteq> KAccepted"
  shows "store_wf s' \<and> store_rows s' = store_rows s \<and> upload_frame s s' \<and>
    (\<exists>q. w_posts (snd s') = w_posts (snd s) @ [q] \<and> carries u (w_dump (snd s)) batch q)"
proof -
  obtain r where r: "retry_pending u n s = (r, s')" by (simp add: s'_def prod_eq_iff)
  obtain rows s1 where pk: "peek_batch n s = (rows, s1)" by (metis surj_pair)
  have take: "map (\<lambda>r. (pr_id r, pr_sample r)) rows = take n (store_rows s)"
    using peek_batch_works [OF assms(1,2,4,6) pk] .
  have e: "store_wf s'" "retry_spec u (take n (store_rows s)) s r s'"
    using retry_effect_peeked [OF assms(1,3) r pk] by (simp_all add: take)
  obtain q where q: "batch_request u batch (snd s) = Some q" using batch_request_total [OF assms(5)] by blast
  have posted: "w_posts (snd s') = w_posts (snd s) @ [q]"
    using e(2) q assms(6,7) by (simp add: retry_spec_def batch_def)
  have "carries u (w_dump (snd s)) batch q" using q by (auto simp: carries_def batch_request_def)
  with posted refused have "next_reply (snd s) \<noteq> KAccepted" by blast
  then have "store_rows s' = store_rows s" using e(2) q assms(6,7) by (simp add: retry_spec_def batch_def)
  with e(1) posted \<open>carries u (w_dump (snd s)) batch q\<close> retry_keeps_frame [OF assms(1) r] show ?thesis by blast
qed

section \<open>A retry that succeeds\<close>

lemma retry_delivers:
  assumes "store_wf s" "ls_db (fst s) \<noteq> None" "up_has_store u" "store_works (w_sqlite (snd s))"
    and "0 < n" "store_rows s \<noteq> []" "next_reply (snd s) = KAccepted"
    and "batch_request u (map snd (take n (store_rows s))) (snd s) = Some q" "retry_pending u n s = (r, s')"
  shows "r = Inr KAccepted \<and> w_posts (snd s') = w_posts (snd s) @ [q] \<and> store_rows s' = drop n (store_rows s)"
proof -
  obtain rows ls w where pk: "peek_batch n s = (rows, ls, w)" by (metis surj_pair)
  have works: "select_works (w_sqlite (snd s))" "delete_works (w_sqlite (snd s))"
    using assms(4) by (simp_all add: store_works_def)
  have take: "map (\<lambda>r. (pr_id r, pr_sample r)) rows = take n (store_rows s)"
    using peek_batch_works [OF assms(1,2) works(1) assms(5) pk] .
  have rows: "map pr_sample rows = map snd (take n (store_rows s))"
    "set (map pr_id rows) = fst ` set (take n (store_rows s))"
    unfolding take [symmetric] by (force simp: comp_def)+
  have "take n (store_rows s) \<noteq> []" using assms(5,6) by simp
  then have ne: "rows \<noteq> []" unfolding take [symmetric] by simp
  have wf: "store_wf (ls, w)" "store_rows (ls, w) = store_rows s" using peek_batch_rows [OF assms(1) pk] by simp_all
  have frame: "same_net (snd s) w" "w_system_n w = w_system_n (snd s)" "ls_db ls = ls_db (fst s)"
    using peek_batch_file [OF assms(1), of n] peek_batch_clock [of n s] pk by (cases s; simp)+
  have eqs: "batch_request u (map pr_sample rows) w = Some q" "next_reply w = KAccepted" "w_posts w = w_posts (snd s)"
      "w_sqlite w = w_sqlite (snd s)"
    using frame(1,2) batch_request_cong [of w "snd s"] assms(7,8) rows(1) by (auto simp: same_net_def next_reply_def)
  obtain pl w1 where b: "build_payload u (map pr_sample rows) w = (pl, w1)" by fastforce
  note b' = build_payload_world [OF b]
  obtain body where body: "pl = Inr body" "q = upload_request u body"
    using b' eqs(1) by (auto simp: batch_request_def split: option.splits)
  obtain resp w2 where h: "http_post q w1 = (resp, w2)" by fastforce
  note h' = http_post_world [OF h]
  have reply: "interpret_response resp = KAccepted" using h' b' eqs(2) by (simp add: next_reply_def)
  have s2: "store_wf (ls, w2)" "store_rows (ls, w2) = store_rows s"
    using store_unchanged [of w2 w ls] h' b' wf by simp_all
  let ?ack = "ack_all acknowledge (map pr_id rows) (ls, w2)"
  have "store_rows ?ack = filter (\<lambda>row. fst row \<notin> set (map pr_id rows)) (store_rows (ls, w2))"
    using acknowledge_all_works [OF s2(1), of "map pr_id rows"] assms(2) works(2) frame(3) h' b' eqs(4) by simp
  then have "store_rows ?ack = drop n (store_rows s)"
    using filter_not_taken [OF distinct_store_rows [OF assms(1)], of n] s2(2) rows(2) by simp
  moreover have "w_posts (snd ?ack) = w_posts w @ [q]"
    using acknowledge_all_file [OF s2(1), of "map pr_id rows"] h' b' by (simp add: same_file_def same_net_def)
  moreover have "r = Inr KAccepted" "s' = ?ack"
    using assms(3,9) pk ne b body h reply by (auto simp: retry_pending_def Let_def)
  ultimately show ?thesis using eqs(3) by simp
qed

section \<open>From the failure to the recovery\<close>

lemma pending_count_clock: "w_system_n (snd (snd (pending_count s))) = w_system_n (snd s)"
proof -
  obtain ls w where s: "s = (ls, w)" by fastforce
  show ?thesis
    by (auto simp: s pending_count_def sql_run_def Let_def split: option.splits prod.splits sql_result.splits list.splits)
qed

lemma batch_request_saved:
  "\<forall>x \<in> set samples. wf_stored x \<Longrightarrow> batch_request u (map saved_sample samples) w = batch_request u samples w"
proof -
  assume "\<forall>x \<in> set samples. wf_stored x"
  then have "payload_json node t (map saved_sample samples) = payload_json node t samples" for node t
    by (simp add: payload_json_def sample_json_saved)
  then show ?thesis by (simp add: batch_request_def)
qed

lemma store_pending_works:
  assumes "runtime_wf (rt, w)" "rt_store_open rt" "count_works (w_sqlite w)" "store_pending (rt, w) = (n, rt', w')"
  shows "n = length (store_rows (rt_store rt, w)) \<and> runtime_wf (rt', w') \<and> same_net w w' \<and>
    w_steady_n w' = w_steady_n w \<and> w_system_n w' = w_system_n w \<and>
    store_rows (rt_store rt', w') = store_rows (rt_store rt, w) \<and> (\<exists>ls. rt' = rt\<lparr>rt_store := ls\<rparr>) \<and>
    ls_db (rt_store rt') = ls_db (rt_store rt)"
proof -
  obtain ls where p: "pending_count (rt_store rt, w) = (n, ls, w')" "rt' = rt\<lparr>rt_store := ls\<rparr>"
    using assms(4) by (auto simp: store_pending_def split: prod.splits)
  have wf: "store_wf (rt_store rt, w)" "ls_db (rt_store rt) \<noteq> None"
    using assms(1,2) by (simp_all add: runtime_wf_def wf_members_def)
  have "n = length (store_rows (rt_store rt, w))"
    using pending_count_works [OF wf(1)] wf(2) assms(3) p(1) by simp
  moreover have "same_net w w'" "ls_db ls = ls_db (rt_store rt)" using pending_count_file [OF wf(1)] p(1) by simp_all
  moreover have "w_system_n w' = w_system_n w" using pending_count_clock [of "(rt_store rt, w)"] p(1) by simp
  moreover have "store_rows (ls, w') = store_rows (rt_store rt, w)" using pending_count_wf(2) [OF wf(1)] p(1) by simp
  ultimately show ?thesis using store_pending_world [OF assms(1,4)] p(2) by auto
qed

lemma retry_after_outage:
  assumes "runtime_wf (rt, w)" "rt_uploader rt = Some up" "rt_store_open rt" "store_works (w_sqlite w)"
    and "store_rows (rt_store rt, w) \<noteq> []" "length (store_rows (rt_store rt, w)) \<le> max_batch rt"
    and "rt_next_retry_at rt \<le> w_steady w (w_steady_n w)" "next_reply w = KAccepted"
    and "batch_request up (map snd (store_rows (rt_store rt, w))) w = Some q" "maybe_retry (rt, w) = Done (rt', w')"
  shows "w_posts w' = w_posts w @ [q] \<and> store_rows (rt_store rt', w') = [] \<and> rt_retry_attempt rt' = 0 \<and>
    rt_accepted_upload_count rt' = rt_accepted_upload_count rt + 1"
proof -
  obtain n rt1 w1 where p: "store_pending (rt, w) = (n, rt1, w1)" by (metis surj_pair)
  have count: "count_works (w_sqlite w)" using assms(4) by (simp add: store_works_def)
  note e = store_pending_works [OF assms(1,3) count p]
  obtain ls where rt1: "rt1 = rt\<lparr>rt_store := ls\<rparr>" using e by blast
  let ?w = "w1\<lparr>w_steady_n := w_steady_n w1 + 1\<rparr>"
  have net: "w_posts w1 = w_posts w" "w_reply w1 = w_reply w" "w_steady w1 = w_steady w" "w_sqlite w1 = w_sqlite w"
    "w_dump w1 = w_dump w" "w_system w1 = w_system w"
    using e by (simp_all add: same_net_def)
  have rows: "store_rows (rt_store rt1, ?w) = store_rows (rt_store rt, w)" using e by simp
  have due: "retry_due (rt1, w1)" "n \<noteq> 0" using assms(5,7) e net rt1 by (simp_all add: retry_due_def)
  obtain r ls2 w2 where rp: "retry_pending up (max_batch rt1) (rt_store rt1, ?w) = (r, ls2, w2)" by (metis surj_pair)
  have db: "ls_db (rt_store rt1) \<noteq> None" "up_has_store up"
    using assms(1-3) e by (simp_all add: runtime_wf_def wf_members_def)
  have mb: "max_batch rt1 = max_batch rt" by (simp add: rt1 max_batch_def)
  have req: "batch_request up (map snd (take (max_batch rt1) (store_rows (rt_store rt1, ?w)))) ?w = Some q"
    using assms(6,9) rows mb batch_request_cong [of ?w w] net e by simp
  have reply: "next_reply ?w = KAccepted" using assms(8) net by (simp add: next_reply_def)
  have "r = Inr KAccepted \<and> w_posts w2 = w_posts ?w @ [q] \<and> store_rows (ls2, w2) = drop (max_batch rt1) (store_rows (rt_store rt1, ?w))"
    using retry_delivers [of "(rt_store rt1, ?w)" up "max_batch rt1" q r "(ls2, w2)"] max_batch_pos req rp e db
      assms(4,5) net(4) rows reply by (simp add: runtime_wf_def)
  then have "Done (rt', w') = after_retry (Inr KAccepted, rt1\<lparr>rt_store := ls2\<rparr>, w2)" "w_posts w2 = w_posts w @ [q]"
      "store_rows (ls2, w2) = []"
    using assms(6,10) maybe_retry_eq [OF assms(2,3), of w] p due rp rows mb net(1) by simp_all
  then show ?thesis using rt1 by (simp add: after_retry_cases(1) reset_backoff_after_success_def)
qed

text \<open>A tick against a server that is up again empties the store, whether it polls and flushes or not.\<close>

lemma accepting_tick_drains:
  assumes "runtime_wf (rt, w)" "wf_scheduler (rt_scheduler rt)" "rt_channels rt \<noteq> []" "rt_uploader rt = Some up"
    and "rt_store_open rt" "store_works (w_sqlite w)" "\<forall>j. w_dump w j \<noteq> None" "mono_clock w"
    and "0 \<le> w_steady w (w_steady_n w)" "rt_next_retry_at rt \<le> w_steady w (w_steady_n w)"
    and "\<forall>i. length (w_posts w) \<le> i \<longrightarrow> interpret_response (w_reply w i) = KAccepted"
    and "store_rows (rt_store rt, w) \<noteq> []" "length (store_rows (rt_store rt, w)) \<le> max_batch rt"
  obtains rt' w' where "tick (rt, w) = Some (Done (rt', w'))" "runtime_wf (rt', w')" "rt_store_open rt'"
    "store_rows (rt_store rt', w') = []" "w_sqlite w' = w_sqlite w" "length (w_posts w) < length (w_posts w')"
proof -
  obtain rt' w' where t: "tick (rt, w) = Some (Done (rt', w'))" and wf': "runtime_wf (rt', w')"
    using tick_completes [OF assms(1,2,7)] by blast
  obtain rt1 w1 rt2 w2 where st: "poll_due (rt, w) = Some (rt1, w1)" "maybe_flush (rt1, w1) = Done (rt2, w2)"
      "maybe_retry (rt2, w2) = Done (rt', w')"
    using tick_SomeE [OF t] assms(3) by (metis fst_conv surj_pair)
  note e1 = poll_due_world [OF assms(1) st(1)] and pw = poll_world_store [OF poll_due_world(2) [OF assms(1) st(1)]]
  obtain q rt0 where q: "polled (rt, w) (rt0, w1)" "rt1 = rt0\<lparr>rt_scheduler := q\<rparr>"
    using poll_due_effect [OF assms(1) st(1)] by (metis prod.inject)
  have 1: "rt_uploader rt1 = Some up" "rt_store_open rt1" "rt_next_retry_at rt1 = rt_next_retry_at rt"
      "store_rows (rt_store rt1, w1) = store_rows (rt_store rt, w)" "w_posts w1 = w_posts w" "w_reply w1 = w_reply w"
      "w_dump w1 = w_dump w" "w_sqlite w1 = w_sqlite w"
    using e1 pw assms(4,5) q by (auto simp: polled_def same_net_def)
  obtain rb where rb: "rt_buffer rt1 = Some rb" "wf_buffer rb"
    using e1(1) st(1) assms(1,3) q by (auto simp: runtime_wf_def wf_members_def polled_def split: option.splits)
  have f: "runtime_wf (rt2, w2)" "pipeline_frame (rt1, w1) (rt2, w2)"
    using maybe_flush_effect [OF e1(1)] st(2) by simp_all
  have reply: "next_reply w1 = KAccepted" using assms(11) 1(5,6) by (simp add: next_reply_def)
  have 2: "store_rows (rt_store rt2, w2) = store_rows (rt_store rt, w) \<and> length (w_posts w) \<le> length (w_posts w2) \<and>
      (rt_next_retry_at rt2 = rt_next_retry_at rt \<or> rt_next_retry_at rt2 = 0)"
  proof (cases "should_flush (w_steady w1 (w_steady_n w1)) (rb_size rb) (max_batch rt1) (rt_policy rt1)")
    case False
    then show ?thesis using maybe_flush_eq [OF 1(1) rb, of w1] st(2) 1(3-5) by auto
  next
    case True
    have "rt_next_retry_at rt2 = 0"
      by (rule flush_after_upload [OF e1(1) 1(1) rb(1) True st(2)])
         (auto simp: reply after_upload_cases reset_backoff_after_success_def)
    then show ?thesis using flush_outcome [OF e1(1) 1(1) rb(1) True st(2)] reply 1(4,5) by (auto simp: Let_def)
  qed
  have cfg: "max_batch rt2 = max_batch rt" "w_steady w2 = w_steady w" "w_steady_n w \<le> w_steady_n w2"
      "w_dump w2 = w_dump w" "w_reply w2 = w_reply w" "w_sqlite w2 = w_sqlite w" "rt_uploader rt2 = Some up" "rt_store_open rt2"
    using f(2) e1(8) pw(4,7) 1 by (simp_all add: pipeline_frame_def max_batch_def)
  have "w_steady w (w_steady_n w) \<le> w_steady w (w_steady_n w2)" using assms(8) cfg(3) by (simp add: mono_clock_def)
  then have late: "rt_next_retry_at rt2 \<le> w_steady w2 (w_steady_n w2)" using 2 assms(9,10) cfg(2) by auto
  have "next_reply w2 = KAccepted" using 2 assms(11) cfg(5) by (simp add: next_reply_def)
  moreover have "\<forall>j. w_dump w2 j \<noteq> None" using assms(7) cfg(4) by simp
  then obtain q where "batch_request up (map snd (store_rows (rt_store rt2, w2))) w2 = Some q"
    using batch_request_total by blast
  moreover have "store_works (w_sqlite w2)" "store_rows (rt_store rt2, w2) \<noteq> []"
      "length (store_rows (rt_store rt2, w2)) \<le> max_batch rt2"
    using assms(6,12,13) 2 cfg(1,6) by simp_all
  ultimately have d: "w_posts w' = w_posts w2 @ [q]" "store_rows (rt_store rt', w') = []"
    using retry_after_outage [OF f(1) cfg(7,8) _ _ _ late] st(3) by blast+
  then have posts: "length (w_posts w) < length (w_posts w')" using 2 by simp
  have open': "rt_store_open rt'" "w_sqlite w' = w_sqlite w" using tick_frame(4,5) [OF assms(1,2) t] assms(5) by simp_all
  show thesis by (rule that [OF t wf' open'(1) d(2) open'(2) posts])
qed

section \<open>Example\<close>

definition ex_blip :: runtime where
  \<comment> \<open>the example pipeline with a sample in its buffer and a server that is down for one request\<close>
  "ex_blip = (fst ex_polled, (snd ex_polled)\<lparr>w_reply :=
     (\<lambda>n. if n = 0 then \<lparr>hr_status_code = 0, hr_body = [], hr_error = ''timeout''\<rparr>
          else \<lparr>hr_status_code = 202, hr_body = [], hr_error = []\<rparr>)\<rparr>)"

section \<open>Properties\<close>

text \<open>
  C27: A batch the server refuses is sent again for ever and nothing behind it is sent: as long as no request
  with the oldest batch is accepted, whatever would become of other requests, \<open>k\<close> retries post \<open>k\<close> requests
  and each of them is that batch again, and the queue stays as it is. A batch that is refused with 400, which
  the specification drops, is no exception. The database works and the payload can be serialised.
\<close>

theorem rejected_batch_blocks_queue:
  assumes "store_wf s" "ls_db (fst s) \<noteq> None" "up_has_store u" "select_works (w_sqlite (snd s))" "\<forall>j. w_dump (snd s) j \<noteq> None"
    and "0 < n" "store_rows s \<noteq> []"
    and "t = (\<lambda>j. ((\<lambda>s. snd (retry_pending u n s)) ^^ j) s)" "batch = map snd (take n (store_rows s))"
    and "\<forall>j < k. \<forall>q. w_posts (snd (t (Suc j))) = w_posts (snd (t j)) @ [q] \<and> carries u (w_dump (snd s)) batch q \<longrightarrow>
           next_reply (snd (t j)) \<noteq> KAccepted"
  shows "store_rows (t k) = store_rows s \<and>
    (\<exists>qs. w_posts (snd (t k)) = w_posts (snd s) @ qs \<and> length qs = k \<and> (\<forall>q \<in> set qs. carries u (w_dump (snd s)) batch q))"
proof -
  have "store_wf (t k) \<and> store_rows (t k) = store_rows s \<and> upload_frame s (t k) \<and>
    (\<exists>qs. w_posts (snd (t k)) = w_posts (snd s) @ qs \<and> length qs = k \<and> (\<forall>q \<in> set qs. carries u (w_dump (snd s)) batch q))"
    using assms(10)
  proof (induction k)
    case 0
    then show ?case using assms(1,8) by simp
  next
    case (Suc k)
    then obtain qs where t: "store_wf (t k)" "store_rows (t k) = store_rows s" "upload_frame s (t k)"
        "w_posts (snd (t k)) = w_posts (snd s) @ qs" "length qs = k" "\<forall>q \<in> set qs. carries u (w_dump (snd s)) batch q" by auto
    have f: "ls_db (fst (t k)) \<noteq> None" "w_sqlite (snd (t k)) = w_sqlite (snd s)" "w_dump (snd (t k)) = w_dump (snd s)"
      using t(3) assms(2) by (simp_all add: upload_frame_def)
    have next_t: "t (Suc k) = snd (retry_pending u n (t k))" by (simp add: assms(8))
    have refused: "\<forall>q. w_posts (snd (snd (retry_pending u n (t k)))) = w_posts (snd (t k)) @ [q] \<and>
        carries u (w_dump (snd (t k))) (map snd (take n (store_rows (t k)))) q \<longrightarrow> next_reply (snd (t k)) \<noteq> KAccepted"
      using Suc.prems f(3) t(2) assms(9) unfolding next_t [symmetric] by (metis lessI)
    have sel: "select_works (w_sqlite (snd (t k)))" "\<forall>j. w_dump (snd (t k)) j \<noteq> None" and ne: "store_rows (t k) \<noteq> []"
      using assms(4,5,7) f(2,3) t(2) by simp_all
    have "store_wf (t (Suc k)) \<and> store_rows (t (Suc k)) = store_rows (t k) \<and> upload_frame (t k) (t (Suc k)) \<and>
        (\<exists>q. w_posts (snd (t (Suc k))) = w_posts (snd (t k)) @ [q] \<and> carries u (w_dump (snd s)) batch q)"
      using refused_retry [OF t(1) f(1) assms(3) sel assms(6) ne refused] f(3) t(2) assms(9) unfolding next_t by simp
    then obtain q where u: "store_wf (t (Suc k))" "store_rows (t (Suc k)) = store_rows s" "upload_frame (t k) (t (Suc k))"
        "w_posts (snd (t (Suc k))) = w_posts (snd s) @ qs @ [q]" "carries u (w_dump (snd s)) batch q" using t(2,4) by auto
    moreover have "upload_frame s (t (Suc k))" using t(3) u(3) by (simp add: upload_frame_def)
    ultimately show ?case using t(5,6) by (intro conjI exI [of _ "qs @ [q]"]) auto
  qed
  then show ?thesis by blast
qed

definition ex_blocked :: store_state where
  \<comment> \<open>two rows in the queue, a server that answers 400\<close>
  "ex_blocked = snd (store_enqueue ex_reading (snd (store_enqueue ex_reading
     (fst ex_store, (snd ex_store)\<lparr>w_reply := \<lambda>_. \<lparr>hr_status_code = 400, hr_body = [], hr_error = []\<rparr>\<rparr>))))"

theorem rejected_batch_blocks_queue_witness:
  "let t = ((\<lambda>s. snd (retry_pending ex_uploader 1 s)) ^^ 1000) ex_blocked
   in length (store_rows t) = 2 \<and> length (w_posts (snd t)) = 1000"
proof -
  let ?s = "(fst ex_store, (snd ex_store)\<lparr>w_reply := \<lambda>_. \<lparr>hr_status_code = 400, hr_body = [], hr_error = []\<rparr>\<rparr>)"
  have wf0: "store_wf ?s" by (rule store_wf_reply [OF ex_store_wf])
  note wf1 = store.put_invar [OF wf0, of ex_reading]
  have wf: "store_wf ex_blocked" unfolding ex_blocked_def by (rule store.put_invar [OF wf1])
  have net: "same_net (snd ?s) (snd ex_blocked)"
    using store_enqueue_file [OF wf0, of ex_reading] store_enqueue_file [OF wf1, of ex_reading] same_net_trans
    unfolding ex_blocked_def same_file_def by blast
  have store: "same_net ex_world (snd ex_store)"
    using open_store_disk [of ex_file local_store_new ex_world "fst (open_store ex_file (local_store_new, ex_world))"
        "fst ex_store" "snd ex_store"] by (simp add: ex_store_def)
  have w: "select_works (w_sqlite (snd ex_blocked))" "\<forall>j. w_dump (snd ex_blocked) j \<noteq> None"
    "w_reply (snd ex_blocked) = (\<lambda>_. \<lparr>hr_status_code = 400, hr_body = [], hr_error = []\<rparr>)" "w_posts (snd ex_blocked) = []"
    using net store ref_store_works by (auto simp: same_net_def store_works_def ex_world_def)
  have c: "ls_db (fst ex_blocked) \<noteq> None" "store_rows ex_blocked \<noteq> []" "length (store_rows ex_blocked) = 2"
    "up_has_store ex_uploader" by code_simp+
  have reply: "w_reply (snd (((\<lambda>s. snd (retry_pending ex_uploader 1 s)) ^^ j) ex_blocked)) = w_reply (snd ex_blocked) \<and>
      store_wf (((\<lambda>s. snd (retry_pending ex_uploader 1 s)) ^^ j) ex_blocked)" for j
  proof (induction j)
    case (Suc j)
    let ?t = "((\<lambda>s. snd (retry_pending ex_uploader 1 s)) ^^ j) ex_blocked"
    have "store_wf (snd (retry_pending ex_uploader 1 ?t))"
      using retry_effect [OF _ c(4) prod.collapse [symmetric], of ?t 1] Suc by simp
    then show ?case using Suc retry_keeps_frame [OF _ prod.collapse [symmetric], of ?t ex_uploader 1] by (simp add: upload_frame_def)
  qed (simp add: wf)
  from rejected_batch_blocks_queue [OF wf c(1,4) w(1,2) _ c(2) refl refl, of 1 1000] reply w(3,4) c(3)
  show ?thesis by (auto simp: next_reply_def interpret_response_def Let_def)
qed

text \<open>
  C3: An outage loses nothing. A batch whose upload failed, taken from a pipeline with an empty offline
  store, is delivered by the first retry after the announced time that the server accepts: that retry
  sends exactly the request an upload of the original batch would send at that moment, leaves the
  store empty, ends the backoff and counts one upload. The database has to work and no value
  may be NaN.
\<close>

theorem outage_loses_nothing:
  assumes "runtime_wf (rt, w)" "rt_uploader rt = Some up" "rt_store_open rt" "rt_buffer rt = Some rb"
    and "store_works (w_sqlite w)" "store_rows (rt_store rt, w) = []"
    and "\<forall>x \<in> set (take (max_batch rt) (contents rb)). ss_value x \<noteq> NaN" "\<forall>j. w_dump w j \<noteq> None"
    and "should_flush (w_steady w (w_steady_n w)) (rb_size rb) (max_batch rt) (rt_policy rt)"
    and "next_reply w = KTransientFailure" "maybe_flush (rt, w) = Done (rt1, w1)"
    and "w2 = w1\<lparr>w_steady_n := n\<rparr>" "rt_next_retry_at rt1 \<le> w_steady w1 n"
    and "next_reply w1 = KAccepted" "maybe_retry (rt1, w2) = Done (rt3, w3)"
  shows "\<exists>q. batch_request up (take (max_batch rt) (contents rb)) w1 = Some q \<and> w_posts w3 = w_posts w1 @ [q] \<and>
    store_rows (rt_store rt3, w3) = [] \<and> rt_retry_attempt rt3 = 0 \<and>
    rt_accepted_upload_count rt3 = rt_accepted_upload_count rt1 + 1"
proof -
  let ?batch = "take (max_batch rt) (contents rb)"
  have "insert_works (w_sqlite w)" using assms(5) by (simp add: store_works_def)
  then have rows: "map snd (store_rows (rt_store rt1, w1)) = map saved_sample ?batch" "?batch \<noteq> []"
    using flush_outcome [OF assms(1,2,4,9,11)] assms(3,6,7,10) by (simp_all add: Let_def)
  have f: "runtime_wf (rt1, w1)" "pipeline_frame (rt, w) (rt1, w1)"
    using maybe_flush_effect [OF assms(1)] assms(11) by simp_all
  have mb: "max_batch rt1 = max_batch rt" using f(2) by (simp add: pipeline_frame_def max_batch_def)
  have len: "length (store_rows (rt_store rt1, w1)) \<le> max_batch rt1"
    using arg_cong [OF rows(1), of length] mb by simp
  have "wf_buffer rb" using assms(1,4) by (simp add: runtime_wf_def wf_members_def)
  then have wfs: "\<forall>x \<in> set ?batch. wf_stored x" by (meson in_set_takeD wf_buffer_def)
  have "batch_request up ?batch w1 \<noteq> None" using assms(8) f(2) by (simp add: batch_request_def pipeline_frame_def)
  then obtain q where q: "batch_request up ?batch w1 = Some q" by blast
  have req: "batch_request up (map snd (store_rows (rt_store rt1, w2))) w2 = Some q"
    using q rows(1) batch_request_saved [OF wfs, of up w1] batch_request_cong [of w2 w1] assms(12) by simp
  have ne: "store_rows (rt_store rt1, w2) \<noteq> []" using rows assms(12) by auto
  have "runtime_wf (rt1, w2)" "rt_uploader rt1 = Some up" "rt_store_open rt1" "store_works (w_sqlite w2)"
      "length (store_rows (rt_store rt1, w2)) \<le> max_batch rt1" "rt_next_retry_at rt1 \<le> w_steady w2 (w_steady_n w2)"
      "next_reply w2 = KAccepted" "w_posts w2 = w_posts w1"
    using f assms(2,3,5,12-14) len by (simp_all add: pipeline_frame_def next_reply_def)
  from retry_after_outage [OF this(1-4) ne this(5-7) req assms(15)] this(8) q show ?thesis by simp
qed

lemma ex_blip_wf: "runtime_wf ex_blip"
  using ex_polled_wf by (simp add: ex_blip_def runtime_wf_def store_wf_reply)

lemma ex_blip_net: "\<forall>j. w_dump (snd ex_blip) j \<noteq> None" "w_sqlite (snd ex_blip) = ref_sqlite (\<lambda>_. None)"
  "w_steady (snd ex_blip) = (\<lambda>n. int n * 1000000000)"
  using ex_polled_net by (simp_all add: same_net_def ex_blip_def ex_down_def ex_world_def)

theorem outage_loses_nothing_witness:
  "\<exists>rt1 w1 n rt3 w3. maybe_flush ex_blip = Done (rt1, w1) \<and>
     maybe_retry (rt1, w1\<lparr>w_steady_n := n\<rparr>) = Done (rt3, w3) \<and>
     length (w_posts w3) = 2 \<and> store_rows (rt_store rt3, w3) = []"
proof -
  obtain up rb where "rt_uploader (fst ex_polled) = Some up" "rt_buffer (fst ex_polled) = Some rb"
      "should_flush (w_steady (snd ex_polled) (w_steady_n (snd ex_polled))) (rb_size rb) (max_batch (fst ex_polled))
         (rt_policy (fst ex_polled))" "\<forall>x \<in> set (contents rb). ss_value x \<noteq> NaN" "rt_store_open (fst ex_polled)"
      "store_rows (rt_store (fst ex_polled), snd ex_polled) = []" "w_posts (snd ex_polled) = []"
    using ex_polled_state by metis
  then have e: "rt_uploader (fst ex_blip) = Some up" "rt_buffer (fst ex_blip) = Some rb"
      "should_flush (w_steady (snd ex_blip) (w_steady_n (snd ex_blip))) (rb_size rb) (max_batch (fst ex_blip))
         (rt_policy (fst ex_blip))" "\<forall>x \<in> set (take (max_batch (fst ex_blip)) (contents rb)). ss_value x \<noteq> NaN"
    and s: "next_reply (snd ex_blip) = KTransientFailure" "rt_store_open (fst ex_blip)"
      "store_rows (rt_store (fst ex_blip), snd ex_blip) = []" "w_posts (snd ex_blip) = []"
    by (auto simp: ex_blip_def next_reply_def interpret_response_def store_rows_def dest: in_set_takeD split: option.splits)
  have wf: "runtime_wf (fst ex_blip, snd ex_blip)" using ex_blip_wf by simp
  obtain rt1 w1 where m: "maybe_flush (fst ex_blip, snd ex_blip) = Done (rt1, w1)"
    using maybe_flush_done [OF wf ex_blip_net(1)] by (metis surj_pair)
  have f: "runtime_wf (rt1, w1)" "pipeline_frame (fst ex_blip, snd ex_blip) (rt1, w1)"
    using maybe_flush_effect [OF wf] m by simp_all
  have posts: "length (w_posts w1) = 1" using flush_outcome [OF wf e(1-3) m] s(4) by (auto simp: Let_def)
  define n w2 where "n = nat (rt_next_retry_at rt1)" and "w2 = w1\<lparr>w_steady_n := n\<rparr>"
  have "rt_next_retry_at rt1 \<le> int n" by (simp add: n_def)
  then have late: "rt_next_retry_at rt1 \<le> w_steady w1 n"
    using f(2) ex_blip_net(3) by (simp add: pipeline_frame_def)
  have up: "next_reply w1 = KAccepted"
    using f(2) posts by (simp add: next_reply_def pipeline_frame_def ex_blip_def interpret_response_def)
  obtain rt3 w3 where r: "maybe_retry (rt1, w2) = Done (rt3, w3)"
    using maybe_retry_done [of rt1 w2] f ex_blip_net(1) by (auto simp: w2_def pipeline_frame_def)
  have works: "store_works (w_sqlite (snd ex_blip))" by (simp add: ex_blip_net(2) ref_store_works)
  from outage_loses_nothing [OF wf e(1) s(2) e(2) works s(3) e(4) ex_blip_net(1) e(3) s(1) m w2_def late up r] posts
  have "length (w_posts w3) = 2" "store_rows (rt_store rt3, w3) = []" by auto
  with m r show ?thesis unfolding w2_def by (intro exI [of _ rt1] exI [of _ w1] exI [of _ n] exI [of _ rt3] exI [of _ w3]) simp
qed

end
