(* ===== verification/Account.thy ===== *)
theory Account
  imports RingBuffer HttpUploader
begin

text \<open>
  What the pipeline promises for its samples, without drivers, clocks, schedules or requests: a machine
  whose steps take a sample in, send a batch and, when that failed, put it in the offline store, or send
  a batch of the store again. Its invariant is a balance: every sample is in exactly one place.
  \<open>Ledger\<close> shows that the steps of \<open>src/runtime/telemetry_runtime.cpp\<close> are steps of this machine.
\<close>

section \<open>The machine\<close>

datatype origin = Fresh | Retried    \<comment> \<open>a batch of the buffer, a batch of the offline store\<close>

type_synonym sending = "origin \<times> stored_sample list \<times> upload_result"

record pipeline =
  pi_read :: "stored_sample list"             \<comment> \<open>what the drivers delivered\<close>
  pi_buffer :: "stored_sample list"
  pi_offline :: "stored_sample list"          \<comment> \<open>the samples of the store as it gives them back\<close>
  pi_sent :: "sending list"
  pi_dropped :: "stored_sample multiset"      \<comment> \<open>evicted or refused by the full buffer\<close>
  pi_lost :: "stored_sample multiset"         \<comment> \<open>not written by a store that failed or is not there\<close>
  pi_again :: "stored_sample multiset"        \<comment> \<open>accepted, but not removed from the store\<close>

definition take_in :: "nat \<Rightarrow> stored_sample \<Rightarrow> pipeline \<Rightarrow> pipeline" where
  "take_in cap x p =
     (let q = fst (snd (queue_enqueue cap x (pi_buffer p)))
      in p\<lparr>pi_read := pi_read p @ [x], pi_buffer := q,
           pi_dropped := pi_dropped p + (mset (x # pi_buffer p) - mset q)\<rparr>)"

definition send_fresh :: "nat \<Rightarrow> upload_result \<Rightarrow> pipeline \<Rightarrow> pipeline" where
  "send_fresh n v p = p\<lparr>pi_buffer := drop n (pi_buffer p), pi_sent := pi_sent p @ [(Fresh, take n (pi_buffer p), v)]\<rparr>"

definition set_aside :: "stored_sample list \<Rightarrow> stored_sample list \<Rightarrow> pipeline \<Rightarrow> pipeline" where
  "set_aside batch kept p = p\<lparr>pi_offline := pi_offline p @ map saved_sample kept,
     pi_lost := pi_lost p + (mset batch - mset kept)\<rparr>"

definition send_again :: "nat \<Rightarrow> upload_result \<Rightarrow> stored_sample list \<Rightarrow> pipeline \<Rightarrow> pipeline" where
  \<comment> \<open>\<open>left\<close>: what stays in the store of the batch\<close>
  "send_again k v left p = p\<lparr>pi_sent := pi_sent p @ [(Retried, take k (pi_offline p), v)],
     pi_offline := left @ drop k (pi_offline p),
     pi_again := pi_again p + (if v = KAccepted then mset left else {#})\<rparr>"

inductive pipeline_step :: "bool \<Rightarrow> nat \<Rightarrow> nat \<Rightarrow> pipeline \<Rightarrow> pipeline \<Rightarrow> bool" for works cap n where
  step_take: "pipeline_step works cap n p (take_in cap x p)"
| step_settled: "pi_buffer p \<noteq> [] \<Longrightarrow> v \<noteq> KTransientFailure \<Longrightarrow> pipeline_step works cap n p (send_fresh n v p)"
| step_failed: "pi_buffer p \<noteq> [] \<Longrightarrow> batch = take n (pi_buffer p) \<Longrightarrow> subseq kept batch \<Longrightarrow>
    (works \<and> (\<forall>x \<in> set batch. ss_value x \<noteq> NaN) \<longrightarrow> kept = batch) \<Longrightarrow>
    pipeline_step works cap n p (set_aside batch kept (send_fresh n KTransientFailure p))"
| step_again: "0 < k \<Longrightarrow> k \<le> n \<Longrightarrow> pi_offline p \<noteq> [] \<Longrightarrow> batch = take k (pi_offline p) \<Longrightarrow> subseq left batch \<Longrightarrow>
    (v \<noteq> KAccepted \<longrightarrow> left = batch) \<Longrightarrow> (works \<and> v = KAccepted \<longrightarrow> left = []) \<Longrightarrow>
    pipeline_step works cap n p (send_again k v left p)"

inductive_cases pipeline_stepE: "pipeline_step works cap n p p'"

lemmas pipeline_updates = take_in_def send_fresh_def set_aside_def send_again_def

section \<open>The balance\<close>

fun delivered :: "sending list \<Rightarrow> stored_sample multiset" where
  \<comment> \<open>what the server accepted, as the store would give it back\<close>
  "delivered [] = {#}"
| "delivered ((from, batch, v) # sent) =
     (if v = KAccepted then (case from of Fresh \<Rightarrow> mset (map saved_sample batch) | Retried \<Rightarrow> mset batch) else {#})
     + delivered sent"

fun refused :: "sending list \<Rightarrow> stored_sample multiset" where
  \<comment> \<open>batches of the buffer that the server rejected, which are not kept\<close>
  "refused [] = {#}"
| "refused ((from, batch, v) # sent) =
     (if v = KRejected \<and> from = Fresh then mset (map saved_sample batch) else {#}) + refused sent"

definition in_flight :: "pipeline \<Rightarrow> stored_sample multiset" where
  "in_flight p = mset (map saved_sample (pi_buffer p)) + mset (pi_offline p)"

definition accounted :: "pipeline \<Rightarrow> stored_sample multiset" where
  "accounted p = in_flight p + delivered (pi_sent p) + refused (pi_sent p) +
     image_mset saved_sample (pi_dropped p) + image_mset saved_sample (pi_lost p)"

definition balanced :: "stored_sample multiset \<Rightarrow> pipeline \<Rightarrow> bool" where
  "balanced start p \<longleftrightarrow> start + mset (map saved_sample (pi_read p)) + pi_again p = accounted p"

lemma delivered_append [simp]: "delivered (xs @ ys) = delivered xs + delivered ys"
  by (induction xs rule: delivered.induct) (simp_all add: add.assoc)

lemma refused_append [simp]: "refused (xs @ ys) = refused xs + refused ys"
  by (induction xs rule: refused.induct) (simp_all add: add.assoc)

lemma mset_remove_nth_subset: "mset (remove_nth k xs) \<subseteq># mset xs"
proof (cases "k < length xs")
  case True
  then show ?thesis by (metis add_mset_add_single mset_remove_nth mset_subset_eq_add_left)
qed (simp add: remove_nth_def)

lemma queue_enqueue_subset: "mset (fst (snd (queue_enqueue cap x xs))) \<subseteq># mset (x # xs)"
  using mset_remove_nth_subset [of "oldest_lowest xs" xs] by (simp add: queue_enqueue_def)

lemma queue_enqueue_displaced:
  assumes "0 < cap" "length xs \<le> cap"
  shows "size (mset (x # xs) - mset (fst (snd (queue_enqueue cap x xs)))) = snd (snd (queue_enqueue cap x xs))"
proof -
  have "size (mset (x # xs) - mset (fst (snd (queue_enqueue cap x xs)))) =
      Suc (length xs) - length (fst (snd (queue_enqueue cap x xs)))"
    using size_Diff_submset [OF queue_enqueue_subset [of cap x xs]] by simp
  moreover have "xs \<noteq> []" if "\<not> length xs < cap" using assms that by auto
  moreover have "oldest_lowest xs < length xs" if "xs \<noteq> []"
    using oldest_lowest_first_min [OF that] by (simp add: first_min_def)
  ultimately show ?thesis by (auto simp: queue_enqueue_def)
qed

text \<open>Each step keeps the balance, whatever the store does.\<close>

lemma balanced_take_in: "balanced start p \<Longrightarrow> balanced start (take_in cap x p)"
proof -
  assume b: "balanced start p"
  let ?q = "fst (snd (queue_enqueue cap x (pi_buffer p)))" and ?f = "image_mset saved_sample"
  have "?f (mset ?q) + ?f (mset (x # pi_buffer p) - mset ?q) = ?f (mset (x # pi_buffer p))"
    using queue_enqueue_subset [of cap x "pi_buffer p"] by (metis image_mset_union subset_mset.add_diff_inverse)
  with b show ?thesis
    by (simp add: balanced_def accounted_def in_flight_def take_in_def Let_def ac_simps)
qed

lemma subseq_mset: "subseq xs ys \<Longrightarrow> mset xs \<subseteq># mset ys"
  by (induction rule: list_emb.induct) (auto simp: subseteq_mset_def le_SucI)

lemma saved_kept:
  assumes "subseq kept batch"
  shows "image_mset saved_sample (mset batch) =
    image_mset saved_sample (mset kept) + image_mset saved_sample (mset batch - mset kept)"
  using subseq_mset [OF assms] by (metis image_mset_union subset_mset.add_diff_inverse)

lemma balanced_send_fresh:
  assumes "balanced start p" "v \<noteq> KTransientFailure"
  shows "balanced start (send_fresh n v p)"
proof -
  obtain b r where br: "take n (pi_buffer p) = b" "drop n (pi_buffer p) = r" "pi_buffer p = b @ r"
    by (metis append_take_drop_id)
  show ?thesis using assms
    by (cases v) (simp_all add: balanced_def accounted_def in_flight_def send_fresh_def br(1,2),
        simp_all add: br(3) ac_simps)
qed

lemma balanced_set_aside:
  assumes "balanced start p" "batch = take n (pi_buffer p)" "subseq kept batch"
  shows "balanced start (set_aside batch kept (send_fresh n KTransientFailure p))"
proof -
  obtain r where br: "drop n (pi_buffer p) = r" "pi_buffer p = batch @ r"
    by (metis append_take_drop_id assms(2))
  show ?thesis using assms(1)
    by (simp add: balanced_def accounted_def in_flight_def send_fresh_def set_aside_def br(1))
       (simp add: br(2) saved_kept [OF assms(3)] ac_simps)
qed

lemma balanced_send_again:
  assumes "balanced start p" "v \<noteq> KAccepted \<longrightarrow> left = take k (pi_offline p)"
  shows "balanced start (send_again k v left p)"
proof -
  obtain b r where br: "take k (pi_offline p) = b" "drop k (pi_offline p) = r" "pi_offline p = b @ r"
    by (metis append_take_drop_id)
  show ?thesis using assms
    by (cases "v = KAccepted") (simp_all add: balanced_def accounted_def in_flight_def send_again_def br(1,2),
        simp_all add: br(3) ac_simps)
qed

lemma balanced_step: "pipeline_step works cap n p p' \<Longrightarrow> balanced start p \<Longrightarrow> balanced start p'"
  by (elim pipeline_stepE) (auto intro: balanced_take_in balanced_send_fresh balanced_set_aside balanced_send_again)

section \<open>A store that works loses and repeats nothing\<close>

definition intact :: "pipeline \<Rightarrow> bool" where
  "intact p \<longleftrightarrow> pi_lost p = {#} \<and> pi_again p = {#} \<and> (\<forall>x \<in> set (pi_buffer p). ss_value x \<noteq> NaN)"

lemma set_take_in: "set (pi_buffer (take_in cap x p)) \<subseteq> insert x (set (pi_buffer p))"
  using set_mset_mono [OF queue_enqueue_subset [of cap x "pi_buffer p"]] by (simp add: take_in_def Let_def)

lemma read_step: "pipeline_step works cap n p p' \<Longrightarrow> \<exists>xs. pi_read p' = pi_read p @ xs"
  by (elim pipeline_stepE) (auto simp: pipeline_updates Let_def)

lemma intact_step:
  assumes "pipeline_step True cap n p p'" "intact p" "\<forall>x \<in> set (pi_read p'). ss_value x \<noteq> NaN"
  shows "intact p'"
  using assms(1)
proof (cases rule: pipeline_step.cases)
  case (step_take x)
  then show ?thesis using assms(2,3) set_take_in [of cap x p]
    by (auto simp: intact_def) (auto simp: take_in_def Let_def)
qed (use assms(2) in \<open>auto simp: intact_def send_fresh_def set_aside_def send_again_def dest: in_set_takeD in_set_dropD\<close>)

text \<open>Any number of steps.\<close>

abbreviation pipeline_steps :: "bool \<Rightarrow> nat \<Rightarrow> nat \<Rightarrow> pipeline \<Rightarrow> pipeline \<Rightarrow> bool" where
  "pipeline_steps works cap n \<equiv> (pipeline_step works cap n)\<^sup>*\<^sup>*"

lemma balanced_steps: "pipeline_steps works cap n p p' \<Longrightarrow> balanced start p \<Longrightarrow> balanced start p'"
  by (induction rule: rtranclp_induct) (auto intro: balanced_step)

lemma intact_steps:
  "pipeline_steps True cap n p p' \<Longrightarrow> intact p \<Longrightarrow> \<forall>x \<in> set (pi_read p'). ss_value x \<noteq> NaN \<Longrightarrow> intact p'"
proof (induction rule: rtranclp_induct)
  case (step y z)
  obtain xs where "pi_read z = pi_read y @ xs" using read_step [OF step.hyps(2)] by blast
  then show ?case using step by (auto intro: intact_step)
qed simp

text \<open>Taking in a list of samples.\<close>

definition take_all :: "nat \<Rightarrow> stored_sample list \<Rightarrow> pipeline \<Rightarrow> pipeline" where
  "take_all cap xs p = fold (take_in cap) xs p"

lemma take_all_simps [simp]:
  "take_all cap [] p = p"
  "take_all cap (x # xs) p = take_all cap xs (take_in cap x p)"
  "take_all cap (xs @ ys) p = take_all cap ys (take_all cap xs p)"
  by (simp_all add: take_all_def)

lemma take_in_fields [simp]:
  "pi_read (take_in cap x p) = pi_read p @ [x]" "pi_offline (take_in cap x p) = pi_offline p"
  "pi_sent (take_in cap x p) = pi_sent p" "pi_again (take_in cap x p) = pi_again p"
  "pi_lost (take_in cap x p) = pi_lost p"
  by (simp_all add: take_in_def Let_def)

lemma take_all_fields [simp]:
  "pi_read (take_all cap xs p) = pi_read p @ xs" "pi_offline (take_all cap xs p) = pi_offline p"
  "pi_sent (take_all cap xs p) = pi_sent p"
  by (induction xs arbitrary: p) simp_all

lemma take_all_steps: "pipeline_steps works cap n p (take_all cap xs p)"
proof (induction xs arbitrary: p)
  case (Cons x xs)
  have "pipeline_step works cap n p (take_in cap x p)" by (rule step_take)
  then show ?case using Cons.IH [of "take_in cap x p"] by (simp add: converse_rtranclp_into_rtranclp)
qed simp

section \<open>What an outsider sees of the balance\<close>

lemma account_upper:
  assumes "balanced start p"
  shows "start + mset (map saved_sample (pi_read p)) \<subseteq># accounted p"
  using assms unfolding balanced_def by (metis mset_subset_eq_add_left)

lemma account_exact:
  assumes "balanced start p" "intact p"
  shows "start + mset (map saved_sample (pi_read p)) =
    in_flight p + delivered (pi_sent p) + refused (pi_sent p) + image_mset saved_sample (pi_dropped p)"
  using assms by (simp add: balanced_def intact_def accounted_def)

end
