(* ===== verification/Ledger.thy ===== *)
theory Ledger
  imports Account Recovery
begin

text \<open>
  The pipeline of \<open>src/runtime/telemetry_runtime.cpp\<close> as an implementation of the machine of
  \<open>Account\<close>: every step of \<open>tick\<close> is a sequence of its steps, with the samples the drivers delivered as
  its input. What the drivers delivered is therefore, at any time and for any behaviour of the clock,
  the sensors, the server and the database, in the buffer, in the offline store, with the server, or
  in one of the places where the code gives samples up.
\<close>

section \<open>What the drivers deliver\<close>

definition channel_samples :: "string \<Rightarrow> runtime \<Rightarrow> stored_sample list" where
  \<comment> \<open>the samples of one poll, as they are enqueued\<close>
  "channel_samples i = (\<lambda>(rt, w).
     (case map_of (rt_channels rt) i of
        None \<Rightarrow> []
      | Some b \<Rightarrow> (let (r, _) = device_read (bd_driver b, w)
                   in map (\<lambda>s. from_sample s (sy_priority (ch_sync (bd_config b))))
                          (take (rr_sample_count r) (rr_samples r)))))"

fun polled_samples :: "string list \<Rightarrow> runtime \<Rightarrow> stored_sample list" where
  "polled_samples [] s = []"
| "polled_samples (i # ids) s = channel_samples i s @ polled_samples ids (poll_channel i s)"

definition tick_samples :: "runtime \<Rightarrow> stored_sample list" where
  \<comment> \<open>the samples of the channels that are due\<close>
  "tick_samples = (\<lambda>(rt, w).
     (if rt_channels rt = [] then []
      else (let (now, w) = steady_now w in polled_samples (due_ids now (rt_scheduler rt)) (rt, w))))"

section \<open>The abstraction\<close>

definition sent_log :: "http_uploader option \<Rightarrow> runtime \<Rightarrow> world \<Rightarrow> sending list \<Rightarrow> bool" where
  \<comment> \<open>the requests since the start are the batches of the log, with the verdicts of the server\<close>
  "sent_log upl start w sent \<longleftrightarrow>
     (\<exists>qs. w_posts w = w_posts (snd start) @ qs \<and>
        list_all2 (\<lambda>(from, batch, v) q. \<exists>up t body. upl = Some up \<and>
            w_dump w (payload_json (up_node_id up) t batch) = Some body \<and> q = upload_request up body) sent qs \<and>
        map (snd \<circ> snd) sent =
          map (\<lambda>i. interpret_response (w_reply w i)) [length (w_posts (snd start))..<length (w_posts w)])"

definition accepted :: "sending list \<Rightarrow> nat" where
  "accepted sent = length (filter (\<lambda>x. snd (snd x) = KAccepted) sent)"

definition drops :: "runtime \<Rightarrow> nat" where
  "drops s = (case rt_buffer (fst s) of None \<Rightarrow> 0 | Some rb \<Rightarrow> rb_drop_count rb)"

definition room :: "runtime \<Rightarrow> nat" where
  "room s = (case rt_buffer (fst s) of None \<Rightarrow> 0 | Some rb \<Rightarrow> rb_capacity rb)"

definition represents :: "bool \<Rightarrow> runtime \<Rightarrow> pipeline \<Rightarrow> runtime \<Rightarrow> bool" where
  \<comment> \<open>\<open>start\<close>: the state at which the account was opened\<close>
  "represents works start p s \<longleftrightarrow>
     (\<exists>rb. rt_buffer (fst s) = Some rb \<and> contents rb = pi_buffer p \<and>
        rb_capacity rb = room start \<and> rb_drop_count rb = drops start + size (pi_dropped p)) \<and>
     map snd (store_rows (rt_store (fst s), snd s)) = pi_offline p \<and>
     sent_log (rt_uploader (fst s)) start (snd s) (pi_sent p) \<and>
     (works \<longrightarrow> rt_accepted_upload_count (fst s) = rt_accepted_upload_count (fst start) + accepted (pi_sent p))"

definition open_account :: "runtime \<Rightarrow> pipeline" where
  \<comment> \<open>the account of a state from which on samples are counted\<close>
  "open_account s = \<lparr>pi_read = [], pi_buffer = (case rt_buffer (fst s) of None \<Rightarrow> [] | Some rb \<Rightarrow> contents rb),
     pi_offline = map snd (store_rows (rt_store (fst s), snd s)), pi_sent = [], pi_dropped = {#}, pi_lost = {#},
     pi_again = {#}\<rparr>"

lemma represents_open_account: "rt_buffer (fst s) \<noteq> None \<Longrightarrow> represents works s (open_account s) s"
  by (auto simp: represents_def open_account_def sent_log_def accepted_def drops_def room_def)

lemma sent_log_same:
  "w_posts w' = w_posts w \<Longrightarrow> w_dump w' = w_dump w \<Longrightarrow> w_reply w' = w_reply w \<Longrightarrow>
   sent_log upl start w' sent = sent_log upl start w sent"
  by (simp add: sent_log_def)

lemma sent_log_steady [simp]: "sent_log upl start (w\<lparr>w_steady_n := n\<rparr>) sent = sent_log upl start w sent"
  by (rule sent_log_same) simp_all

lemma sent_log_grows:
  assumes "sent_log (Some up) start w sent" "batch_request up batch v = Some q" "w_posts w' = w_posts w @ [q]"
    and "w_dump w' = w_dump w" "w_reply w' = w_reply w" "w_dump v = w_dump w"
  shows "sent_log (Some up) start w' (sent @ [(from, batch, next_reply w)])"
proof -
  obtain qs where qs: "w_posts w = w_posts (snd start) @ qs"
    "list_all2 (\<lambda>(from, batch, v) q. \<exists>up' t body. Some up = Some up' \<and>
        w_dump w (payload_json (up_node_id up') t batch) = Some body \<and> q = upload_request up' body) sent qs"
    "map (snd \<circ> snd) sent =
        map (\<lambda>i. interpret_response (w_reply w i)) [length (w_posts (snd start))..<length (w_posts w)]"
    using assms(1) by (auto simp: sent_log_def)
  obtain t body where body: "w_dump w (payload_json (up_node_id up) t batch) = Some body" "q = upload_request up body"
    using assms(2,6) by (auto simp: batch_request_def)
  have "length (w_posts (snd start)) \<le> length (w_posts w)" by (simp add: qs(1))
  then show ?thesis using assms(3-5) qs body
    by (auto simp: sent_log_def next_reply_def intro!: exI [of _ "qs @ [q]"] list_all2_appendI)
qed

section \<open>Polling takes samples in\<close>

lemma ring_take_all:
  assumes "rb_wf q" "contents q = pi_buffer p" "rb_drop_count q = d + size (pi_dropped p)"
  shows "contents (fold (\<lambda>x rb. snd (enqueue x rb)) xs q) = pi_buffer (take_all (rb_capacity q) xs p) \<and>
    rb_drop_count (fold (\<lambda>x rb. snd (enqueue x rb)) xs q) = d + size (pi_dropped (take_all (rb_capacity q) xs p)) \<and>
    rb_capacity (fold (\<lambda>x rb. snd (enqueue x rb)) xs q) = rb_capacity q"
  using assms
proof (induction xs arbitrary: q p)
  case (Cons x xs)
  let ?q = "snd (enqueue x q)" and ?p = "take_in (rb_capacity q) x p"
  note r = enqueue_refines [OF Cons.prems(1), of x]
  have len: "0 < rb_capacity q" "length (contents q) \<le> rb_capacity q"
    using Cons.prems(1) rb.contents_bound [OF Cons.prems(1)] by (simp_all add: rb_wf_def)
  have "contents ?q = pi_buffer ?p" using r(2) Cons.prems(2) by (simp add: take_in_def Let_def)
  moreover have "rb_drop_count ?q = d + size (pi_dropped ?p)"
    using r(3) Cons.prems(2,3) queue_enqueue_displaced [OF len, of x] by (simp add: take_in_def Let_def)
  ultimately show ?case using Cons.IH [OF r(4), of ?p] r(5) by simp
qed simp

lemma poll_represents:
  assumes "runtime_wf (rt, w)" "represents works start p (rt, w)"
  shows "represents works start (take_all (room start) (channel_samples i (rt, w)) p) (poll_channel i (rt, w))"
proof (cases "map_of (rt_channels rt) i")
  case None
  then show ?thesis using assms(2) by (simp add: channel_samples_def poll_channel_unknown)
next
  case (Some b)
  obtain rb where rb: "rt_buffer rt = Some rb" "contents rb = pi_buffer p" "rb_capacity rb = room start"
      "rb_drop_count rb = drops start + size (pi_dropped p)"
    using assms(2) by (auto simp: represents_def)
  have wf: "rb_wf rb" using assms(1) rb(1) by (simp add: runtime_wf_def wf_members_def wf_buffer_def)
  obtain r d w1 where rd: "device_read (bd_driver b, w) = (r, d, w1)" by (metis surj_pair)
  let ?xs = "channel_samples i (rt, w)"
  obtain rt' w' where pc: "poll_channel i (rt, w) = (rt', w')" by fastforce
  have "polled (rt, w) (rt', w')" using poll_channel_effect [OF assms(1) pc] by simp
  then have frame: "poll_world w w'" "rt_store rt' = rt_store rt" "rt_uploader rt' = rt_uploader rt"
    "rt_accepted_upload_count rt' = rt_accepted_upload_count rt" "w_dump w' = w_dump w" "w_reply w' = w_reply w"
    by (auto simp: polled_def poll_world_def)
  have "rt_buffer rt' = Some (fold (\<lambda>x rb. snd (enqueue x rb)) ?xs rb)"
    using poll_channel_known [OF Some rb(1) rd] pc Some rd by (auto simp: channel_samples_def fold_map comp_def)
  then show ?thesis
    using ring_take_all [OF wf rb(2,4), of ?xs] assms(2) rb(3) pc frame poll_world_store(2,3) [OF frame(1)]
    by (simp add: represents_def sent_log_same [of w' w])
qed

lemma polls_represent:
  "runtime_wf s \<Longrightarrow> represents works start p s \<Longrightarrow>
   represents works start (take_all (room start) (polled_samples ids s) p) (fold poll_channel ids s)"
proof (induction ids arbitrary: s p)
  case (Cons i ids)
  obtain rt w where s: "s = (rt, w)" by fastforce
  have "runtime_wf (poll_channel i s)"
    using poll_channel_effect [of rt w i "fst (poll_channel i s)" "snd (poll_channel i s)"] Cons.prems(1) s by simp
  then show ?case
    using Cons.IH [of "poll_channel i s"] poll_represents [of rt w works start p i] Cons.prems s by simp
qed simp

lemma poll_due_represents:
  assumes "runtime_wf (rt, w)" "wf_scheduler (rt_scheduler rt)" "rt_channels rt \<noteq> []"
    and "represents works start p (rt, w)" "poll_due (rt, w) = Some s'"
  shows "represents works start (take_all (room start) (tick_samples (rt, w)) p) s'"
proof -
  let ?w = "snd (steady_now w)" and ?ids = "due_ids (fst (steady_now w)) (rt_scheduler rt)"
  have "represents works start p (rt, ?w)"
    using assms(4) by (simp add: represents_def)
  moreover have "runtime_wf (rt, ?w)" using assms(1) by simp
  ultimately have "represents works start (take_all (room start) (polled_samples ?ids (rt, ?w)) p)
      (fold poll_channel ?ids (rt, ?w))" by (simp only: polls_represent)
  moreover obtain rt1 w1 where f: "fold poll_channel ?ids (rt, ?w) = (rt1, w1)" by fastforce
  then have "s' = (rt1\<lparr>rt_scheduler := map (reschedule (fst (steady_now w))) (rt_scheduler rt)\<rparr>, w1)"
    using assms(5) dispatch_due_eq [OF assms(2), of poll_channel "fst (steady_now w)" "(rt, ?w)"]
    by (simp add: poll_due_def case_prod_beta)
  ultimately show ?thesis using assms(3) f
    by (simp add: tick_samples_def represents_def case_prod_beta Let_def)
qed

section \<open>Flushing sends a batch and sets it aside\<close>

definition reliable :: "runtime \<Rightarrow> bool" where
  \<comment> \<open>the store is open and the database does what it is told\<close>
  "reliable s \<longleftrightarrow> rt_store_open (fst s) \<and> store_works (w_sqlite (snd s))"

lemma represents_steady: "represents works start p (rt, w\<lparr>w_steady_n := n\<rparr>) = represents works start p (rt, w)"
  by (simp add: represents_def)

lemma accepted_append: "accepted (sent @ [(from, batch, v)]) = accepted sent + (if v = KAccepted then 1 else 0)"
  by (simp add: accepted_def)

lemma flush_represents:
  assumes "runtime_wf (rt, w)" "represents works start p (rt, w)" "works \<longrightarrow> reliable (rt, w)"
    and "maybe_flush (rt, w) = Done (rt', w')"
  shows "\<exists>p'. pipeline_steps works cap (max_batch rt) p p' \<and> pi_read p' = pi_read p \<and>
    represents works start p' (rt', w')"
proof (cases "\<exists>up rb. rt_uploader rt = Some up \<and> rt_buffer rt = Some rb \<and>
    should_flush (w_steady w (w_steady_n w)) (rb_size rb) (max_batch rt) (rt_policy rt)")
  case False
  then have "rt' = rt \<and> (w' = w \<or> w' = w\<lparr>w_steady_n := w_steady_n w + 1\<rparr>)"
    using assms(4) by (auto simp: maybe_flush_def case_prod_beta Let_def split: option.splits)
  then have "represents works start p (rt', w')" using assms(2) represents_steady [where works = works and start = start and p = p and rt = rt and w = w] by auto
  then show ?thesis by (intro exI [of _ p]) simp
next
  case True
  then obtain up rb where ub: "rt_uploader rt = Some up" "rt_buffer rt = Some rb"
    "should_flush (w_steady w (w_steady_n w)) (rb_size rb) (max_batch rt) (rt_policy rt)" by blast
  let ?n = "max_batch rt" and ?v = "next_reply w"
  have frame: "rt_uploader rt' = rt_uploader rt" "w_dump w' = w_dump w" "w_reply w' = w_reply w"
    using maybe_flush_effect [OF assms(1)] assms(4) by (simp_all add: pipeline_frame_def)
  have r: "contents rb = pi_buffer p" "rb_capacity rb = room start" "rb_drop_count rb = drops start + size (pi_dropped p)"
    "map snd (store_rows (rt_store rt, w)) = pi_offline p" "sent_log (Some up) start w (pi_sent p)"
    "works \<longrightarrow> rt_accepted_upload_count rt = rt_accepted_upload_count (fst start) + accepted (pi_sent p)"
    using assms(2) ub by (simp_all add: represents_def)
  obtain rb' q where f: "take ?n (pi_buffer p) \<noteq> []" "rt_buffer rt' = Some rb'" "contents rb' = drop ?n (pi_buffer p)"
    "rb_drop_count rb' = rb_drop_count rb" "rb_capacity rb' = rb_capacity rb"
    "batch_request up (take ?n (pi_buffer p)) (w\<lparr>w_steady_n := w_steady_n w + 1\<rparr>) = Some q" "w_posts w' = w_posts w @ [q]"
    "rt_accepted_upload_count rt' = rt_accepted_upload_count rt + (if ?v = KAccepted then 1 else 0)"
    "if ?v = KTransientFailure
     then \<exists>kept. kept_of (rt_store_open rt \<and> insert_works (w_sqlite w)) (take ?n (pi_buffer p)) kept \<and>
            map snd (store_rows (rt_store rt', w')) = pi_offline p @ map saved_sample kept
     else store_rows (rt_store rt', w') = store_rows (rt_store rt, w)"
    using flush_step [OF assms(1) ub assms(4)] unfolding r(1,4) by blast
  have log: "sent_log (Some up) start w' (pi_sent p @ [(Fresh, take ?n (pi_buffer p), ?v)])"
    using sent_log_grows [OF r(5) f(6,7)] frame by simp
  have ne: "pi_buffer p \<noteq> []" using f(1) by auto
  show ?thesis
  proof (cases "?v = KTransientFailure")
    case True
    then obtain kept where kept: "kept_of (rt_store_open rt \<and> insert_works (w_sqlite w)) (take ?n (pi_buffer p)) kept"
      "map snd (store_rows (rt_store rt', w')) = pi_offline p @ map saved_sample kept" using f(9) by auto
    let ?p = "set_aside (take ?n (pi_buffer p)) kept (send_fresh ?n KTransientFailure p)"
    have "pipeline_step works cap ?n p ?p"
      using ne kept(1) assms(3) by (intro step_failed) (auto simp: kept_of_def reliable_def store_works_def)
    moreover have "represents works start ?p (rt', w')"
      using f r log kept(2) frame(1) ub(1) True
      by (simp add: represents_def set_aside_def send_fresh_def accepted_append)
    ultimately show ?thesis by (intro exI [of _ ?p]) (simp add: set_aside_def send_fresh_def r_into_rtranclp)
  next
    case False
    let ?p = "send_fresh ?n ?v p"
    have "pipeline_step works cap ?n p ?p" using ne False by (rule step_settled)
    moreover have "represents works start ?p (rt', w')"
      using f r log frame(1) ub(1) False by (simp add: represents_def send_fresh_def accepted_append)
    ultimately show ?thesis by (intro exI [of _ ?p]) (simp add: send_fresh_def r_into_rtranclp)
  qed
qed

section \<open>Retrying sends stored samples again\<close>

lemma retry_choice:
  assumes "runtime_wf (rt, w)" "rt_store_open rt" "store_pending (rt, w) = (n, rt1, w1)" "rt1 = rt\<lparr>rt_store := ls\<rparr>"
    and "store_wf s" "store_rows s = store_rows (rt_store rt, w)" "ls_db (fst s) \<noteq> None" "up_has_store up"
    and "retry_pending up (max_batch rt) s = (r, s')" "w_sqlite (snd s) = w_sqlite w"
  shows "\<exists>k \<le> max_batch rt. retry_spec up (take k (store_rows s)) s r s' \<and>
    (reliable (rt, w) \<longrightarrow> k = max_batch rt \<and> n = length (store_rows (rt_store rt, w)))"
proof (cases "reliable (rt, w)")
  case False
  then show ?thesis using retry_effect [OF assms(5,8,9)] by blast
next
  case True
  then have works: "select_works (w_sqlite (snd s))" "count_works (w_sqlite w)"
    using assms(10) by (simp_all add: reliable_def store_works_def)
  obtain rows s1 where pk: "peek_batch (max_batch rt) s = (rows, s1)" by (metis surj_pair)
  have "retry_spec up (take (max_batch rt) (store_rows s)) s r s'"
    using retry_effect_peeked [OF assms(5,8,9) pk] peek_batch_works [OF assms(5,7) works(1) max_batch_pos pk] by simp
  then show ?thesis using store_pending_works [OF assms(1,2) works(2) assms(3)] by blast
qed

lemma retry_batch_ledger:
  assumes "store_wf s" "ls_db (fst s) \<noteq> None" "up_has_store up" "0 < m" "take k (store_rows s) \<noteq> []"
    and rp: "retry_pending up m s = (Inr x, ls', w')" and spec: "retry_spec up (take k (store_rows s)) s (Inr x) (ls', w')"
    and works: "sure \<longrightarrow> store_works (w_sqlite (snd s)) \<and> k = m"
  defines "rows \<equiv> map snd (store_rows s)"
  obtains q left where "batch_request up (take k rows) (snd s) = Some q" "x = next_reply (snd s)"
    "w_posts w' = w_posts (snd s) @ [q]" "subseq left (take k rows)" "next_reply (snd s) \<noteq> KAccepted \<longrightarrow> left = take k rows"
    "sure \<and> next_reply (snd s) = KAccepted \<longrightarrow> left = []" "map snd (store_rows (ls', w')) = left @ drop k rows"
proof -
  have k_rows: "map snd (take k (store_rows s)) = take k rows" "map snd (drop k (store_rows s)) = drop k rows"
    by (simp_all add: rows_def take_map drop_map)
  obtain q where q: "batch_request up (map snd (take k (store_rows s))) (snd s) = Some q" "x = next_reply (snd s)"
      "w_posts w' = w_posts (snd s) @ [q]"
      "if next_reply (snd s) = KAccepted
       then \<exists>gone \<subseteq> fst ` set (take k (store_rows s)). store_rows (ls', w') = filter (\<lambda>row. fst row \<notin> gone) (store_rows s)
       else store_rows (ls', w') = store_rows s"
    using spec assms(5) by (auto simp: retry_spec_def split: option.splits)
  show ?thesis
  proof (cases "next_reply (snd s) = KAccepted")
    case False
    then have "map snd (store_rows (ls', w')) = take k rows @ drop k rows" using q(4) by (simp add: rows_def)
    then show ?thesis using that [of q "take k rows"] q(1-3) False k_rows(1) by simp
  next
    case True
    then obtain gone where gone: "gone \<subseteq> fst ` set (take k (store_rows s))"
        "store_rows (ls', w') = filter (\<lambda>row. fst row \<notin> gone) (store_rows s)" using q(4) by auto
    define kept where "kept = filter (\<lambda>row. fst row \<notin> gone) (take k (store_rows s))"
    have after: "store_rows (ls', w') = kept @ drop k (store_rows s)"
      using filter_gone [OF distinct_store_rows [OF assms(1)] gone(1)] gone(2) by (simp add: kept_def)
    have "kept = []" if sure
    proof -
      have "store_works (w_sqlite (snd s))" "store_rows s \<noteq> []" using that works assms(5) by auto
      then have "store_rows (ls', w') = drop k (store_rows s)"
        using retry_delivers [OF assms(1-3) _ assms(4) _ _ _ rp, of q] True q(1) works that by simp
      then show ?thesis using after by simp
    qed
    moreover have "subseq (map snd kept) (take k rows)"
      unfolding k_rows(1) [symmetric] kept_def by (intro subseq_map subseq_filter_left)
    moreover have "map snd (store_rows (ls', w')) = map snd kept @ drop k rows" using after k_rows(2) by simp
    ultimately show ?thesis using that [of q "map snd kept"] q(1-3) k_rows(1) True by simp
  qed
qed

lemma retry_step:
  assumes "runtime_wf (rt, w)" "rt_uploader rt = Some up" "rt_store_open rt" "maybe_retry (rt, w) = Done (rt', w')"
  defines "rows \<equiv> map snd (store_rows (rt_store rt, w))"
  shows "rt_buffer rt' = rt_buffer rt \<and>
    (w_posts w' = w_posts w \<and> map snd (store_rows (rt_store rt', w')) = rows \<and>
     (reliable (rt, w) \<longrightarrow> rt_accepted_upload_count rt' = rt_accepted_upload_count rt) \<or>
     (\<exists>k q left v. 0 < k \<and> k \<le> max_batch rt \<and> rows \<noteq> [] \<and> w_dump v = w_dump w \<and>
        batch_request up (take k rows) v = Some q \<and> w_posts w' = w_posts w @ [q] \<and>
        subseq left (take k rows) \<and> (next_reply w \<noteq> KAccepted \<longrightarrow> left = take k rows) \<and>
        (reliable (rt, w) \<and> next_reply w = KAccepted \<longrightarrow> left = []) \<and>
        map snd (store_rows (rt_store rt', w')) = left @ drop k rows \<and>
        rt_accepted_upload_count rt' = rt_accepted_upload_count rt + (if next_reply w = KAccepted then 1 else 0)))"
proof -
  obtain n rt1 w1 where p: "store_pending (rt, w) = (n, rt1, w1)" by (metis surj_pair)
  have e1: "runtime_wf (rt1, w1)" "pipeline_frame (rt, w) (rt1, w1)" "w_posts w1 = w_posts w"
      "\<exists>ls. rt1 = rt\<lparr>rt_store := ls\<rparr>"
    using store_pending_effect [OF assms(1)] store_pending_world [OF assms(1) p] p by simp_all
  then obtain ls1 where rt1: "rt1 = rt\<lparr>rt_store := ls1\<rparr>" by blast
  have wf: "store_wf (rt_store rt, w)" using assms(1) by (simp add: runtime_wf_def)
  have rows1: "store_rows (rt_store rt1, w1) = store_rows (rt_store rt, w)"
    using pending_count_wf(2) [OF wf] p by (auto simp: store_pending_def split: prod.splits)
  show ?thesis
  proof (cases "n = 0 \<or> \<not> retry_due (rt1, w1)")
    case True
    then have "rt' = rt1 \<and> (w' = w1 \<or> w' = w1\<lparr>w_steady_n := w_steady_n w1 + 1\<rparr>)"
      using assms(4) maybe_retry_eq [OF assms(2,3), of w] p by (auto split: if_splits)
    then show ?thesis using e1(3) rows1 rt1 by (auto simp: rows_def)
  next
    case False
    define s0 where "s0 = (rt_store rt1, w1\<lparr>w_steady_n := w_steady_n w1 + 1\<rparr>)"
    have s: "store_wf s0" "store_rows s0 = store_rows (rt_store rt, w)" "ls_db (fst s0) \<noteq> None" "up_has_store up"
      using e1(1) rows1 assms(2,3) rt1 assms(1) by (simp_all add: s0_def runtime_wf_def wf_members_def)
    have net: "next_reply (snd s0) = next_reply w" "w_posts (snd s0) = w_posts w" "w_dump (snd s0) = w_dump w"
        "w_sqlite (snd s0) = w_sqlite w"
      using e1(2,3) by (simp_all add: s0_def pipeline_frame_def next_reply_def)
    obtain r ls2 w2 where rp: "retry_pending up (max_batch rt) s0 = (r, ls2, w2)" by (metis surj_pair)
    have mb: "max_batch rt1 = max_batch rt" by (simp add: rt1 max_batch_def)
    have res: "after_retry (r, rt1\<lparr>rt_store := ls2\<rparr>, w2) = Done (rt', w')"
      using assms(4) maybe_retry_eq [OF assms(2,3), of w] p False rp [unfolded s0_def] mb by simp
    then obtain x where x: "r = Inr x" by (cases r) (simp_all add: after_retry_cases(3))
    have eff: "rt_buffer rt' = rt_buffer rt" "w_posts w' = w_posts w2" "store_rows (rt_store rt', w') = store_rows (ls2, w2)"
      "rt_accepted_upload_count rt' = rt_accepted_upload_count rt + (if x = KAccepted then 1 else 0)"
      using res x rt1
      by (cases "x = KAccepted"; auto simp: after_retry_cases advance_backoff_simps reset_backoff_after_success_def)+
    obtain k where k: "k \<le> max_batch rt" "retry_spec up (take k (store_rows s0)) s0 r (ls2, w2)"
        "reliable (rt, w) \<longrightarrow> k = max_batch rt \<and> n = length (store_rows (rt_store rt, w))"
      using retry_choice [OF assms(1,3) p rt1 s rp] net(4) by blast
    show ?thesis
    proof (cases "take k (store_rows s0) = []")
      case True
      then have "w_posts w2 = w_posts w" "store_rows (ls2, w2) = store_rows (rt_store rt, w)"
        using k(2) net(2) s(2) by (simp_all add: retry_spec_def)
      moreover have "\<not> reliable (rt, w)" using True k(3) False s(2) by auto
      ultimately show ?thesis using eff by (simp add: rows_def)
    next
      case ne: False
      have sure: "reliable (rt, w) \<longrightarrow> store_works (w_sqlite (snd s0)) \<and> k = max_batch rt"
        using k(3) net(4) by (simp add: reliable_def)
      obtain q left where q: "batch_request up (take k (map snd (store_rows s0))) (snd s0) = Some q"
          "x = next_reply (snd s0)" "w_posts w2 = w_posts (snd s0) @ [q]"
          "subseq left (take k (map snd (store_rows s0)))"
          "next_reply (snd s0) \<noteq> KAccepted \<longrightarrow> left = take k (map snd (store_rows s0))"
          "reliable (rt, w) \<and> next_reply (snd s0) = KAccepted \<longrightarrow> left = []"
          "map snd (store_rows (ls2, w2)) = left @ drop k (map snd (store_rows s0))"
        by (rule retry_batch_ledger [OF s(1,3,4) max_batch_pos ne rp [unfolded x] k(2) [unfolded x] sure])
      have "0 < k" "rows \<noteq> []" using ne s(2) by (auto simp: rows_def)
      then show ?thesis
        using k(1) q eff net(1-3) unfolding s(2) rows_def [symmetric]
        by (intro conjI disjI2 exI [of _ k] exI [of _ q] exI [of _ left] exI [of _ "snd s0"]) simp_all
    qed
  qed
qed

lemma retry_represents:
  assumes "runtime_wf (rt, w)" "represents works start p (rt, w)" "works \<longrightarrow> reliable (rt, w)"
    and "maybe_retry (rt, w) = Done (rt', w')"
  shows "\<exists>p'. pipeline_steps works cap (max_batch rt) p p' \<and> pi_read p' = pi_read p \<and>
    represents works start p' (rt', w')"
proof (cases "rt_uploader rt \<noteq> None \<and> rt_store_open rt")
  case False
  then have "rt' = rt" "w' = w" using assms(4) by (auto simp: maybe_retry_def split: option.splits)
  then show ?thesis using assms(2) by auto
next
  case True
  then obtain up where up: "rt_uploader rt = Some up" "rt_store_open rt" by auto
  have frame: "rt_uploader rt' = rt_uploader rt" "w_dump w' = w_dump w" "w_reply w' = w_reply w"
    using maybe_retry_effect [OF assms(1)] assms(4) by (simp_all add: pipeline_frame_def)
  have r: "map snd (store_rows (rt_store rt, w)) = pi_offline p" "sent_log (Some up) start w (pi_sent p)"
    using assms(2) up by (simp_all add: represents_def)
  note st = retry_step [OF assms(1) up assms(4), unfolded r(1)]
  have buffer: "rt_buffer rt' = rt_buffer rt" using st by blast
  from st consider
      (idle) "w_posts w' = w_posts w" "map snd (store_rows (rt_store rt', w')) = pi_offline p"
        "reliable (rt, w) \<longrightarrow> rt_accepted_upload_count rt' = rt_accepted_upload_count rt"
    | (sent) k q left v where "0 < k" "k \<le> max_batch rt" "pi_offline p \<noteq> []" "w_dump v = w_dump w"
        "batch_request up (take k (pi_offline p)) v = Some q" "w_posts w' = w_posts w @ [q]"
        "subseq left (take k (pi_offline p))" "next_reply w \<noteq> KAccepted \<longrightarrow> left = take k (pi_offline p)"
        "reliable (rt, w) \<and> next_reply w = KAccepted \<longrightarrow> left = []"
        "map snd (store_rows (rt_store rt', w')) = left @ drop k (pi_offline p)"
        "rt_accepted_upload_count rt' = rt_accepted_upload_count rt + (if next_reply w = KAccepted then 1 else 0)"
    by blast
  then show ?thesis
  proof cases
    case idle
    then have "represents works start p (rt', w')"
      using assms(2,3) buffer frame(1) sent_log_same [OF idle(1) frame(2,3)] by (auto simp: represents_def)
    then show ?thesis by (intro exI [of _ p]) simp
  next
    case (sent k q left v)
    let ?p = "send_again k (next_reply w) left p"
    have "pipeline_step works cap (max_batch rt) p ?p"
      using sent assms(3) by (intro step_again [OF sent(1-3) refl sent(7,8)]) auto
    moreover have "sent_log (Some up) start w' (pi_sent p @ [(Retried, take k (pi_offline p), next_reply w)])"
      using sent_log_grows [OF r(2) sent(5,6) frame(2,3) sent(4)] by simp
    then have "represents works start ?p (rt', w')"
      using sent assms(2) buffer frame(1) up(1) by (simp add: represents_def send_again_def accepted_append)
    ultimately show ?thesis by (intro exI [of _ ?p]) (simp add: send_again_def r_into_rtranclp)
  qed
qed

section \<open>The step\<close>

lemma tick_represents:
  assumes "runtime_wf (rt, w)" "wf_scheduler (rt_scheduler rt)" "represents works start p (rt, w)"
    and "works \<longrightarrow> reliable (rt, w)" "tick (rt, w) = Some (Done s')"
  shows "\<exists>p'. pipeline_steps works (room start) (max_batch rt) p p' \<and>
    pi_read p' = pi_read p @ tick_samples (rt, w) \<and> represents works start p' s'"
proof (cases "rt_channels rt = []")
  case True
  then show ?thesis using assms(3,5) by (auto simp: tick_def tick_samples_def)
next
  case False
  let ?xs = "tick_samples (rt, w)"
  obtain rt1 w1 rt2 w2 rt3 w3 where st: "poll_due (rt, w) = Some (rt1, w1)" "maybe_flush (rt1, w1) = Done (rt2, w2)"
      "maybe_retry (rt2, w2) = Done (rt3, w3)" "s' = (rt3, w3)"
    using tick_SomeE [OF assms(5)] False by (metis fst_conv surj_pair)
  have e1: "runtime_wf (rt1, w1)" "rt_store_open rt1 = rt_store_open rt" "w_sqlite w1 = w_sqlite w" "rt_config rt1 = rt_config rt"
    using poll_due_world [OF assms(1) st(1)] poll_world_store(5) by auto
  have e2: "runtime_wf (rt2, w2)" "rt_store_open rt2 = rt_store_open rt" "w_sqlite w2 = w_sqlite w" "rt_config rt2 = rt_config rt"
    using maybe_flush_effect [OF e1(1)] st(2) e1 by (simp_all add: pipeline_frame_def)
  have works: "works \<longrightarrow> reliable (rt1, w1)" "works \<longrightarrow> reliable (rt2, w2)"
    using assms(4) e1 e2 by (simp_all add: reliable_def)
  have n: "max_batch rt1 = max_batch rt" "max_batch rt2 = max_batch rt" using e1(4) e2(4) by (simp_all add: max_batch_def)
  let ?p1 = "take_all (room start) ?xs p"
  have r1: "represents works start ?p1 (rt1, w1)" using poll_due_represents [OF assms(1,2) False assms(3) st(1)] .
  obtain p2 where p2: "pipeline_steps works (room start) (max_batch rt) ?p1 p2" "pi_read p2 = pi_read ?p1"
      "represents works start p2 (rt2, w2)"
    using flush_represents [OF e1(1) r1 works(1) st(2), of "room start"] n by auto
  obtain p3 where p3: "pipeline_steps works (room start) (max_batch rt) p2 p3" "pi_read p3 = pi_read p2"
      "represents works start p3 (rt3, w3)"
    using retry_represents [OF e2(1) p2(3) works(2) st(3), of "room start"] n by auto
  have "pipeline_steps works (room start) (max_batch rt) p p3"
    using take_all_steps p2(1) p3(1) by (meson rtranclp_trans)
  then show ?thesis using p2(2) p3(2,3) st(4) by (intro exI [of _ p3]) simp
qed

section \<open>Runs\<close>

inductive run :: "runtime \<Rightarrow> stored_sample list \<Rightarrow> runtime \<Rightarrow> bool" for start where
  \<comment> \<open>the calls of the service loop, with the time that passes between them, and the samples read\<close>
  run_start: "run start [] start"
| run_wait: "run start xs (rt, w) \<Longrightarrow> run start xs (rt, w\<lparr>w_steady_n := n, w_system_n := m\<rparr>)"
| run_tick: "run start xs s \<Longrightarrow> tick s = Some (Done s') \<Longrightarrow> run start (xs @ tick_samples s) s'"
| run_wake: "run start xs s \<Longrightarrow> next_wake s = (wake, s') \<Longrightarrow> run start xs s'"

definition running :: "bool \<Rightarrow> runtime \<Rightarrow> pipeline \<Rightarrow> runtime \<Rightarrow> bool" where
  "running works start p s \<longleftrightarrow> runtime_wf s \<and> wf_scheduler (rt_scheduler (fst s)) \<and>
     max_batch (fst s) = max_batch (fst start) \<and> (works \<longrightarrow> reliable s) \<and>
     rt_uploader (fst s) = rt_uploader (fst start) \<and> represents works start p s"

lemma running_wait: "running works start p (rt, w) \<Longrightarrow> running works start p (rt, w\<lparr>w_steady_n := n, w_system_n := m\<rparr>)"
proof -
  have "runtime_wf (rt, w\<lparr>w_steady_n := n, w_system_n := m\<rparr>) = runtime_wf (rt, w)" by (simp add: runtime_wf_def)
  moreover have "sent_log upl start (w\<lparr>w_steady_n := n, w_system_n := m\<rparr>) sent = sent_log upl start w sent" for upl sent
    by (rule sent_log_same) simp_all
  ultimately show "running works start p (rt, w) \<Longrightarrow> ?thesis" by (auto simp: running_def represents_def reliable_def)
qed

lemma running_wake:
  assumes "running works start p s" "next_wake s = (wake, s')"
  shows "running works start p s'"
proof -
  obtain rt w where s: "s = (rt, w)" by fastforce
  obtain n rt1 w1 where p: "store_pending (rt, w) = (n, rt1, w1)" by (metis surj_pair)
  have wf: "runtime_wf (rt, w)" "store_wf (rt_store rt, w)" using assms(1) s by (simp_all add: running_def runtime_wf_def)
  have e: "runtime_wf (rt1, w1)" "pipeline_frame (rt, w) (rt1, w1)" "w_posts w1 = w_posts w" "\<exists>ls. rt1 = rt\<lparr>rt_store := ls\<rparr>"
    using store_pending_effect [OF wf(1)] store_pending_world [OF wf(1) p] p by simp_all
  have rows: "store_rows (rt_store rt1, w1) = store_rows (rt_store rt, w)"
    using pending_count_wf(2) [OF wf(2)] p by (auto simp: store_pending_def split: prod.splits)
  have "running works start p (rt1, w1)"
    using assms(1) s e rows sent_log_same [OF e(3), where start = start]
    by (auto simp: running_def represents_def reliable_def pipeline_frame_def max_batch_def)
  moreover have "s' = (rt, w) \<or> s' = (rt1, w1)"
    using assms(2) s p by (auto simp: next_wake_def Let_def split: if_splits option.splits)
  ultimately show ?thesis using assms(1) s by auto
qed

lemma running_tick:
  assumes "running works start p s" "tick s = Some (Done s')"
  shows "\<exists>p'. pipeline_steps works (room start) (max_batch (fst start)) p p' \<and>
    pi_read p' = pi_read p @ tick_samples s \<and> running works start p' s'"
proof -
  obtain rt w rt' w' where s: "s = (rt, w)" "s' = (rt', w')" by (metis surj_pair)
  have r: "runtime_wf (rt, w)" "wf_scheduler (rt_scheduler rt)" "represents works start p (rt, w)" "works \<longrightarrow> reliable (rt, w)"
    "max_batch rt = max_batch (fst start)" "rt_uploader rt = rt_uploader (fst start)"
    using assms(1) s by (simp_all add: running_def)
  have t: "tick (rt, w) = Some (Done (rt', w'))" using assms(2) s by simp
  have "runtime_wf (rt', w')" using tick_effect [OF r(1) t] by simp
  then show ?thesis
    using tick_represents [OF r(1-4) t] tick_frame [OF r(1,2) t] r(4-6) s
    by (auto simp: running_def reliable_def max_batch_def)
qed

lemma run_running:
  assumes "run start xs s" "runtime_wf start" "wf_scheduler (rt_scheduler (fst start))" "rt_buffer (fst start) \<noteq> None"
    and "works \<longrightarrow> reliable start"
  shows "\<exists>p. pipeline_steps works (room start) (max_batch (fst start)) (open_account start) p \<and> pi_read p = xs \<and>
    running works start p s"
  using assms(1)
proof induction
  case run_start
  have "running works start (open_account start) start"
    using assms(2-5) represents_open_account by (simp add: running_def)
  then show ?case by (intro exI [of _ "open_account start"]) (simp add: open_account_def)
next
  case run_wait
  then show ?case using running_wait by blast
next
  case (run_tick xs s s')
  then show ?case using running_tick by (metis rtranclp_trans)
next
  case run_wake
  then show ?case using running_wake by blast
qed

section \<open>Examples\<close>

lemma ex_runtime_ready:
  "rt_buffer (fst ex_runtime) \<noteq> None" "reliable ex_runtime" "store_rows (rt_store (fst ex_runtime), snd ex_runtime) = []"
  "length (tick_samples ex_runtime) = 1" "\<forall>x \<in> set (tick_samples ex_runtime). ss_value x \<noteq> NaN"
  "\<forall>rb. rt_buffer (fst ex_runtime) = Some rb \<longrightarrow> contents rb = []"
proof -
  have "case ex_runtime of (rt, w) \<Rightarrow> rt_buffer rt \<noteq> None \<and> rt_store_open rt \<and> store_rows (rt_store rt, w) = [] \<and>
      (case rt_buffer rt of None \<Rightarrow> False | Some rb \<Rightarrow> rb_size rb = 0) \<and>
      length (tick_samples (rt, w)) = 1 \<and> list_all (\<lambda>x. ss_value x \<noteq> NaN) (tick_samples (rt, w))" by code_simp
  then have e: "rt_buffer (fst ex_runtime) \<noteq> None" "rt_store_open (fst ex_runtime)"
      "store_rows (rt_store (fst ex_runtime), snd ex_runtime) = []" "length (tick_samples ex_runtime) = 1"
      "case rt_buffer (fst ex_runtime) of None \<Rightarrow> False | Some rb \<Rightarrow> rb_size rb = 0"
      "list_all (\<lambda>x. ss_value x \<noteq> NaN) (tick_samples ex_runtime)"
    by (simp_all add: case_prod_beta)
  have "w_sqlite (snd ex_runtime) = ref_sqlite (\<lambda>_. None)"
    using ex_runtime_net by (simp add: same_net_def ex_down_def ex_world_def)
  then show "reliable ex_runtime" using e(2) by (simp add: reliable_def ref_store_works)
  show "\<forall>rb. rt_buffer (fst ex_runtime) = Some rb \<longrightarrow> contents rb = []"
  proof (intro allI impI)
    fix rb assume "rt_buffer (fst ex_runtime) = Some rb"
    then have "rb_size rb = 0" using e(5) by simp
    then show "contents rb = []" by (metis length_0_conv length_contents)
  qed
  show "rt_buffer (fst ex_runtime) \<noteq> None" "store_rows (rt_store (fst ex_runtime), snd ex_runtime) = []"
    "length (tick_samples ex_runtime) = 1" "\<forall>x \<in> set (tick_samples ex_runtime). ss_value x \<noteq> NaN"
    using e by (simp_all add: list.pred_set)
qed

lemma ex_runtime_ticks: "\<exists>s. tick ex_runtime = Some (Done s)"
  using tick_completes [of "fst ex_runtime" "snd ex_runtime"] ex_runtime_wf ex_runtime_schedule ex_runtime_dump by auto

section \<open>Properties\<close>

text \<open>
  C2: Each call of \<open>tick\<close> is a sequence of steps of the abstract pipeline: it takes in exactly the
  samples that the due channels' drivers deliver, in their order, and then sends at most batches of
  \<open>max_batch_size\<close>. Buffer, offline store, drop counter and the requests with the server's verdicts stay
  those of the abstract state; with a database that works the abstract steps are those of a store that
  keeps every batch and forgets every accepted one, and the counter of accepted uploads is exact.
\<close>

theorem tick_refines_pipeline:
  assumes "runtime_wf (rt, w)" "wf_scheduler (rt_scheduler rt)" "represents works start p (rt, w)"
    and "works \<longrightarrow> reliable (rt, w)" "tick (rt, w) = Some (Done s')"
  shows "\<exists>p'. pipeline_steps works (room start) (max_batch rt) p p' \<and>
    pi_read p' = pi_read p @ tick_samples (rt, w) \<and> represents works start p' s'"
  using tick_represents [OF assms] .

theorem tick_refines_pipeline_witness:
  "\<exists>s p. tick ex_runtime = Some (Done s) \<and> length (pi_read p) = 1 \<and> represents True ex_runtime p s"
proof -
  obtain s where t: "tick (fst ex_runtime, snd ex_runtime) = Some (Done s)" using ex_runtime_ticks by auto
  have "runtime_wf (fst ex_runtime, snd ex_runtime)" "True \<longrightarrow> reliable (fst ex_runtime, snd ex_runtime)"
    "represents True ex_runtime (open_account ex_runtime) (fst ex_runtime, snd ex_runtime)"
    using ex_runtime_wf ex_runtime_ready represents_open_account by simp_all
  from tick_refines_pipeline [OF this(1) ex_runtime_schedule this(3,2) t] obtain p where
    "pi_read p = tick_samples ex_runtime" "represents True ex_runtime p s" by (auto simp: open_account_def)
  then show ?thesis using t ex_runtime_ready(4) by (intro exI [of _ s] exI [of _ p]) simp
qed

text \<open>
  C1: Every sample is accounted for. Take any sequence of calls of \<open>tick\<close> and \<open>next_wake\<close> with any time
  between them. What was in the buffer and in the offline store at the beginning, and every sample
  the drivers delivered, is now in the buffer, in the offline store, in a batch the server accepted or
  in a fresh batch it refused; or the buffer dropped it, which its counter shows; or the store failed
  to write it. No sample appears from nowhere, and none twice but those that the store failed to
  delete after they were accepted. While the database works and no value is NaN, the store neither
  loses nor repeats anything, and the counter of accepted uploads is the number of accepted batches.
\<close>

theorem samples_accounted_for:
  assumes "run start xs s" "runtime_wf start" "wf_scheduler (rt_scheduler (fst start))"
    and "rt_buffer (fst start) = Some rb0"
  shows "\<exists>rb sent dropped lost again. rt_buffer (fst s) = Some rb \<and>
    sent_log (rt_uploader (fst start)) start (snd s) sent \<and>
    ring_drop_count rb = ring_drop_count rb0 + size dropped \<and>
    mset (map saved_sample (contents rb0)) + mset (map snd (store_rows (rt_store (fst start), snd start))) +
      mset (map saved_sample xs) + again =
    mset (map saved_sample (contents rb)) + mset (map snd (store_rows (rt_store (fst s), snd s))) +
      delivered sent + refused sent + image_mset saved_sample dropped + image_mset saved_sample lost \<and>
    (reliable start \<and> (\<forall>x \<in> set (contents rb0) \<union> set xs. ss_value x \<noteq> NaN) \<longrightarrow>
       lost = {#} \<and> again = {#} \<and>
       rt_accepted_upload_count (fst s) = rt_accepted_upload_count (fst start) + accepted sent)"
proof -
  let ?works = "reliable start"
  have "rt_buffer (fst start) \<noteq> None" using assms(4) by simp
  then obtain p where p: "pipeline_steps ?works (room start) (max_batch (fst start)) (open_account start) p"
      "pi_read p = xs" "running ?works start p s"
    using run_running [OF assms(1-3), of ?works] by blast
  let ?start = "in_flight (open_account start)"
  have start: "?start = mset (map saved_sample (contents rb0)) + mset (map snd (store_rows (rt_store (fst start), snd start)))"
    using assms(4) by (simp add: in_flight_def open_account_def)
  have "balanced ?start (open_account start)" by (simp add: balanced_def accounted_def open_account_def)
  from balanced_steps [OF p(1) this] have bal: "balanced ?start p" .
  have exact: "pi_lost p = {#} \<and> pi_again p = {#}" if "?works" "\<forall>x \<in> set (contents rb0) \<union> set xs. ss_value x \<noteq> NaN"
    using intact_steps [of "room start" "max_batch (fst start)" "open_account start" p] p(1,2) that assms(4)
    by (simp add: intact_def open_account_def)
  have rep: "represents ?works start p s" "rt_uploader (fst s) = rt_uploader (fst start)"
    using p(3) by (simp_all add: running_def)
  then obtain rb where rb: "rt_buffer (fst s) = Some rb" "contents rb = pi_buffer p"
      "ring_drop_count rb = ring_drop_count rb0 + size (pi_dropped p)"
    using assms(4) by (auto simp: represents_def drops_def ring_drop_count_def)
  have offline: "map snd (store_rows (rt_store (fst s), snd s)) = pi_offline p"
    and log: "sent_log (rt_uploader (fst start)) start (snd s) (pi_sent p)"
    and count: "?works \<longrightarrow> rt_accepted_upload_count (fst s) = rt_accepted_upload_count (fst start) + accepted (pi_sent p)"
    using rep by (simp_all add: represents_def)
  have sum: "mset (map saved_sample (contents rb0)) + mset (map snd (store_rows (rt_store (fst start), snd start))) +
      mset (map saved_sample xs) + pi_again p =
    mset (map saved_sample (contents rb)) + mset (map snd (store_rows (rt_store (fst s), snd s))) +
      delivered (pi_sent p) + refused (pi_sent p) + image_mset saved_sample (pi_dropped p) +
      image_mset saved_sample (pi_lost p)"
    using bal unfolding balanced_def accounted_def start p(2) in_flight_def [of p] rb(2) offline .
  show ?thesis using rb(1,3) log sum exact count by blast
qed

theorem samples_accounted_for_witness:
  "\<exists>s rb sent dropped. run ex_runtime (tick_samples ex_runtime) s \<and> rt_buffer (fst s) = Some rb \<and>
     ring_drop_count rb = size dropped + drops ex_runtime \<and> length (tick_samples ex_runtime) = 1 \<and>
     mset (map saved_sample (tick_samples ex_runtime)) =
       mset (map saved_sample (contents rb)) + mset (map snd (store_rows (rt_store (fst s), snd s))) +
       delivered sent + refused sent + image_mset saved_sample dropped"
proof -
  obtain s where "tick ex_runtime = Some (Done s)" using ex_runtime_ticks by blast
  from run_tick [OF run_start this] have r: "run ex_runtime (tick_samples ex_runtime) s" by simp
  obtain rb0 where rb0: "rt_buffer (fst ex_runtime) = Some rb0" "contents rb0 = []"
    using ex_runtime_ready(1,6) by auto
  from samples_accounted_for [OF r ex_runtime_wf ex_runtime_schedule rb0(1)] obtain rb sent dropped where
    a: "rt_buffer (fst s) = Some rb" "ring_drop_count rb = ring_drop_count rb0 + size dropped"
      "mset (map saved_sample (tick_samples ex_runtime)) =
       mset (map saved_sample (contents rb)) + mset (map snd (store_rows (rt_store (fst s), snd s))) +
       delivered sent + refused sent + image_mset saved_sample dropped"
    using rb0(2) ex_runtime_ready(2,3,5) by auto
  have "ring_drop_count rb0 = drops ex_runtime" using rb0(1) by (simp add: drops_def ring_drop_count_def)
  then show ?thesis using r a ex_runtime_ready(4) by (metis add.commute)
qed

end
