(* ===== verification/Service.thy ===== *)
theory Service
  imports Prelude
begin

text \<open>
  The daemon service, \<open>src/core/service.cpp\<close>: the two flags the signal handler sets, the start-up
  (detaching from the terminal, installing the handlers) and the main loop. The thread is a state
  machine with one step for every access to a flag and every virtual call, so that a signal can
  arrive between any two of them. The operating system's answers and the two virtual functions of
  the derived class are parameters.
\<close>

section \<open>Flags and signals\<close>

datatype signal = SIGTERM | SIGINT | SIGHUP | OtherSignal int

record service_flags =
  g_running :: int
  g_reload :: int

fun signal_handler :: "signal \<Rightarrow> service_flags \<Rightarrow> service_flags" where
  "signal_handler SIGTERM fl = fl\<lparr>g_running := 0\<rparr>"
| "signal_handler SIGINT fl = fl\<lparr>g_running := 0\<rparr>"
| "signal_handler SIGHUP fl = fl\<lparr>g_reload := 1\<rparr>"
| "signal_handler (OtherSignal _) fl = fl"

definition request_stop :: "service_flags \<Rightarrow> service_flags" where
  "request_stop fl = fl\<lparr>g_running := 0\<rparr>"

definition request_reload :: "service_flags \<Rightarrow> service_flags" where
  "request_reload fl = fl\<lparr>g_reload := 1\<rparr>"

definition is_running :: "service_flags \<Rightarrow> bool" where
  "is_running fl \<longleftrightarrow> g_running fl \<noteq> 0"

definition is_reload_requested :: "service_flags \<Rightarrow> bool" where
  "is_reload_requested fl \<longleftrightarrow> g_reload fl \<noteq> 0"

section \<open>The process\<close>

text \<open>
  What the start-up changes: the file each descriptor refers to, the working directory, the file
  mode mask, the session, the signals that have the handler, and what went to standard error.
\<close>

record process =
  pr_files :: "int \<rightharpoonup> string"
  pr_directory :: string
  pr_umask :: int
  pr_session_leader :: bool
  pr_handled :: "signal list"
  pr_stderr :: "string list"
  pr_logging :: bool

record posix =
  px_fork :: int
  px_setsid :: int
  px_chdir :: "string \<Rightarrow> int"
  px_open :: "(int \<rightharpoonup> string) \<Rightarrow> string \<Rightarrow> int"
  px_dup2 :: "int \<Rightarrow> int \<Rightarrow> int"
  px_sigaction :: "signal \<Rightarrow> int"

definition EXIT_SUCCESS :: int where "EXIT_SUCCESS = 0"
definition EXIT_FAILURE :: int where "EXIT_FAILURE = 1"

definition print_error :: "string \<Rightarrow> process \<Rightarrow> process" where
  "print_error message p = p\<lparr>pr_stderr := pr_stderr p @ [message]\<rparr>"

definition open_logging :: "process \<Rightarrow> process" where
  "open_logging p = p\<lparr>pr_logging := True\<rparr>"

definition close_fd :: "int \<Rightarrow> process \<Rightarrow> process" where
  "close_fd fd p = p\<lparr>pr_files := (pr_files p)(fd := None)\<rparr>"

fun dup2_all :: "posix \<Rightarrow> int \<Rightarrow> int list \<Rightarrow> process \<Rightarrow> bool \<times> process" where
  \<comment> \<open>\<open>dup2\<close> onto one descriptor after the other, up to the first failure\<close>
  "dup2_all px fd [] p = (True, p)"
| "dup2_all px fd (target # targets) p =
     (if px_dup2 px fd target < 0 then (False, p)
      else dup2_all px fd targets (p\<lparr>pr_files := (pr_files p)(target := pr_files p fd)\<rparr>))"

definition redirect_stdio :: "posix \<Rightarrow> process \<Rightarrow> int option \<times> process" where
  \<comment> \<open>close the three standard streams and open them on \<open>/dev/null\<close>\<close>
  "redirect_stdio px p =
     (let p = close_fd 2 (close_fd 1 (close_fd 0 p));
          null_fd = px_open px (pr_files p) ''/dev/null''
      in if null_fd < 0 then (Some EXIT_FAILURE, p)
         else (let p = p\<lparr>pr_files := (pr_files p)(null_fd \<mapsto> ''/dev/null'')\<rparr>;
                   (ok, p) = dup2_all px null_fd [0, 1, 2] p
               in if \<not> ok then (Some EXIT_FAILURE, close_fd null_fd p)
                  else (None, open_logging (if 2 < null_fd then close_fd null_fd p else p))))"

definition daemonize :: "posix \<Rightarrow> string \<Rightarrow> process \<Rightarrow> int option \<times> process" where
  \<comment> \<open>the exit code if the process ends here, which the parent does\<close>
  "daemonize px name p =
     (if px_fork px < 0 then (Some EXIT_FAILURE, print_error (name @ '': fork failed'') p)
      else if 0 < px_fork px then (Some EXIT_SUCCESS, p)
      else (let p = p\<lparr>pr_umask := 0\<rparr> in
        if px_setsid px < 0 then (Some EXIT_FAILURE, print_error (name @ '': setsid failed'') p)
        else (let p = p\<lparr>pr_session_leader := True\<rparr> in
          if px_chdir px ''/'' < 0 then (Some EXIT_FAILURE, print_error (name @ '': chdir failed'') p)
          else redirect_stdio px (p\<lparr>pr_directory := ''/''\<rparr>))))"

section \<open>The service thread\<close>

text \<open>The outcome of a virtual call: it returns, it throws, or it never returns.\<close>

datatype 's call_outcome = Returned 's | Threw cpp_exn | NoReturn

datatype service_pc =
    SvFlags                       \<comment> \<open>\<open>start\<close> entered: \<open>g_running\<close> is about to be raised\<close>
  | SvResetReload                 \<comment> \<open>about to lower \<open>g_reload\<close>\<close>
  | SvDetach
  | SvInstall "signal list"
  | SvWhile                       \<comment> \<open>about to test \<open>g_running\<close>\<close>
  | SvCheckReload                 \<comment> \<open>about to test \<open>g_reload\<close>\<close>
  | SvClearReload
  | SvReload
  | SvLoop
  | SvExited int
  | SvThrown cpp_exn
  | SvStuck
  | SvKilled signal

datatype virtual_call = CallReload | CallLoop

record 's service =
  sv_pc :: service_pc
  sv_flags :: service_flags
  sv_process :: process
  sv_self :: 's                   \<comment> \<open>the members of the derived class and what they refer to\<close>
  sv_calls :: "virtual_call list" \<comment> \<open>the virtual calls begun so far\<close>

record 's service_class =
  sc_name :: string
  sc_foreground :: bool
  sc_reload :: "'s \<Rightarrow> 's call_outcome"
  sc_loop :: "'s \<Rightarrow> 's call_outcome"

definition base_reload :: "'s \<Rightarrow> 's call_outcome" where
  \<comment> \<open>\<open>Service::reload\<close>, for a service that does not override it: a log entry\<close>
  "base_reload s = Returned s"

definition after_call :: "virtual_call \<Rightarrow> 's call_outcome \<Rightarrow> service_pc \<Rightarrow> 's service \<Rightarrow> 's service" where
  "after_call call result next_pc s =
     (let s = s\<lparr>sv_calls := sv_calls s @ [call]\<rparr> in
      case result of
        Returned self' \<Rightarrow> s\<lparr>sv_self := self', sv_pc := next_pc\<rparr>
      | Threw e \<Rightarrow> s\<lparr>sv_pc := SvThrown e\<rparr>
      | NoReturn \<Rightarrow> s\<lparr>sv_pc := SvStuck\<rparr>)"

definition close_log :: "process \<Rightarrow> process" where
  "close_log p = p\<lparr>pr_logging := False\<rparr>"

fun start_from :: "posix \<Rightarrow> 's service_class \<Rightarrow> service_pc \<Rightarrow> 's service \<Rightarrow> 's service" where
  \<comment> \<open>one step of \<open>start\<close> at the given point\<close>
  "start_from px c SvFlags s = s\<lparr>sv_flags := (sv_flags s)\<lparr>g_running := 1\<rparr>, sv_pc := SvResetReload\<rparr>"
| "start_from px c SvResetReload s = s\<lparr>sv_flags := (sv_flags s)\<lparr>g_reload := 0\<rparr>, sv_pc := SvDetach\<rparr>"
| "start_from px c SvDetach s =
     (if \<not> sc_foreground c
      then (case daemonize px (sc_name c) (sv_process s) of
              (Some code, p) \<Rightarrow> s\<lparr>sv_process := p, sv_pc := SvExited code\<rparr>
            | (None, p) \<Rightarrow> s\<lparr>sv_process := p, sv_pc := SvInstall [SIGTERM, SIGINT, SIGHUP]\<rparr>)
      else s\<lparr>sv_process := open_logging (sv_process s), sv_pc := SvInstall [SIGTERM, SIGINT, SIGHUP]\<rparr>)"
| "start_from px c (SvInstall []) s = s\<lparr>sv_pc := SvWhile\<rparr>"
| "start_from px c (SvInstall (sig # sigs)) s =
     (if px_sigaction px sig < 0
      then s\<lparr>sv_process := close_log (sv_process s), sv_pc := SvExited EXIT_FAILURE\<rparr>
      else s\<lparr>sv_process := (sv_process s)\<lparr>pr_handled := sig # pr_handled (sv_process s)\<rparr>,
             sv_pc := SvInstall sigs\<rparr>)"
| "start_from px c SvWhile s =
     (if g_running (sv_flags s) \<noteq> 0 then s\<lparr>sv_pc := SvCheckReload\<rparr>
      else s\<lparr>sv_process := close_log (sv_process s), sv_pc := SvExited EXIT_SUCCESS\<rparr>)"
| "start_from px c SvCheckReload s =
     (if g_reload (sv_flags s) = 0 then s\<lparr>sv_pc := SvLoop\<rparr> else s\<lparr>sv_pc := SvClearReload\<rparr>)"
| "start_from px c SvClearReload s = s\<lparr>sv_flags := (sv_flags s)\<lparr>g_reload := 0\<rparr>, sv_pc := SvReload\<rparr>"
| "start_from px c SvReload s = after_call CallReload (sc_reload c (sv_self s)) SvLoop s"
| "start_from px c SvLoop s = after_call CallLoop (sc_loop c (sv_self s)) SvWhile s"
| "start_from px c _ s = s"

definition service_step :: "posix \<Rightarrow> 's service_class \<Rightarrow> 's service \<Rightarrow> 's service" where
  "service_step px c s = start_from px c (sv_pc s) s"

fun ended :: "service_pc \<Rightarrow> bool" where
  "ended (SvExited _) = True"
| "ended (SvThrown _) = True"
| "ended (SvKilled _) = True"
| "ended _ = False"

definition deliver :: "signal \<Rightarrow> 's service \<Rightarrow> 's service" where
  \<comment> \<open>a signal without the handler has its default action, which ends the process\<close>
  "deliver sig s =
     (if ended (sv_pc s) then s
      else if sig \<in> set (pr_handled (sv_process s)) then s\<lparr>sv_flags := signal_handler sig (sv_flags s)\<rparr>
      else s\<lparr>sv_pc := SvKilled sig\<rparr>)"

text \<open>What can happen next: the thread moves on, a signal arrives, another thread calls a request function.\<close>

datatype service_event = Thread | Signal signal | RequestStop | RequestReload

fun happen :: "posix \<Rightarrow> 's service_class \<Rightarrow> service_event \<Rightarrow> 's service \<Rightarrow> 's service" where
  "happen px c Thread s = service_step px c s"
| "happen px c (Signal sig) s = deliver sig s"
| "happen px c RequestStop s = (if ended (sv_pc s) then s else s\<lparr>sv_flags := request_stop (sv_flags s)\<rparr>)"
| "happen px c RequestReload s = (if ended (sv_pc s) then s else s\<lparr>sv_flags := request_reload (sv_flags s)\<rparr>)"

definition run_service :: "posix \<Rightarrow> 's service_class \<Rightarrow> service_event list \<Rightarrow> 's service \<Rightarrow> 's service" where
  "run_service px c events s = fold (happen px c) events s"

definition service_new :: "service_flags \<Rightarrow> process \<Rightarrow> 's \<Rightarrow> 's service" where
  \<comment> \<open>\<open>start\<close> is called on an object, the flags whatever an earlier run or request left\<close>
  "service_new fl p self = \<lparr>sv_pc = SvFlags, sv_flags = fl, sv_process = p, sv_self = self, sv_calls = []\<rparr>"

inductive service_reach :: "posix \<Rightarrow> 's service_class \<Rightarrow> 's service \<Rightarrow> 's service \<Rightarrow> bool"
  for px :: posix and c :: "'s service_class" and s0 :: "'s service"
where
  start: "service_reach px c s0 s0"
| event: "service_reach px c s0 s \<Longrightarrow> service_reach px c s0 (happen px c e s)"

lemma run_service_simps [simp]:
  "run_service px c [] s = s"
  "run_service px c (e # events) s = run_service px c events (happen px c e s)"
  "run_service px c (events @ events') s = run_service px c events' (run_service px c events s)"
  by (simp_all add: run_service_def)

lemma reach_run: "service_reach px c s0 s \<Longrightarrow> service_reach px c s0 (run_service px c events s)"
  by (induction events arbitrary: s) (simp_all add: service_reach.event)

lemma reach_iff_run: "service_reach px c s0 s \<longleftrightarrow> (\<exists>events. s = run_service px c events s0)"
proof
  assume "service_reach px c s0 s"
  then show "\<exists>events. s = run_service px c events s0"
  proof induction
    case start
    show ?case by (rule exI [of _ "[]"]) simp
  next
    case (event s e)
    then obtain events where "s = run_service px c events s0" by blast
    then show ?case by (intro exI [of _ "events @ [e]"]) simp
  qed
qed (use reach_run service_reach.start in blast)

section \<open>What a derived class may rely on\<close>

text \<open>
  The contract of the two virtual functions: an invariant of the derived object that both keep holds
  in every state the service can reach, whatever signals arrive.
\<close>

locale service_body =
  fixes c :: "'s service_class"
    and invar :: "'s \<Rightarrow> bool"
  assumes reload_keeps: "invar self \<Longrightarrow> sc_reload c self = Returned self' \<Longrightarrow> invar self'"
    and loop_keeps: "invar self \<Longrightarrow> sc_loop c self = Returned self' \<Longrightarrow> invar self'"
begin

lemma after_call_keeps:
  "(\<And>self'. result = Returned self' \<Longrightarrow> invar self') \<Longrightarrow> invar (sv_self s) \<Longrightarrow>
   invar (sv_self (after_call call result next_pc s))"
  by (cases result) (simp_all add: after_call_def Let_def)

lemma step_keeps: "invar (sv_self s) \<Longrightarrow> invar (sv_self (service_step px c s))"
  unfolding service_step_def
  by (cases "(px, c, sv_pc s, s)" rule: start_from.cases)
     (auto split: prod.split option.split intro!: after_call_keeps intro: reload_keeps loop_keeps)

lemma happen_keeps: "invar (sv_self s) \<Longrightarrow> invar (sv_self (happen px c e s))"
  by (cases e) (simp_all add: step_keeps deliver_def)

lemma reach_keeps: "service_reach px c s0 s \<Longrightarrow> invar (sv_self s0) \<Longrightarrow> invar (sv_self s)"
  by (induction rule: service_reach.induct) (simp_all add: happen_keeps)

end

section \<open>The loop\<close>

definition fatal_signals :: "signal set" where
  "fatal_signals = {SIGTERM, SIGINT, SIGHUP}"

definition handlers_installed :: "process \<Rightarrow> bool" where
  "handlers_installed p \<longleftrightarrow> fatal_signals \<subseteq> set (pr_handled p)"

fun looping :: "service_pc \<Rightarrow> bool" where
  "looping SvWhile = True"
| "looping SvCheckReload = True"
| "looping SvClearReload = True"
| "looping SvReload = True"
| "looping SvLoop = True"
| "looping _ = False"

definition in_loop :: "'s service \<Rightarrow> bool" where
  "in_loop s \<longleftrightarrow> looping (sv_pc s) \<and> handlers_installed (sv_process s)"

fun ours :: "service_event \<Rightarrow> bool" where
  \<comment> \<open>the events of the model: no signal but the three the service handles\<close>
  "ours (Signal sig) = (sig \<in> fatal_signals)"
| "ours _ = True"

lemma looping_cases:
  assumes "looping pc"
  obtains "pc = SvWhile" | "pc = SvCheckReload" | "pc = SvClearReload" | "pc = SvReload" | "pc = SvLoop"
  using assms by (cases pc) simp_all

lemma looping_not_ended [simp]: "looping pc \<Longrightarrow> \<not> ended pc"
  by (cases pc) simp_all

text \<open>Whatever is not a step of the thread only sets flags while the service is in its loop.\<close>

lemma happen_in_loop:
  assumes "in_loop s" "ours e" "e \<noteq> Thread"
  shows "\<exists>fl. happen px c e s = s\<lparr>sv_flags := fl\<rparr> \<and>
     (g_running (sv_flags s) = 0 \<longrightarrow> g_running fl = 0) \<and> (g_reload (sv_flags s) \<noteq> 0 \<longrightarrow> g_reload fl \<noteq> 0)"
proof (cases e)
  case (Signal sig)
  then show ?thesis using assms
    by (cases sig) (auto simp: in_loop_def handlers_installed_def fatal_signals_def deliver_def)
qed (use assms in \<open>auto simp: in_loop_def request_stop_def request_reload_def\<close>)

lemma after_call_simps [simp]:
  "sv_flags (after_call call result next_pc s) = sv_flags s"
  "sv_process (after_call call result next_pc s) = sv_process s"
  "sv_calls (after_call call result next_pc s) = sv_calls s @ [call]"
  "sv_pc (after_call call result next_pc s) =
     (case result of Returned _ \<Rightarrow> next_pc | Threw e \<Rightarrow> SvThrown e | NoReturn \<Rightarrow> SvStuck)"
  by (cases result; simp add: after_call_def)+

fun finished :: "service_pc \<Rightarrow> bool" where
  \<comment> \<open>the loop is over: a clean exit, an exception, or a virtual call that does not return\<close>
  "finished (SvExited code) = (code = EXIT_SUCCESS)"
| "finished (SvThrown _) = True"
| "finished SvStuck = True"
| "finished _ = False"

lemma finished_stays:
  assumes "finished (sv_pc s)" "handlers_installed (sv_process s)" "ours e"
  shows "sv_pc (happen px c e s) = sv_pc s \<and> sv_process (happen px c e s) = sv_process s \<and>
         sv_calls (happen px c e s) = sv_calls s"
proof (cases e)
  case Thread
  then show ?thesis using assms by (cases "sv_pc s") (simp_all add: service_step_def)
qed (use assms in \<open>auto simp: deliver_def handlers_installed_def\<close>)

lemma finished_run:
  "finished (sv_pc s) \<Longrightarrow> handlers_installed (sv_process s) \<Longrightarrow> list_all ours events \<Longrightarrow>
   sv_pc (run_service px c events s) = sv_pc s \<and> sv_calls (run_service px c events s) = sv_calls s"
proof (induction events arbitrary: s)
  case (Cons e events)
  then show ?case using finished_stays [of s e px c] by (simp del: happen.simps)
qed simp

fun steps_to_exit :: "service_pc \<Rightarrow> nat" where
  "steps_to_exit SvCheckReload = 5"
| "steps_to_exit SvClearReload = 4"
| "steps_to_exit SvReload = 3"
| "steps_to_exit SvLoop = 2"
| "steps_to_exit SvWhile = 1"
| "steps_to_exit _ = 0"

fun calls_to_exit :: "service_pc \<Rightarrow> nat" where
  "calls_to_exit SvCheckReload = 2"
| "calls_to_exit SvClearReload = 2"
| "calls_to_exit SvReload = 2"
| "calls_to_exit SvLoop = 1"
| "calls_to_exit _ = 0"

text \<open>One step of the thread when the service is to stop.\<close>

lemma stopping_step:
  fixes px :: posix and c :: "'s service_class" and s :: "'s service"
  assumes "in_loop s" "g_running (sv_flags s) = 0"
  defines "s' \<equiv> happen px c Thread s"
  shows "handlers_installed (sv_process s')" "g_running (sv_flags s') = 0"
    and "finished (sv_pc s') \<or> looping (sv_pc s') \<and> steps_to_exit (sv_pc s') < steps_to_exit (sv_pc s)"
    and "length (sv_calls s') + (if looping (sv_pc s') then calls_to_exit (sv_pc s') else 0)
           \<le> length (sv_calls s) + calls_to_exit (sv_pc s)"
  using assms
  by (auto simp: in_loop_def handlers_installed_def service_step_def close_log_def
      elim!: looping_cases split: call_outcome.splits)

lemma stopping_run:
  "in_loop s \<Longrightarrow> g_running (sv_flags s) = 0 \<Longrightarrow> list_all ours events \<Longrightarrow>
   steps_to_exit (sv_pc s) \<le> count_list events Thread \<Longrightarrow>
   finished (sv_pc (run_service px c events s)) \<and>
   length (sv_calls (run_service px c events s)) \<le> length (sv_calls s) + calls_to_exit (sv_pc s)"
proof (induction events arbitrary: s)
  case Nil
  then show ?case by (auto simp: in_loop_def elim: looping_cases)
next
  case (Cons e events)
  let ?s = "happen px c e s"
  show ?case
  proof (cases "e = Thread")
    case False
    with Cons.prems obtain fl where fl: "?s = s\<lparr>sv_flags := fl\<rparr>" "g_running fl = 0"
      using happen_in_loop [of s e px c] by auto
    moreover have "in_loop (s\<lparr>sv_flags := fl\<rparr>)" using Cons.prems(1) by (simp add: in_loop_def)
    ultimately show ?thesis using Cons.IH [of "s\<lparr>sv_flags := fl\<rparr>"] Cons.prems False
      by (simp del: happen.simps)
  next
    case True
    note st = stopping_step [OF Cons.prems(1,2), of px c]
    show ?thesis
    proof (cases "finished (sv_pc ?s)")
      case fin: True
      then have "\<not> looping (sv_pc ?s)" by (cases "sv_pc ?s") simp_all
      with fin show ?thesis using finished_run [OF fin, of events px c] st True Cons.prems(3)
        by (simp del: happen.simps)
    next
      case False
      then have l: "looping (sv_pc ?s)" "steps_to_exit (sv_pc ?s) < steps_to_exit (sv_pc s)"
        using st(3) True by simp_all
      then show ?thesis using Cons.IH [of ?s] st(1,2,4) True Cons.prems
        by (simp add: in_loop_def del: happen.simps)
    qed
  qed
qed

section \<open>Reload requests\<close>

fun steps_to_reload :: "service_pc \<Rightarrow> nat" where
  "steps_to_reload SvLoop = 5"
| "steps_to_reload SvWhile = 4"
| "steps_to_reload SvCheckReload = 3"
| "steps_to_reload SvClearReload = 2"
| "steps_to_reload SvReload = 1"
| "steps_to_reload _ = 0"

definition reload_due :: "'s service \<Rightarrow> bool" where
  \<comment> \<open>a request that no call of \<open>reload\<close> has answered yet\<close>
  "reload_due s \<longleftrightarrow> g_reload (sv_flags s) \<noteq> 0 \<or> sv_pc s = SvReload"

lemma step_keeps_loop:
  assumes "in_loop s" "looping (sv_pc (happen px c Thread s))"
  shows "in_loop (happen px c Thread s)"
  using assms by (auto simp: in_loop_def handlers_installed_def service_step_def close_log_def
      elim!: looping_cases split: if_splits)

lemma reload_due_step:
  fixes px :: posix and c :: "'s service_class" and s :: "'s service"
  assumes "in_loop s" "reload_due s"
  defines "s' \<equiv> happen px c Thread s"
  assumes "looping (sv_pc s')"
  shows "sv_calls s' = sv_calls s @ [CallReload] \<or>
         reload_due s' \<and> steps_to_reload (sv_pc s') < steps_to_reload (sv_pc s) \<and>
         (\<exists>cs. sv_calls s' = sv_calls s @ cs)"
  using assms
  by (auto simp: in_loop_def reload_due_def service_step_def elim!: looping_cases
      split: call_outcome.splits if_splits)

lemma calls_grow: "\<exists>cs. sv_calls (happen px c e s) = sv_calls s @ cs"
proof (cases e)
  case Thread
  show ?thesis unfolding Thread happen.simps service_step_def
    by (cases "(px, c, sv_pc s, s)" rule: start_from.cases) (auto split: prod.splits option.splits)
qed (auto simp: deliver_def)

lemma calls_grow_run: "\<exists>cs. sv_calls (run_service px c events s) = sv_calls s @ cs"
proof (induction events arbitrary: s)
  case (Cons e events)
  obtain cs where "sv_calls (happen px c e s) = sv_calls s @ cs" using calls_grow by blast
  with Cons.IH [of "happen px c e s"] show ?case by (auto simp del: happen.simps)
qed simp

lemma not_looping_step:
  "\<not> looping (sv_pc s) \<Longrightarrow> finished (sv_pc s) \<or> ended (sv_pc s) \<Longrightarrow>
   (finished (sv_pc (happen px c e s)) \<or> ended (sv_pc (happen px c e s))) \<and> \<not> looping (sv_pc (happen px c e s))"
  by (cases e; cases "sv_pc s") (auto simp: service_step_def deliver_def)

lemma not_looping_run:
  "\<not> looping (sv_pc s) \<Longrightarrow> finished (sv_pc s) \<or> ended (sv_pc s) \<Longrightarrow> \<not> looping (sv_pc (run_service px c events s))"
proof (induction events arbitrary: s)
  case (Cons e events)
  from not_looping_step [OF Cons.prems, of px c e] Cons.IH [of "happen px c e s"] show ?case
    by (simp del: happen.simps)
qed simp

lemma loop_left:
  assumes "in_loop s" "\<not> looping (sv_pc (happen px c Thread s))"
  shows "finished (sv_pc (happen px c Thread s)) \<or> ended (sv_pc (happen px c Thread s))"
  using assms by (auto simp: in_loop_def service_step_def elim!: looping_cases split: call_outcome.splits if_splits)

lemma reload_due_run:
  "in_loop s \<Longrightarrow> reload_due s \<Longrightarrow> list_all ours events \<Longrightarrow>
   steps_to_reload (sv_pc s) \<le> count_list events Thread \<Longrightarrow> looping (sv_pc (run_service px c events s)) \<Longrightarrow>
   \<exists>cs. sv_calls (run_service px c events s) = sv_calls s @ cs \<and> CallReload \<in> set cs"
proof (induction events arbitrary: s)
  case Nil
  then show ?case by (auto simp: in_loop_def elim: looping_cases)
next
  case (Cons e events)
  let ?s = "happen px c e s"
  show ?case
  proof (cases "e = Thread")
    case False
    with Cons.prems obtain fl where fl: "?s = s\<lparr>sv_flags := fl\<rparr>"
        "g_reload (sv_flags s) \<noteq> 0 \<longrightarrow> g_reload fl \<noteq> 0"
      using happen_in_loop [of s e px c] by auto
    then have "in_loop ?s" "reload_due ?s" using Cons.prems(1,2) by (auto simp: in_loop_def reload_due_def)
    then show ?thesis using Cons.IH [of ?s] Cons.prems False fl(1) by (simp del: happen.simps)
  next
    case True
    have l: "looping (sv_pc ?s)"
      using Cons.prems(1,5) loop_left [of s px c] not_looping_run [of ?s px c events] True
      by (auto simp del: happen.simps)
    note st = reload_due_step [OF Cons.prems(1,2), of px c]
    obtain cs where cs: "sv_calls (run_service px c events ?s) = sv_calls ?s @ cs"
      using calls_grow_run by blast
    show ?thesis
    proof (cases "sv_calls ?s = sv_calls s @ [CallReload]")
      case called: True
      then show ?thesis using cs by (simp del: happen.simps)
    next
      case False
      then obtain cs' where "reload_due ?s" "steps_to_reload (sv_pc ?s) < steps_to_reload (sv_pc s)"
          "sv_calls ?s = sv_calls s @ cs'"
        using st l True by (auto simp del: happen.simps)
      then show ?thesis using Cons.IH [of ?s] Cons.prems True l step_keeps_loop [of s px c]
        by (auto simp del: happen.simps)
    qed
  qed
qed

section \<open>Start-up\<close>

definition fresh_descriptors :: "posix \<Rightarrow> bool" where
  \<comment> \<open>what \<open>open\<close> promises: a descriptor that was not open\<close>
  "fresh_descriptors px \<longleftrightarrow> (\<forall>files path. 0 \<le> px_open px files path \<longrightarrow> files (px_open px files path) = None)"

definition detached :: "process \<Rightarrow> bool" where
  "detached p \<longleftrightarrow> pr_umask p = 0 \<and> pr_session_leader p \<and> pr_directory p = ''/'' \<and>
     (\<forall>fd \<in> {0, 1, 2}. pr_files p fd = Some ''/dev/null'')"

lemma dup2_stdio:
  "dup2_all px fd [0, 1, 2] p = (True, p') \<Longrightarrow>
   p' = p\<lparr>pr_files := (pr_files p)(0 := pr_files p fd, 1 := pr_files p fd, 2 := pr_files p fd)\<rparr>"
  by (auto split: if_splits)

lemma redirect_stdio_files:
  assumes "redirect_stdio px p = (None, p')" "fresh_descriptors px"
  shows "p' = p\<lparr>pr_files := (pr_files p)(0 \<mapsto> ''/dev/null'', 1 \<mapsto> ''/dev/null'', 2 \<mapsto> ''/dev/null''),
               pr_logging := True\<rparr>"
proof -
  let ?p = "close_fd 2 (close_fd 1 (close_fd 0 p))"
  define fd where "fd = px_open px (pr_files ?p) ''/dev/null''"
  obtain p1 where d: "\<not> fd < 0" "dup2_all px fd [0, 1, 2] (?p\<lparr>pr_files := (pr_files ?p)(fd \<mapsto> ''/dev/null'')\<rparr>) = (True, p1)"
      "p' = open_logging (if 2 < fd then close_fd fd p1 else p1)"
    using assms(1) by (auto simp: redirect_stdio_def Let_def fd_def simp del: dup2_all.simps split: prod.splits if_splits)
  have unused: "pr_files ?p fd = None"
    using assms(2) d(1) by (simp add: fresh_descriptors_def fd_def not_less)
  show ?thesis
  proof (cases "2 < fd")
    case True
    then have "pr_files p fd = None" using unused by (simp add: close_fd_def)
    with True dup2_stdio [OF d(2)] d(3) show ?thesis
      by (auto simp: open_logging_def close_fd_def fun_eq_iff)
  next
    case False
    then have "fd \<in> {0, 1, 2}" using d(1) by auto
    with False dup2_stdio [OF d(2)] d(3) show ?thesis
      by (auto simp: open_logging_def close_fd_def fun_eq_iff)
  qed
qed

lemma daemonize_continues:
  assumes "daemonize px name p = (None, p')" "fresh_descriptors px"
  shows "px_fork px = 0 \<and>
    p' = p\<lparr>pr_umask := 0, pr_session_leader := True, pr_directory := ''/'',
           pr_files := (pr_files p)(0 \<mapsto> ''/dev/null'', 1 \<mapsto> ''/dev/null'', 2 \<mapsto> ''/dev/null''),
           pr_logging := True\<rparr>"
  using assms redirect_stdio_files
  by (fastforce simp: daemonize_def Let_def split: if_splits)

fun started_up :: "service_pc \<Rightarrow> bool" where
  "started_up (SvInstall _) = True"
| "started_up pc = looping pc"

definition boot_invar :: "'s service_class \<Rightarrow> 's service \<Rightarrow> bool" where
  "boot_invar c s \<longleftrightarrow>
     (started_up (sv_pc s) \<longrightarrow> (sc_foreground c \<or> detached (sv_process s)) \<and> pr_logging (sv_process s)) \<and>
     (\<forall>sigs. sv_pc s = SvInstall sigs \<longrightarrow> fatal_signals \<subseteq> set sigs \<union> set (pr_handled (sv_process s))) \<and>
     (looping (sv_pc s) \<longrightarrow> handlers_installed (sv_process s))"

lemma boot_invar_step:
  assumes "boot_invar c s" "fresh_descriptors px"
  shows "boot_invar c (service_step px c s)"
proof (cases "sv_pc s = SvDetach")
  case True
  show ?thesis
  proof (cases "sc_foreground c")
    case fg: True
    with True show ?thesis
      by (simp add: boot_invar_def service_step_def fatal_signals_def open_logging_def)
  next
    case False
    obtain code p where d: "daemonize px (sc_name c) (sv_process s) = (code, p)" by fastforce
    show ?thesis
    proof (cases code)
      case None
      with daemonize_continues [of px "sc_name c" "sv_process s" p] d assms(2)
      have "detached p" "pr_logging p" by (simp_all add: detached_def)
      with True False d None show ?thesis
        by (simp add: boot_invar_def service_step_def fatal_signals_def)
    next
      case (Some x)
      with True False d show ?thesis by (simp add: boot_invar_def service_step_def)
    qed
  qed
next
  case False
  show ?thesis
    using assms False unfolding service_step_def
    by (cases "(px, c, sv_pc s, s)" rule: start_from.cases)
       (auto simp: boot_invar_def handlers_installed_def detached_def split: call_outcome.splits)
qed

lemma boot_invar_other:
  assumes "boot_invar c s" "e \<noteq> Thread"
  shows "boot_invar c (happen px c e s)"
  using assms by (cases e) (simp_all add: boot_invar_def deliver_def)

lemma boot_invar_reach:
  assumes "service_reach px c (service_new fl p self) s" "fresh_descriptors px"
  shows "boot_invar c s"
  using assms(1)
proof induction
  case start
  then show ?case by (simp add: boot_invar_def service_new_def)
next
  case (event s e)
  then show ?case using boot_invar_step [OF _ assms(2)] boot_invar_other by (cases "e = Thread") simp_all
qed

section \<open>A body that always returns\<close>

fun unharmed :: "service_pc \<Rightarrow> bool" where
  \<comment> \<open>no virtual call threw or hangs\<close>
  "unharmed (SvThrown _) = False"
| "unharmed SvStuck = False"
| "unharmed _ = True"

text \<open>The stronger contract: under the invariant both virtual functions return.\<close>

locale total_service_body = service_body +
  assumes reload_returns: "invar self \<Longrightarrow> \<exists>self'. sc_reload c self = Returned self'"
    and loop_returns: "invar self \<Longrightarrow> \<exists>self'. sc_loop c self = Returned self'"
begin

lemma after_call_unharmed:
  "\<exists>self'. result = Returned self' \<Longrightarrow> unharmed next_pc \<Longrightarrow> unharmed (sv_pc (after_call call result next_pc s))"
  by auto

lemma step_unharmed: "invar (sv_self s) \<Longrightarrow> unharmed (sv_pc s) \<Longrightarrow> unharmed (sv_pc (service_step px c s))"
  unfolding service_step_def
  by (cases "(px, c, sv_pc s, s)" rule: start_from.cases)
     (auto split: prod.split option.split simp del: after_call_simps
       intro!: after_call_unharmed reload_returns loop_returns)

lemma reach_unharmed:
  "service_reach px c s0 s \<Longrightarrow> invar (sv_self s0) \<Longrightarrow> unharmed (sv_pc s0) \<Longrightarrow> unharmed (sv_pc s)"
proof (induction rule: service_reach.induct)
  case (event s e)
  then have "invar (sv_self s)" using reach_keeps by blast
  then show ?case using event step_unharmed [of s px] by (cases e) (auto simp: deliver_def)
qed

lemma stops_cleanly:
  assumes "service_reach px c (service_new fl p self) s" "invar self" "fresh_descriptors px" "looping (sv_pc s)"
    and "g_running (sv_flags s) = 0" "list_all ours events" "5 \<le> count_list events Thread"
  shows "sv_pc (run_service px c events s) = SvExited EXIT_SUCCESS"
proof -
  have l: "in_loop s" using boot_invar_reach [OF assms(1,3)] assms(4) by (simp add: in_loop_def boot_invar_def)
  have "steps_to_exit (sv_pc s) \<le> 5" using assms(4) by (auto elim: looping_cases)
  then have "finished (sv_pc (run_service px c events s))"
    using stopping_run [OF l assms(5,6), of px c] assms(7) by linarith
  moreover have "unharmed (sv_pc (run_service px c events s))"
    using reach_unharmed [OF reach_run [OF assms(1)]] assms(2) by (simp add: service_new_def)
  ultimately show ?thesis by (cases "sv_pc (run_service px c events s)") simp_all
qed

end

section \<open>Counting reloads\<close>

fun asks_reload :: "service_event \<Rightarrow> bool" where
  "asks_reload (Signal sig) = (sig = SIGHUP)"
| "asks_reload RequestReload = True"
| "asks_reload _ = False"

definition reloads_owed :: "'s service \<Rightarrow> nat" where
  "reloads_owed s = (if sv_pc s \<noteq> SvFlags \<and> sv_pc s \<noteq> SvResetReload \<and> \<not> ended (sv_pc s) \<and> g_reload (sv_flags s) \<noteq> 0 then 1 else 0) +
                    (if sv_pc s = SvReload then 1 else 0)"

definition reload_balance :: "nat \<Rightarrow> 's service \<Rightarrow> bool" where
  "reload_balance n s \<longleftrightarrow> count_list (sv_calls s) CallReload + reloads_owed s \<le> n \<and>
     (sv_pc s = SvClearReload \<longrightarrow> g_reload (sv_flags s) \<noteq> 0)"

lemma reload_balance_happen:
  assumes "reload_balance n s"
  shows "reload_balance (if asks_reload e then Suc n else n) (happen px c e s)"
proof (cases e)
  case Thread
  show ?thesis using assms unfolding Thread happen.simps service_step_def
    by (cases "(px, c, sv_pc s, s)" rule: start_from.cases)
       (auto simp: reload_balance_def reloads_owed_def split: prod.splits option.splits call_outcome.splits)
next
  case (Signal sig)
  then show ?thesis using assms by (cases sig) (auto simp: reload_balance_def reloads_owed_def deliver_def)
qed (use assms in \<open>auto simp: reload_balance_def reloads_owed_def request_stop_def request_reload_def\<close>)

lemma reload_balance_run:
  "reload_balance n s \<Longrightarrow> reload_balance (n + length (filter asks_reload events)) (run_service px c events s)"
proof (induction events arbitrary: n s)
  case (Cons e events)
  from Cons.IH [OF reload_balance_happen [OF Cons.prems, of e px c]] show ?case
    by (cases "asks_reload e") (simp_all del: happen.simps)
qed simp

section \<open>Example service\<close>

definition ex_posix :: posix where
  "ex_posix = \<lparr>px_fork = 0, px_setsid = 7, px_chdir = (\<lambda>_. 0),
     px_open = (\<lambda>files _. if files 0 = None then 0 else - 1), px_dup2 = (\<lambda>_ fd. fd), px_sigaction = (\<lambda>_. 0)\<rparr>"

definition ex_process :: process where
  "ex_process = \<lparr>pr_files = [0 \<mapsto> ''/dev/tty'', 1 \<mapsto> ''/dev/tty'', 2 \<mapsto> ''/dev/tty'', 3 \<mapsto> ''telemetry.db''],
     pr_directory = ''/home'', pr_umask = 18, pr_session_leader = False, pr_handled = [], pr_stderr = [],
     pr_logging = False\<rparr>"

definition ex_class :: "nat service_class" where
  "ex_class = \<lparr>sc_name = ''svc'', sc_foreground = False, sc_reload = (\<lambda>_. Returned 0), sc_loop = (\<lambda>n. Returned (n + 1))\<rparr>"

definition ex_service :: "nat service" where
  \<comment> \<open>at its first turn, nine steps after \<open>start\<close>\<close>
  "ex_service = run_service ex_posix ex_class (replicate 9 Thread)
                  (service_new \<lparr>g_running = 0, g_reload = 1\<rparr> ex_process 5)"

lemma ex_posix_fresh: "fresh_descriptors ex_posix"
  by (simp add: fresh_descriptors_def ex_posix_def)

lemma ex_service_reach:
  "service_reach ex_posix ex_class (service_new \<lparr>g_running = 0, g_reload = 1\<rparr> ex_process 5) ex_service"
  unfolding ex_service_def by (intro reach_run service_reach.start)

lemma ex_service_state: "sv_pc ex_service = SvLoop \<and> sv_self ex_service = 5 \<and> sv_calls ex_service = []"
  by code_simp

section \<open>Properties\<close>

text \<open>
  A process that gets past \<open>daemonize\<close> is the child of the fork, leads a session of its own, works in
  the root directory with an empty mode mask, and has its three standard streams on \<open>/dev/null\<close>; every
  other descriptor is as it was, the one \<open>/dev/null\<close> was opened on included. Any failure on the way ends
  the process instead.
\<close>

theorem daemonize_detaches:
  assumes "daemonize px name p = (None, p')" "fresh_descriptors px"
  shows "px_fork px = 0 \<and> detached p' \<and> pr_logging p' \<and> (\<forall>fd. fd \<notin> {0, 1, 2} \<longrightarrow> pr_files p' fd = pr_files p fd)"
  using daemonize_continues [OF assms] by (simp add: detached_def)

theorem daemonize_detaches_witness:
  "\<exists>p'. daemonize ex_posix ''svc'' ex_process = (None, p') \<and> detached p' \<and>
        pr_files p' 3 = Some ''telemetry.db''"
proof -
  have "fst (daemonize ex_posix ''svc'' ex_process) = None" by code_simp
  then obtain p' where d: "daemonize ex_posix ''svc'' ex_process = (None, p')" by (metis prod.collapse)
  from daemonize_detaches [OF d ex_posix_fresh] have p': "detached p'" "pr_files p' 3 = pr_files ex_process 3"
    by auto
  then show ?thesis using d by (intro exI [of _ p']) (simp add: ex_process_def)
qed

text \<open>
  C35: Whatever signals and requests arrive, once the service runs its loop it is set up completely: the
  handlers of the three signals are installed (so none of them can kill it), logging is open, and it is
  detached unless it was started in the foreground.
\<close>

theorem service_loop_is_set_up:
  assumes "service_reach px c (service_new fl p self) s" "fresh_descriptors px" "looping (sv_pc s)"
  shows "handlers_installed (sv_process s) \<and> pr_logging (sv_process s) \<and>
         (sc_foreground c \<or> detached (sv_process s)) \<and>
         (\<forall>sig \<in> fatal_signals. sv_pc (deliver sig s) = sv_pc s)"
proof -
  have st: "started_up (sv_pc s)" using assms(3) by (cases "sv_pc s") simp_all
  have b: "handlers_installed (sv_process s)" "pr_logging (sv_process s)"
      "sc_foreground c \<or> detached (sv_process s)"
    using boot_invar_reach [OF assms(1,2)] assms(3) st by (simp_all add: boot_invar_def)
  moreover have "\<forall>sig \<in> fatal_signals. sv_pc (deliver sig s) = sv_pc s"
    using b(1) by (auto simp: deliver_def handlers_installed_def)
  ultimately show ?thesis by blast
qed

theorem service_loop_is_set_up_witness:
  "sv_pc ex_service = SvLoop \<and> sv_pc (deliver SIGHUP ex_service) = SvLoop \<and> detached (sv_process ex_service)"
proof -
  have "looping (sv_pc ex_service)" using ex_service_state by simp
  from service_loop_is_set_up [OF ex_service_reach ex_posix_fresh this] ex_service_state show ?thesis
    by (simp add: fatal_signals_def ex_class_def)
qed

text \<open>
  C8: A stop request is answered: from any point of the loop with the running flag cleared, whatever else
  arrives, five steps of the thread are enough to leave the loop, with at most one reload and one turn of
  \<open>loop\<close> begun on the way, and the exit status is success unless a virtual call throws or does not return.
\<close>

theorem service_stop_is_prompt:
  assumes "service_reach px c (service_new fl p self) s" "fresh_descriptors px" "looping (sv_pc s)"
    and "g_running (sv_flags s) = 0" "list_all ours events" "5 \<le> count_list events Thread"
  shows "finished (sv_pc (run_service px c events s)) \<and>
         length (sv_calls (run_service px c events s)) \<le> length (sv_calls s) + 2"
proof -
  have l: "in_loop s" using boot_invar_reach [OF assms(1,2)] assms(3) by (simp add: in_loop_def boot_invar_def)
  have "steps_to_exit (sv_pc s) \<le> 5" "calls_to_exit (sv_pc s) \<le> 2" using assms(3) by (auto elim: looping_cases)
  with stopping_run [OF l assms(4,5), of px c] assms(6) show ?thesis by linarith
qed

theorem service_stop_is_prompt_witness:
  "finished (sv_pc (run_service ex_posix ex_class ([Signal SIGHUP] @ replicate 5 Thread) (deliver SIGTERM ex_service)))"
proof -
  let ?s = "deliver SIGTERM ex_service"
  have r: "service_reach ex_posix ex_class (service_new \<lparr>g_running = 0, g_reload = 1\<rparr> ex_process 5) ?s"
    using service_reach.event [OF ex_service_reach, of "Signal SIGTERM"] by simp
  have s: "looping (sv_pc ?s)" "g_running (sv_flags ?s) = 0" by code_simp+
  show ?thesis
    using service_stop_is_prompt [OF r ex_posix_fresh s, of "[Signal SIGHUP] @ replicate 5 Thread"]
    by (simp add: fatal_signals_def numeral_eq_Suc)
qed

text \<open>
  C7: No reload request is lost: after a SIGHUP at any point of the loop, between the test of the flag and
  its reset included, a call of \<open>reload\<close> begins within the next five steps of the thread if the service
  stays in its loop, whatever else arrives.
\<close>

theorem service_reload_not_lost:
  assumes "service_reach px c (service_new fl p self) s" "fresh_descriptors px" "looping (sv_pc s)"
    and "list_all ours events" "5 \<le> count_list events Thread"
    and "looping (sv_pc (run_service px c events (deliver SIGHUP s)))"
  shows "\<exists>cs. sv_calls (run_service px c events (deliver SIGHUP s)) = sv_calls s @ cs \<and> CallReload \<in> set cs"
proof -
  have h: "handlers_installed (sv_process s)"
    using boot_invar_reach [OF assms(1,2)] assms(3) by (simp add: boot_invar_def)
  then have d: "deliver SIGHUP s = s\<lparr>sv_flags := (sv_flags s)\<lparr>g_reload := 1\<rparr>\<rparr>"
    using assms(3) by (auto simp: deliver_def handlers_installed_def fatal_signals_def)
  have l: "in_loop (deliver SIGHUP s)" "reload_due (deliver SIGHUP s)"
    using h assms(3) by (simp_all add: d in_loop_def reload_due_def)
  have "steps_to_reload (sv_pc (deliver SIGHUP s)) \<le> 5" using assms(3) by (auto simp: d elim: looping_cases)
  with reload_due_run [OF l assms(4) _ assms(6)] assms(5) show ?thesis by (simp add: d)
qed

theorem service_reload_not_lost_witness:
  "CallReload \<in> set (sv_calls (run_service ex_posix ex_class (replicate 6 Thread) (deliver SIGHUP ex_service)))"
proof -
  have s: "looping (sv_pc ex_service)"
    "looping (sv_pc (run_service ex_posix ex_class (replicate 6 Thread) (deliver SIGHUP ex_service)))"
    by code_simp+
  show ?thesis
    using service_reload_not_lost [OF ex_service_reach ex_posix_fresh s(1) _ _ s(2)]
    by (auto simp: numeral_eq_Suc)
qed

text \<open>
  Reloads happen only on request, and requests that come close together are answered by one: the
  calls of \<open>reload\<close> begun since \<open>start\<close> are no more than the SIGHUP signals and reload requests so far.
  A flag left from before \<open>start\<close> does not count.
\<close>

theorem service_reloads_bounded:
  "count_list (sv_calls (run_service px c events (service_new fl p self))) CallReload
     \<le> length (filter asks_reload events)"
proof -
  have "reload_balance 0 (service_new fl p self)"
    by (simp add: reload_balance_def reloads_owed_def service_new_def)
  from reload_balance_run [OF this, of events px c] show ?thesis by (simp add: reload_balance_def)
qed

end
