(* ===== verification/Daemon.thy ===== *)
theory Daemon
  imports Liveness Service
begin

text \<open>
  The daemon, \<open>src/daemon_main.cpp\<close>: the edge service (the runtime under the main loop of
  \<open>Service\<close>, with its configuration file read again on a reload), the command line and \<open>main\<close>.
  What is on the disk at each reading of the configuration is a parameter.
\<close>

section \<open>The edge service\<close>

datatype pause = SleepFor int | SleepUntil int    \<comment> \<open>nanoseconds; a point of \<open>steady_clock\<close>\<close>

record edge_service =
  es_config_path :: string
  es_config :: config
  es_runtime :: telemetry_runtime
  es_world :: world
  es_loads :: nat                 \<comment> \<open>how often the configuration was read\<close>
  es_pauses :: "pause list"       \<comment> \<open>the sleeps so far\<close>

record daemon_env =
  de_runtime :: runtime_env
  de_yaml :: yaml_cpp
  de_files :: "nat \<Rightarrow> file_system"   \<comment> \<open>the file system at the \<open>n\<close>-th reading\<close>

definition kDefaultConfigPath :: string where
  "kDefaultConfigPath = ''/etc/bossa/config.yaml''"

definition edge_new :: "daemon_env \<Rightarrow> string \<Rightarrow> config \<Rightarrow> world \<Rightarrow> edge_service option" where
  \<comment> \<open>the constructor; a configuration that fails is only logged\<close>
  "edge_new env path c w =
     (case runtime_configure (de_runtime env) c [] (runtime_new, w) of
        None \<Rightarrow> None
      | Some (_, rt, w) \<Rightarrow>
          Some \<lparr>es_config_path = path, es_config = c, es_runtime = rt, es_world = w, es_loads = 1, es_pauses = []\<rparr>)"

definition edge_reload :: "daemon_env \<Rightarrow> edge_service \<Rightarrow> edge_service call_outcome" where
  "edge_reload env s =
     (let result = load_config (de_yaml env) (de_files env (es_loads s)) (es_config_path s);
          s = s\<lparr>es_loads := es_loads s + 1\<rparr>
      in case result of
           Inl e \<Rightarrow> Threw e
         | Inr (LoadFail _) \<Rightarrow> Returned s
         | Inr (LoadOk c) \<Rightarrow>
             (case runtime_configure (de_runtime env) c [] (es_runtime s, es_world s) of
                None \<Rightarrow> NoReturn
              | Some (_, rt, w) \<Rightarrow> Returned (s\<lparr>es_config := c, es_runtime := rt, es_world := w\<rparr>)))"

definition pause_for :: "pause \<Rightarrow> edge_service \<Rightarrow> edge_service" where
  "pause_for p s = s\<lparr>es_pauses := es_pauses s @ [p]\<rparr>"

definition edge_loop :: "edge_service \<Rightarrow> edge_service call_outcome" where
  "edge_loop s =
     (if cfg_channels (es_config s) = [] then Returned (pause_for (SleepFor 5000000000) s)
      else (case tick (es_runtime s, es_world s) of
        None \<Rightarrow> NoReturn
      | Some (Raised e _) \<Rightarrow> Threw e
      | Some (Done state) \<Rightarrow>
          (case next_wake state of
             (None, rt, w) \<Rightarrow> Returned (pause_for (SleepFor 100000000) (s\<lparr>es_runtime := rt, es_world := w\<rparr>))
           | (Some t, rt, w) \<Rightarrow>
               (let (now, w) = steady_now w;
                    s = s\<lparr>es_runtime := rt, es_world := w\<rparr>
                in Returned (if now < t then pause_for (SleepUntil t) s else s)))))"

definition edge_class :: "daemon_env \<Rightarrow> bool \<Rightarrow> edge_service service_class" where
  "edge_class env foreground =
     \<lparr>sc_name = ''bossa'', sc_foreground = foreground, sc_reload = edge_reload env, sc_loop = edge_loop\<rparr>"

section \<open>The command line and main\<close>

fun parse_args :: "string list \<Rightarrow> bool \<times> string \<Rightarrow> bool \<times> bool \<times> string" where
  \<comment> \<open>the arguments after the program name; the result and the two out-parameters\<close>
  "parse_args [] (foreground, config_path) = (True, foreground, config_path)"
| "parse_args (arg # args) (foreground, config_path) =
     (if arg = ''--foreground'' then parse_args args (True, config_path)
      else if arg = ''--config''
      then (case args of
              [] \<Rightarrow> (False, foreground, config_path)
            | value # rest \<Rightarrow> parse_args rest (foreground, value))
      else (False, foreground, config_path))"

datatype main_result =
    MainExit int "string list"     \<comment> \<open>the exit status and what went to standard error\<close>
  | MainThrew cpp_exn
  | MainUndefined
  | MainStart bool edge_service    \<comment> \<open>\<open>service.start()\<close>, in the foreground or not\<close>

definition log_config_error :: "bool \<Rightarrow> string \<Rightarrow> string list" where
  "log_config_error foreground message = (if foreground then [''config: '' @ message] else [])"

definition daemon_main :: "daemon_env \<Rightarrow> string list \<Rightarrow> world \<Rightarrow> main_result" where
  "daemon_main env args w =
     (case parse_args args (False, kDefaultConfigPath) of
        (False, _, _) \<Rightarrow> MainExit EXIT_FAILURE []
      | (True, foreground, path) \<Rightarrow>
          (case load_config (de_yaml env) (de_files env 0) path of
             Inl e \<Rightarrow> MainThrew e
           | Inr (LoadFail message) \<Rightarrow> MainExit EXIT_FAILURE (log_config_error foreground message)
           | Inr (LoadOk c) \<Rightarrow>
               (case edge_new env path c w of
                  None \<Rightarrow> MainUndefined
                | Some s \<Rightarrow> MainStart foreground s)))"

section \<open>What the runtime keeps of its configuration\<close>

lemma bind_channels_ids:
  "bind_channels env chs schedule (rt, w) = (r, rt', w') \<Longrightarrow>
   rt_config rt' = rt_config rt \<and> fst ` set (rt_channels rt') \<subseteq> fst ` set (rt_channels rt) \<union> ch_id ` set chs"
proof (induction chs arbitrary: schedule rt w)
  case (Cons ch chs)
  show ?case
  proof (cases "active ch")
    case False
    then show ?thesis using Cons.IH [of schedule rt w] Cons.prems by (auto simp: active_def)
  next
    case True
    show ?thesis
    proof (cases "registry_create (ch_driver ch) (re_registry env)")
      case None
      then show ?thesis using True Cons.prems by (auto simp: active_def)
    next
      case (Some f)
      obtain e d w1 where dc: "device_configure (ch_parameters ch) (make_device f, w) = (e, d, w1)"
        by (metis surj_pair)
      show ?thesis
      proof (cases e)
        case (Some ex)
        then show ?thesis using True \<open>registry_create _ _ = Some f\<close> dc Cons.prems by (auto simp: active_def)
      next
        case None
        let ?rt = "rt\<lparr>rt_policy := configure_channel (sync_state_of ch) (fst (steady_now w1)) (rt_policy rt),
            rt_channels := emplace (ch_id ch) \<lparr>bd_config = ch, bd_driver = d\<rparr> (rt_channels rt)\<rparr>"
        have "bind_channels env chs (schedule @ [entry_of ch]) (?rt, snd (steady_now w1)) = (r, rt', w')"
          using True Some dc None Cons.prems by (simp add: active_def entry_of_def case_prod_beta Let_def)
        from Cons.IH [OF this] show ?thesis by (auto simp: emplace_keys(1))
      qed
    qed
  qed
qed simp

lemma open_local_store_members:
  assumes "open_local_store (rt, w) = (ok, rt', w')"
  shows "rt_config rt' = rt_config rt \<and> rt_channels rt' = rt_channels rt"
  using assms unfolding open_local_store_def
  by (cases "open_store (lc_path (cfg_local_storage (rt_config rt))) (rt_store rt, w)")
     (auto simp: Let_def split: if_splits)

lemma fresh_members_config: "rt_config (fresh_members env c key rt) = c \<and> rt_channels (fresh_members env c key rt) = []"
  by (simp add: fresh_members_def Let_def reset_backoff_after_success_def split: sum.split)

lemma runtime_configure_members:
  assumes "runtime_configure env c key (rt, w) = Some (ok, rt', w')"
  shows "rt_config rt' = c \<and> fst ` set (rt_channels rt') \<subseteq> ch_id ` set (cfg_channels c)"
proof -
  obtain b rt1 w1 where o: "open_local_store (fresh_members env c key rt, w) = (b, rt1, w1)" by (metis surj_pair)
  have 1: "rt_config rt1 = c" "rt_channels rt1 = []"
    using open_local_store_members [OF o] fresh_members_config [of env c key rt] by simp_all
  obtain sched rt2 w2 where bc: "bind_channels env (cfg_channels c) [] (rt1, w1) = (sched, rt2, w2)"
    by (metis surj_pair)
  have 2: "rt_config rt2 = c" "fst ` set (rt_channels rt2) \<subseteq> ch_id ` set (cfg_channels c)"
    using bind_channels_ids [OF bc] 1 by simp_all
  have "rt_config rt' = rt_config rt1 \<and> rt_channels rt' = rt_channels rt1 \<or>
        rt_config rt' = rt_config rt2 \<and> rt_channels rt' = rt_channels rt2"
    using assms o bc by (auto simp: runtime_configure_def finish_configure_def case_prod_beta Let_def
        split: if_splits option.splits)
  then show ?thesis using 1 2 by (elim disjE) simp_all
qed

lemma tick_members:
  assumes "runtime_wf s" "tick s = Some (Done s')"
  shows "rt_config (fst s') = rt_config (fst s) \<and> map fst (rt_channels (fst s')) = map fst (rt_channels (fst s))"
proof (cases "rt_channels (fst s) = []")
  case True
  then show ?thesis using assms(2) by (simp add: tick_def)
next
  case False
  obtain rt w where s: "s = (rt, w)" by fastforce
  obtain rt1 w1 s2 where st: "poll_due (rt, w) = Some (rt1, w1)" "maybe_flush (rt1, w1) = Done s2" "maybe_retry s2 = Done s'"
    using tick_SomeE [OF assms(2) False] s by (metis surj_pair)
  have wf: "runtime_wf (rt, w)" using assms(1) s by simp
  obtain rt3 q where "polled (rt, w) (rt3, w1)" "rt1 = rt3\<lparr>rt_scheduler := q\<rparr>"
    using poll_due_effect [OF wf st(1)] by (metis prod.inject)
  then have 1: "rt_config rt1 = rt_config rt" "map fst (rt_channels rt1) = map fst (rt_channels rt)"
    by (auto simp: polled_def)
  have 2: "runtime_wf s2" "pipeline_frame (rt1, w1) s2"
    using maybe_flush_effect [OF poll_due_world(1) [OF wf st(1)]] st(2) by simp_all
  have "pipeline_frame s2 s'" using maybe_retry_effect [of "fst s2" "snd s2"] 2(1) st(3) by simp
  then show ?thesis using 1 2(2) s by (simp add: pipeline_frame_def)
qed

section \<open>The invariant of the edge service\<close>

definition edge_wf :: "edge_service \<Rightarrow> bool" where
  \<comment> \<open>the runtime runs the configuration of the service, or what it managed to bind of it\<close>
  "edge_wf s \<longleftrightarrow> runtime_wf (es_runtime s, es_world s) \<and> valid_config (es_config s) \<and>
     rt_config (es_runtime s) = es_config s \<and>
     fst ` set (rt_channels (es_runtime s)) \<subseteq> ch_id ` set (cfg_channels (es_config s))"

lemma edge_wf_frame [simp]:
  "edge_wf (s\<lparr>es_loads := n\<rparr>) = edge_wf s"
  "edge_wf (s\<lparr>es_pauses := ps\<rparr>) = edge_wf s"
  "edge_wf (pause_for p s) = edge_wf s"
  by (simp_all add: edge_wf_def pause_for_def)

lemma edge_wf_configured:
  assumes "runtime_wf (rt, w)" "valid_config c" "runtime_configure env c key (rt, w) = Some (ok, rt', w')"
  shows "edge_wf (s\<lparr>es_config := c, es_runtime := rt', es_world := w'\<rparr>)"
  using runtime_configure_effect [OF assms(1,3)] runtime_configure_members [OF assms(3)] assms(2)
  by (simp add: edge_wf_def)

lemma edge_reload_keeps:
  assumes "edge_wf s" "edge_reload env s = Returned s'"
  shows "edge_wf s'"
proof -
  let ?s = "s\<lparr>es_loads := es_loads s + 1\<rparr>"
  have s: "edge_wf ?s" using assms(1) by simp
  consider (fail) "s' = ?s"
    | (ok) c ok rt w where "load_config (de_yaml env) (de_files env (es_loads s)) (es_config_path s) = Inr (LoadOk c)"
        "runtime_configure (de_runtime env) c [] (es_runtime s, es_world s) = Some (ok, rt, w)"
        "s' = ?s\<lparr>es_config := c, es_runtime := rt, es_world := w\<rparr>"
    using assms(2) by (auto simp: edge_reload_def Let_def split: sum.splits load_result.splits option.splits)
  then show ?thesis
  proof cases
    case fail
    then show ?thesis using s by simp
  next
    case ok
    have "runtime_wf (es_runtime s, es_world s)" using assms(1) by (simp add: edge_wf_def)
    from edge_wf_configured [OF this load_config_ok_valid [OF ok(1)] ok(2)] show ?thesis using ok(3) by simp
  qed
qed

lemma edge_wf_tick:
  assumes "edge_wf s" "tick (es_runtime s, es_world s) = Some (Done state)" "next_wake state = (wake, rt, w)"
  shows "edge_wf (s\<lparr>es_runtime := rt, es_world := w\<rparr>)"
proof -
  have wf: "runtime_wf (es_runtime s, es_world s)" using assms(1) by (simp add: edge_wf_def)
  have "runtime_wf state" using tick_effect [OF wf assms(2)] by simp
  from next_wake_effect [OF this] obtain ls where "runtime_wf (rt, w)" "rt = (fst state)\<lparr>rt_store := ls\<rparr>"
    using assms(3) by auto
  moreover have "fst ` set (rt_channels (fst state)) = fst ` set (rt_channels (es_runtime s))"
    using tick_members [OF wf assms(2)] by (metis fst_conv set_map)
  ultimately show ?thesis using assms(1) tick_members [OF wf assms(2)] by (simp add: edge_wf_def)
qed

lemma edge_wf_world: "edge_wf (s\<lparr>es_runtime := rt, es_world := w\<lparr>w_steady_n := n\<rparr>\<rparr>) = edge_wf (s\<lparr>es_runtime := rt, es_world := w\<rparr>)"
  by (simp add: edge_wf_def)

lemma edge_loop_keeps:
  assumes "edge_wf s" "edge_loop s = Returned s'"
  shows "edge_wf s'"
proof (cases "cfg_channels (es_config s) = []")
  case True
  then show ?thesis using assms by (auto simp: edge_loop_def)
next
  case False
  then obtain state where t: "tick (es_runtime s, es_world s) = Some (Done state)"
    using assms(2) by (auto simp: edge_loop_def split: option.splits step_result.splits)
  obtain wake rt w where nw: "next_wake state = (wake, rt, w)" by (metis surj_pair)
  note e = edge_wf_tick [OF assms(1) t nw]
  show ?thesis using assms(2) False t nw e edge_wf_world [where s = s and rt = rt and w = w]
    by (cases wake) (auto simp: edge_loop_def steady_now_def Let_def)
qed

interpretation edge: service_body "edge_class env foreground" edge_wf for env foreground
proof (unfold_locales, goal_cases)
  case (1 s s')
  then show ?case using edge_reload_keeps [of s env s'] by (simp add: edge_class_def)
next
  case (2 s s')
  then show ?case using edge_loop_keeps [of s s'] by (simp add: edge_class_def)
qed

section \<open>Turns of the loop\<close>

fun loop_turns :: "nat \<Rightarrow> edge_service \<Rightarrow> edge_service call_outcome" where
  "loop_turns 0 s = Returned s"
| "loop_turns (Suc n) s = (case edge_loop s of Returned s' \<Rightarrow> loop_turns n s' | outcome \<Rightarrow> outcome)"

definition starved :: "edge_service \<Rightarrow> bool" where
  \<comment> \<open>no channel was bound, but the schedule of an earlier configuration is overdue\<close>
  "starved s \<longleftrightarrow> edge_wf s \<and> cfg_channels (es_config s) \<noteq> [] \<and> rt_channels (es_runtime s) = [] \<and>
     rt_retry_attempt (es_runtime s) = 0 \<and>
     (\<exists>t. next_deadline (rt_scheduler (es_runtime s)) = Some t \<and>
          (\<forall>n \<ge> w_steady_n (es_world s). t \<le> w_steady (es_world s) n))"

lemma starved_wake:
  assumes "starved s"
  shows "\<exists>t ls w. next_wake (es_runtime s, es_world s) = (Some t, (es_runtime s)\<lparr>rt_store := ls\<rparr>, w) \<and>
    runtime_wf ((es_runtime s)\<lparr>rt_store := ls\<rparr>, w) \<and> next_deadline (rt_scheduler (es_runtime s)) = Some t \<and>
    w_steady w = w_steady (es_world s) \<and> w_steady_n w = w_steady_n (es_world s) \<and> w_posts w = w_posts (es_world s)"
proof -
  let ?rt = "es_runtime s" and ?w = "es_world s"
  have wf: "runtime_wf (?rt, ?w)" using assms by (simp add: starved_def edge_wf_def)
  obtain t where t: "next_deadline (rt_scheduler ?rt) = Some t" using assms by (auto simp: starved_def)
  obtain n rt1 w1 where p: "store_pending (?rt, ?w) = (n, rt1, w1)" by (metis surj_pair)
  note e = store_pending_world [OF wf p]
  then obtain ls where ls: "rt1 = ?rt\<lparr>rt_store := ls\<rparr>" by blast
  show ?thesis
  proof (cases "rt_store_open ?rt")
    case True
    then have "next_wake (?rt, ?w) = (Some t, ?rt\<lparr>rt_store := ls\<rparr>, w1)"
      using p t ls assms by (simp add: next_wake_def starved_def)
    then show ?thesis using e ls t by auto
  next
    case False
    then have "next_wake (?rt, ?w) = (Some t, ?rt\<lparr>rt_store := rt_store ?rt\<rparr>, ?w)"
      using t by (simp add: next_wake_def)
    then show ?thesis using wf t
      by (intro exI [of _ t] exI [of _ "rt_store ?rt"] exI [of _ ?w]) simp
  qed
qed

lemma starved_loop:
  assumes "starved s"
  shows "\<exists>s'. edge_loop s = Returned s' \<and> starved s' \<and> es_pauses s' = es_pauses s \<and>
              w_posts (es_world s') = w_posts (es_world s)"
proof -
  obtain t ls w where nw: "next_wake (es_runtime s, es_world s) = (Some t, (es_runtime s)\<lparr>rt_store := ls\<rparr>, w)"
    "runtime_wf ((es_runtime s)\<lparr>rt_store := ls\<rparr>, w)" "next_deadline (rt_scheduler (es_runtime s)) = Some t"
    "w_steady w = w_steady (es_world s)" "w_steady_n w = w_steady_n (es_world s)"
    "w_posts w = w_posts (es_world s)"
    using starved_wake [OF assms] by blast
  let ?s = "s\<lparr>es_runtime := (es_runtime s)\<lparr>rt_store := ls\<rparr>, es_world := w\<lparr>w_steady_n := w_steady_n w + 1\<rparr>\<rparr>"
  have tk: "tick (es_runtime s, es_world s) = Some (Done (es_runtime s, es_world s))"
    using assms by (simp add: tick_def starved_def)
  have "\<not> w_steady w (w_steady_n w) < t" using assms nw(3-5) by (auto simp: starved_def)
  then have l: "edge_loop s = Returned ?s"
    using assms tk nw(1) by (simp add: edge_loop_def starved_def steady_now_def)
  moreover have "edge_wf ?s" using edge_loop_keeps [OF _ l] assms by (simp add: starved_def)
  then have "starved ?s" using assms nw(3-5) by (auto simp: starved_def)
  ultimately show ?thesis using nw(6) by (intro exI [of _ ?s]) simp
qed

lemma starved_turns:
  "starved s \<Longrightarrow> \<exists>s'. loop_turns n s = Returned s' \<and> es_pauses s' = es_pauses s \<and>
                          w_posts (es_world s') = w_posts (es_world s) \<and> rt_channels (es_runtime s') = []"
proof (induction n arbitrary: s)
  case 0
  then show ?case by (simp add: starved_def)
next
  case (Suc n)
  obtain s1 where s1: "edge_loop s = Returned s1" "starved s1" "es_pauses s1 = es_pauses s"
      "w_posts (es_world s1) = w_posts (es_world s)"
    using starved_loop [OF Suc.prems] by blast
  from Suc.IH [OF s1(2)] show ?case using s1 by simp
qed

section \<open>The command line, option by option\<close>

datatype cli_option = OptForeground | OptConfig string

fun option_words :: "cli_option \<Rightarrow> string list" where
  "option_words OptForeground = [''--foreground'']"
| "option_words (OptConfig path) = [''--config'', path]"

fun apply_option :: "cli_option \<Rightarrow> bool \<times> string \<Rightarrow> bool \<times> string" where
  "apply_option OptForeground (_, path) = (True, path)"
| "apply_option (OptConfig path) (foreground, _) = (foreground, path)"

lemma parse_args_rendered:
  "parse_args (concat (map option_words opts)) o1 = (True, fold apply_option opts o1)"
proof (induction opts arbitrary: o1)
  case Nil
  then show ?case by (cases o1) simp
next
  case (Cons opt opts)
  then show ?case by (cases opt; cases o1) simp_all
qed

lemma parse_args_accepted:
  "parse_args args o1 = (True, o2) \<Longrightarrow> \<exists>opts. args = concat (map option_words opts) \<and> o2 = fold apply_option opts o1"
proof (induction args o1 rule: parse_args.induct)
  case (1 foreground path)
  then show ?case by (intro exI [of _ "[]"]) simp
next
  case (2 arg args foreground path)
  consider (fg) "arg = ''--foreground''" "parse_args args (True, path) = (True, o2)"
    | (config) v rest where "arg = ''--config''" "args = v # rest"
        "parse_args rest (foreground, v) = (True, o2)"
    using "2.prems" by (auto split: if_splits list.splits)
  then show ?case
  proof cases
    case fg
    then obtain opts where "args = concat (map option_words opts)" "o2 = fold apply_option opts (True, path)"
      using "2.IH"(1) by blast
    with fg(1) show ?thesis by (intro exI [of _ "OptForeground # opts"]) simp
  next
    case config
    then obtain opts where "rest = concat (map option_words opts)" "o2 = fold apply_option opts (foreground, v)"
      using "2.IH"(2) by force
    with config(1,2) show ?thesis by (intro exI [of _ "OptConfig v # opts"]) simp
  qed
qed

section \<open>Example daemon\<close>

definition ex_daemon_env :: "yaml \<Rightarrow> daemon_env" where
  "ex_daemon_env document = \<lparr>de_runtime = ex_env, de_yaml = ex_yaml_cpp, de_files = (\<lambda>_. ex_files document)\<rparr>"

definition ex_good :: yaml where
  "ex_good = ex_document [ex_channel_node ''t'' ''5''] ''1''"

definition ex_typo :: yaml where
  \<comment> \<open>a channel whose driver does not exist\<close>
  "ex_typo = ex_document [YMap [(YScalar ''id'', YScalar ''t''), (YScalar ''driver'', YScalar ''smi''),
     (YScalar ''sample_rate_hz'', YScalar ''5'')]] ''1''"

definition ex_edge :: edge_service where
  \<comment> \<open>the edge service with the example pipeline\<close>
  "ex_edge = \<lparr>es_config_path = ''c.yaml'', es_config = ex_config, es_runtime = fst ex_runtime,
     es_world = snd ex_runtime, es_loads = 1, es_pauses = []\<rparr>"

lemma ex_edge_wf: "edge_wf ex_edge"
proof -
  have "valid_config ex_config" by code_simp
  have "runtime_configure ex_env ex_config [] (runtime_new, ex_down) = Some (True, fst ex_runtime, snd ex_runtime)"
    using ex_configured by simp
  note m = runtime_configure_members [OF this]
  show ?thesis using \<open>valid_config ex_config\<close> m ex_runtime_wf by (simp add: ex_edge_def edge_wf_def)
qed

lemma ex_main:
  "\<exists>s. daemon_main (ex_daemon_env ex_good) [''--foreground'', ''--config'', ''c.yaml''] ex_down = MainStart True s"
proof -
  have "case check_document ex_yaml_cpp ex_good of
      Inr (LoadOk c) \<Rightarrow> edge_new (ex_daemon_env ex_good) ''c.yaml'' c ex_down \<noteq> None | _ \<Rightarrow> False" by code_simp
  then obtain c s where "load_config ex_yaml_cpp (ex_files ex_good) ''c.yaml'' = Inr (LoadOk c)"
      "edge_new (ex_daemon_env ex_good) ''c.yaml'' c ex_down = Some s"
    unfolding load_ex_files by (auto split: sum.splits load_result.splits)
  then show ?thesis by (simp add: daemon_main_def ex_daemon_env_def)
qed

section \<open>Properties\<close>

text \<open>
  C6: The daemon never runs on a broken pipeline. In every state that \<open>main\<close> and the service loop can
  reach, whatever signals, reloads and configuration files come, the configuration the service holds is
  well formed, the pipeline is the one of that configuration with channels of that configuration only,
  and the pipeline and its store satisfy their invariants, provided the disk did when \<open>main\<close> started.
\<close>

theorem daemon_keeps_pipeline_valid:
  assumes "sqlite_laws (w_sqlite w)" "\<forall>t \<in> ran (w_disk w). wf_table t"
    and "daemon_main env args w = MainStart foreground s0"
    and "service_reach px (edge_class env foreground) (service_new fl p s0) s"
  shows "valid_config (es_config (sv_self s)) \<and> rt_config (es_runtime (sv_self s)) = es_config (sv_self s) \<and>
    fst ` set (rt_channels (es_runtime (sv_self s))) \<subseteq> ch_id ` set (cfg_channels (es_config (sv_self s))) \<and>
    runtime_wf (es_runtime (sv_self s), es_world (sv_self s))"
proof -
  obtain path c ok rt w' where m: "load_config (de_yaml env) (de_files env 0) path = Inr (LoadOk c)"
      "runtime_configure (de_runtime env) c [] (runtime_new, w) = Some (ok, rt, w')"
      "s0 = \<lparr>es_config_path = path, es_config = c, es_runtime = rt, es_world = w', es_loads = 1, es_pauses = []\<rparr>"
    using assms(3) by (auto simp: daemon_main_def edge_new_def
        split: prod.splits bool.splits sum.splits load_result.splits option.splits)
  have "edge_wf s0"
    using edge_wf_configured [OF runtime_new_wf [OF assms(1,2)] load_config_ok_valid [OF m(1)] m(2), of s0] m(3) by simp
  then have "edge_wf (sv_self (service_new fl p s0))" by (simp add: service_new_def)
  with edge.reach_keeps [OF assms(4)] show ?thesis by (simp add: edge_wf_def)
qed

theorem daemon_keeps_pipeline_valid_witness:
  "\<exists>s0. daemon_main (ex_daemon_env ex_good) [''--foreground'', ''--config'', ''c.yaml''] ex_down = MainStart True s0 \<and>
     valid_config (es_config (sv_self (run_service ex_posix (edge_class (ex_daemon_env ex_good) True)
       (replicate 9 Thread @ [Signal SIGHUP] @ replicate 9 Thread) (service_new \<lparr>g_running = 0, g_reload = 1\<rparr> ex_process s0))))"
proof -
  obtain s0 where m: "daemon_main (ex_daemon_env ex_good) [''--foreground'', ''--config'', ''c.yaml''] ex_down = MainStart True s0"
    using ex_main by blast
  have "sqlite_laws (w_sqlite ex_down)" "\<forall>t \<in> ran (w_disk ex_down). wf_table t"
    using ex_world_laws by (simp_all add: ex_down_def) (simp add: ex_world_def)
  with daemon_keeps_pipeline_valid [OF _ _ m reach_run [OF service_reach.start]] m show ?thesis by blast
qed




text \<open>
  C31: A reload that cannot bind the first channel makes the loop spin. If the new file is well formed but
  the pipeline cannot be configured and no channel is bound (the store cannot be opened, a driver is
  unknown, the sensor does not answer), the deadlines of the old schedule stay behind: once the earliest
  has passed, every further turn of the loop returns at once, without a pause, without a poll and without
  a request, for as long as the daemon runs.
\<close>

theorem failed_reload_spins:
  assumes "edge_wf s"
    and "load_config (de_yaml env) (de_files env (es_loads s)) (es_config_path s) = Inr (LoadOk c)" "cfg_channels c \<noteq> []"
    and "runtime_configure (de_runtime env) c [] (es_runtime s, es_world s) = Some (False, rt, w)" "rt_channels rt = []"
    and "next_deadline (rt_scheduler (es_runtime s)) = Some t" "mono_clock w" "t \<le> w_steady w (w_steady_n w)"
  shows "\<exists>s'. edge_reload env s = Returned s' \<and> es_config s' = c \<and>
    (\<forall>n. \<exists>s''. loop_turns n s' = Returned s'' \<and> es_pauses s'' = es_pauses s \<and>
        w_posts (es_world s'') = w_posts w \<and> rt_channels (es_runtime s'') = [])"
proof -
  let ?s = "s\<lparr>es_loads := es_loads s + 1, es_config := c, es_runtime := rt, es_world := w\<rparr>"
  have r: "edge_reload env s = Returned ?s" using assms(2,4) by (simp add: edge_reload_def Let_def)
  have wf: "runtime_wf (es_runtime s, es_world s)" using assms(1) by (simp add: edge_wf_def)
  have "rt_retry_attempt rt = 0" "rt_scheduler rt = rt_scheduler (es_runtime s)"
    using runtime_configure_effect [OF wf assms(4)] by simp_all
  moreover have "t \<le> w_steady w n" if "w_steady_n w \<le> n" for n
    using assms(8) mono_clock_later [OF assms(7) that] by linarith
  ultimately have "starved ?s"
    using assms(3,5,6) edge_reload_keeps [OF assms(1) r] by (simp add: starved_def)
  from starved_turns [OF this] show ?thesis using r by (intro exI [of _ ?s]) simp
qed

theorem failed_reload_spins_witness:
  "\<exists>s'. edge_reload (ex_daemon_env ex_typo) ex_edge = Returned s' \<and>
     (\<exists>s''. loop_turns 1000 s' = Returned s'' \<and> es_pauses s'' = [])"
proof -
  let ?env = "ex_daemon_env ex_typo"
  have "case check_document ex_yaml_cpp ex_typo of
      Inr (LoadOk c) \<Rightarrow> cfg_channels c \<noteq> [] \<and>
        (case runtime_configure ex_env c [] ex_runtime of
           Some (ok, rt, w) \<Rightarrow> \<not> ok \<and> rt_channels rt = [] \<and>
             (case next_deadline (rt_scheduler (fst ex_runtime)) of Some t \<Rightarrow> t \<le> w_steady w (w_steady_n w) | None \<Rightarrow> False)
         | None \<Rightarrow> False)
    | _ \<Rightarrow> False" by code_simp
  then obtain c rt w t where e: "load_config ex_yaml_cpp (ex_files ex_typo) ''c.yaml'' = Inr (LoadOk c)" "cfg_channels c \<noteq> []"
      "runtime_configure ex_env c [] ex_runtime = Some (False, rt, w)" "rt_channels rt = []"
      "next_deadline (rt_scheduler (fst ex_runtime)) = Some t" "t \<le> w_steady w (w_steady_n w)"
    unfolding load_ex_files by (auto split: sum.splits load_result.splits option.splits)
  have "mono_clock w"
    using runtime_configure_net [OF ex_runtime_wf e(3)] ex_runtime_net ex_mono by (simp add: same_net_def mono_clock_def)
  moreover have "load_config (de_yaml ?env) (de_files ?env (es_loads ex_edge)) (es_config_path ex_edge) = Inr (LoadOk c)"
      "runtime_configure (de_runtime ?env) c [] (es_runtime ex_edge, es_world ex_edge) = Some (False, rt, w)"
      "next_deadline (rt_scheduler (es_runtime ex_edge)) = Some t" "es_pauses ex_edge = []"
    using e by (simp_all add: ex_daemon_env_def ex_edge_def)
  ultimately show ?thesis using failed_reload_spins [OF ex_edge_wf, of ?env c rt w t] e(2,4,6) by metis
qed

text \<open>
  C34: The command line is parsed as documented: the arguments are accepted exactly when they are a
  sequence of \<open>--foreground\<close> and \<open>--config PATH\<close>, in any order and repeated at will, and then the options
  take effect from left to right, so the last path wins; whatever follows \<open>--config\<close> is a path.
\<close>

theorem command_line_roundtrip:
  "parse_args args (foreground, path) = (True, foreground', path') \<longleftrightarrow>
     (\<exists>opts. args = concat (map option_words opts) \<and>
        foreground' = (foreground \<or> OptForeground \<in> set opts) \<and>
        (foreground', path') = fold apply_option opts (foreground, path))"
proof -
  have fg: "fst (fold apply_option opts (b, p)) = (b \<or> OptForeground \<in> set opts)" for opts b p
  proof (induction opts arbitrary: b p)
    case (Cons opt opts)
    then show ?case by (cases opt) auto
  qed simp
  show ?thesis
  proof
    assume "parse_args args (foreground, path) = (True, foreground', path')"
    from parse_args_accepted [OF this] show "\<exists>opts. args = concat (map option_words opts) \<and>
        foreground' = (foreground \<or> OptForeground \<in> set opts) \<and>
        (foreground', path') = fold apply_option opts (foreground, path)"
      using fg by (metis fst_conv)
  qed (auto simp: parse_args_rendered)
qed

text \<open>
  C32: A turn of the loop does its work and does not spin. With a bound channel, positive periods, a clock
  that does not go back and a store and payload that work, \<open>loop\<close> returns with the pipeline in order, and
  it has either slept, for a positive time or until a time later than its start, or seen the clock pass
  the next deadline.
\<close>

theorem loop_turn_paces:
  assumes "edge_wf s" "rt_channels (es_runtime s) \<noteq> []" "wf_scheduler (rt_scheduler (es_runtime s))"
    and "mono_clock (es_world s)" "count_works (w_sqlite (es_world s))" "\<forall>j. w_dump (es_world s) j \<noteq> None"
  shows "\<exists>s'. edge_loop s = Returned s' \<and> edge_wf s' \<and> wf_scheduler (rt_scheduler (es_runtime s')) \<and>
    (let start = w_steady (es_world s) (w_steady_n (es_world s)) in
     (\<exists>p. es_pauses s' = es_pauses s @ [p] \<and> (case p of SleepFor d \<Rightarrow> 0 < d | SleepUntil t \<Rightarrow> start < t)) \<or>
     es_pauses s' = es_pauses s \<and> start < w_steady (es_world s') (w_steady_n (es_world s') - 1))"
proof -
  let ?start = "w_steady (es_world s) (w_steady_n (es_world s))"
  have wf: "runtime_wf (es_runtime s, es_world s)" using assms(1) by (simp add: edge_wf_def)
  have ne: "cfg_channels (es_config s) \<noteq> []" using assms(1,2) by (auto simp: edge_wf_def)
  obtain rt1 w1 where t: "tick (es_runtime s, es_world s) = Some (Done (rt1, w1))" "runtime_wf (rt1, w1)"
      "wf_scheduler (rt_scheduler rt1)"
    using tick_completes [OF wf assms(3,6)] by blast
  obtain wake rt w where nw: "next_wake (rt1, w1) = (wake, rt, w)" by (metis surj_pair)
  obtain ls where "rt = rt1\<lparr>rt_store := ls\<rparr>" using next_wake_effect [OF t(2)] nw by auto
  then have sched: "wf_scheduler (rt_scheduler rt)" using t(3) by simp
  let ?w = "w\<lparr>w_steady_n := w_steady_n w + 1\<rparr>"
  let ?s0 = "s\<lparr>es_runtime := rt, es_world := w\<rparr>" and ?s1 = "s\<lparr>es_runtime := rt, es_world := ?w\<rparr>"
  consider (idle) "wake = None" | (later) u where "wake = Some u" "w_steady w (w_steady_n w) < u"
    | (past) u where "wake = Some u" "u \<le> w_steady w (w_steady_n w)"
    by (cases wake) (auto simp: not_less [symmetric])
  then show ?thesis
  proof cases
    case idle
    have l: "edge_loop s = Returned (pause_for (SleepFor 100000000) ?s0)"
      using ne t(1) nw idle by (simp add: edge_loop_def)
    show ?thesis using edge_loop_keeps [OF assms(1) l] l sched by (simp add: pause_for_def)
  next
    case later
    have l: "edge_loop s = Returned (pause_for (SleepUntil u) ?s1)"
      using ne t(1) nw later by (simp add: edge_loop_def steady_now_def)
    have "?start < u" using wake_after_dispatch [OF wf assms(3,2,4,5) t(1)] nw later(1) by blast
    then show ?thesis using edge_loop_keeps [OF assms(1) l] l sched by (simp add: pause_for_def)
  next
    case past
    have l: "edge_loop s = Returned ?s1" using ne t(1) nw past by (simp add: edge_loop_def steady_now_def)
    have "?start < u" using wake_after_dispatch [OF wf assms(3,2,4,5) t(1)] nw past(1) by blast
    then show ?thesis using edge_loop_keeps [OF assms(1) l] l sched past(2) by simp
  qed
qed

theorem loop_turn_paces_witness: "\<exists>s. edge_loop ex_edge = Returned s \<and> edge_wf s"
proof -
  have "rt_channels (fst ex_runtime) \<noteq> []" using ex_runtime_state by simp
  then show ?thesis
    using loop_turn_paces [OF ex_edge_wf] ex_runtime_schedule ex_runtime_dump ex_runtime_net ex_mono ex_count_works
    by (auto simp: ex_edge_def same_net_def mono_clock_def)
qed

end
