(* ===== verification/Resilience.thy ===== *)
theory Resilience
  imports Daemon Ledger
begin

text \<open>
  The daemon over its whole life: that neither its loop nor its reload can hang or throw when the files
  it reads are readable, that its turns are runs of the pipeline, for which the account of \<open>Ledger\<close>
  holds, and how it behaves towards the server during an outage.
\<close>

section \<open>Files that can be used\<close>

definition usable_file :: "loaded \<Rightarrow> bool" where
  \<comment> \<open>no exception, and no rate so extreme that its period is not a positive number of nanoseconds\<close>
  "usable_file result =
     (case result of
        Inl _ \<Rightarrow> False
      | Inr (LoadFail _) \<Rightarrow> True
      | Inr (LoadOk c) \<Rightarrow> list_all (\<lambda>ch. active ch \<longrightarrow> usable_rate (ch_sample_rate_hz ch)) (cfg_channels c))"

definition usable_files :: "daemon_env \<Rightarrow> string \<Rightarrow> bool" where
  "usable_files env path \<longleftrightarrow> (\<forall>n. usable_file (load_config (de_yaml env) (de_files env n) path))"

lemma runtime_configure_returns:
  assumes "runtime_wf s" "wf_scheduler (rt_scheduler (fst s))"
    and "list_all (\<lambda>ch. active ch \<longrightarrow> usable_rate (ch_sample_rate_hz ch)) (cfg_channels c)"
  shows "\<exists>ok rt w. runtime_configure env c key s = Some (ok, rt, w) \<and> wf_scheduler (rt_scheduler rt)"
proof -
  obtain rt w where s: "s = (rt, w)" by fastforce
  let ?entries = "map entry_of (filter active (cfg_channels c))" and ?f = "fresh_members env c key rt"
  have usable: "\<forall>e \<in> set ?entries. usable_rate (se_sample_rate_hz e)"
    using assms(3) by (auto simp: entry_of_def list.pred_set)
  note f = fresh_members_effect [OF assms(1) [unfolded s], of env c key]
  obtain b rt1 w1 where o: "open_local_store (?f, w) = (b, rt1, w1)" by (metis surj_pair)
  have "rt_uploader ?f = None" using f by (simp add: pristine_def)
  from open_local_store_effect [OF conjunct1 [OF f] this o, of c] f
  have o1: "runtime_wf (rt1, w1)" "pristine c rt1" by simp_all
  obtain sched s2 where bc: "bind_channels env (cfg_channels c) [] (rt1, w1) = (sched, s2)" by (metis surj_pair)
  have "sched = None \<or> sched = Some ?entries"
    using bind_channels_effect [OF o1, of "cfg_channels c" "[]" env] bc by (cases sched) (auto simp: bound_def)
  moreover obtain q where "Scheduler.configure (fst (steady_now (snd s2))) ?entries = Some q"
    using configure_usable [OF usable] by blast
  ultimately have "runtime_configure env c key (rt, w) \<noteq> None"
    using o bc by (auto simp: runtime_configure_def finish_configure_def case_prod_beta Let_def)
  then obtain ok rt' w' where r: "runtime_configure env c key (rt, w) = Some (ok, rt', w')" by auto
  note e = runtime_configure_effect [OF assms(1) [unfolded s] this]
  have "wf_scheduler (rt_scheduler rt')"
  proof (cases ok)
    case True
    then obtain now where "Scheduler.configure now ?entries = Some (rt_scheduler rt')" using e by auto
    then show ?thesis using configure_usable [OF usable, of now] by simp
  next
    case False
    then show ?thesis using e assms(2) s by simp
  qed
  then show ?thesis using r s by blast
qed

section \<open>The edge service is a body that always returns\<close>

definition edge_sound :: "daemon_env \<Rightarrow> edge_service \<Rightarrow> bool" where
  "edge_sound env s \<longleftrightarrow> edge_wf s \<and> wf_scheduler (rt_scheduler (es_runtime s)) \<and>
     (\<forall>j. w_dump (es_world s) j \<noteq> None) \<and> usable_files env (es_config_path s)"

lemma edge_sound_frame [simp]:
  "edge_sound env (s\<lparr>es_loads := n\<rparr>) = edge_sound env s"
  "edge_sound env (pause_for p s) = edge_sound env s"
  by (simp_all add: edge_sound_def pause_for_def)

lemma edge_reload_sound:
  assumes "edge_sound env s"
  shows "\<exists>s'. edge_reload env s = Returned s' \<and> edge_sound env s'"
proof -
  let ?result = "load_config (de_yaml env) (de_files env (es_loads s)) (es_config_path s)"
  have usable: "usable_file ?result" using assms by (simp add: edge_sound_def usable_files_def)
  show ?thesis
  proof (cases ?result)
    case (Inl e)
    then show ?thesis using usable by (simp add: usable_file_def)
  next
    case (Inr r)
    show ?thesis
    proof (cases r)
      case (LoadFail m)
      then show ?thesis using Inr assms by (simp add: edge_reload_def Let_def)
    next
      case (LoadOk c)
      have wf: "runtime_wf (es_runtime s, es_world s)" "wf_scheduler (rt_scheduler (fst (es_runtime s, es_world s)))"
        using assms by (simp_all add: edge_sound_def edge_wf_def)
      have "list_all (\<lambda>ch. active ch \<longrightarrow> usable_rate (ch_sample_rate_hz ch)) (cfg_channels c)"
        using usable Inr LoadOk by (simp add: usable_file_def)
      from runtime_configure_returns [OF wf this] obtain ok rt w where
        r: "runtime_configure (de_runtime env) c [] (es_runtime s, es_world s) = Some (ok, rt, w)" "wf_scheduler (rt_scheduler rt)"
        by blast
      let ?s = "s\<lparr>es_loads := es_loads s + 1, es_config := c, es_runtime := rt, es_world := w\<rparr>"
      have e: "edge_reload env s = Returned ?s" using Inr LoadOk r(1) by (simp add: edge_reload_def Let_def)
      have "edge_wf ?s" using edge_reload_keeps [OF _ e] assms by (simp add: edge_sound_def)
      moreover have "w_dump w = w_dump (es_world s)"
        using runtime_configure_net [OF wf(1) r(1)] by (simp add: same_net_def)
      ultimately show ?thesis using e r(2) assms by (simp add: edge_sound_def)
    qed
  qed
qed

lemma next_wake_frame:
  assumes "runtime_wf s" "next_wake s = (wake, s')"
  shows "runtime_wf s' \<and> pipeline_frame s s'"
proof -
  obtain rt w where s: "s = (rt, w)" by fastforce
  have "s' = (rt, w) \<or> s' = snd (store_pending (rt, w))"
    using assms(2) s by (auto simp: next_wake_def Let_def case_prod_beta split: if_splits option.splits)
  then show ?thesis using assms(1) s store_pending_effect [of rt w] by auto
qed

lemma edge_loop_sound:
  assumes "edge_sound env s"
  shows "\<exists>s'. edge_loop s = Returned s' \<and> edge_sound env s'"
proof (cases "cfg_channels (es_config s) = []")
  case True
  then show ?thesis using assms by (simp add: edge_loop_def)
next
  case False
  have a: "runtime_wf (es_runtime s, es_world s)" "wf_scheduler (rt_scheduler (es_runtime s))"
      "\<forall>j. w_dump (es_world s) j \<noteq> None" "edge_wf s"
    using assms by (simp_all add: edge_sound_def edge_wf_def)
  obtain rt1 w1 where t: "tick (es_runtime s, es_world s) = Some (Done (rt1, w1))" "runtime_wf (rt1, w1)"
      "wf_scheduler (rt_scheduler rt1)"
    using tick_completes [OF a(1-3)] by blast
  obtain wake rt w where nw: "next_wake (rt1, w1) = (wake, rt, w)" by (metis surj_pair)
  have f: "wf_scheduler (rt_scheduler rt)" "w_dump w = w_dump (es_world s)"
    using next_wake_frame [OF t(2) nw] t(3) tick_frame(6) [OF a(1,2) t(1)] by (simp_all add: pipeline_frame_def)
  obtain s' where e: "edge_loop s = Returned s'" "rt_scheduler (es_runtime s') = rt_scheduler rt"
      "w_dump (es_world s') = w_dump w" "es_config_path s' = es_config_path s"
    using False t(1) nw by (cases wake) (auto simp: edge_loop_def pause_for_def steady_now_def Let_def)
  then show ?thesis using edge_loop_keeps [OF a(4) e(1)] f assms by (simp add: edge_sound_def)
qed

interpretation sound_edge: total_service_body "edge_class env foreground" "edge_sound env" for env foreground
proof (unfold_locales, goal_cases)
  case (1 s s')
  then show ?case using edge_reload_sound [of env s] by (auto simp: edge_class_def)
next
  case (2 s s')
  then show ?case using edge_loop_sound [of env s] by (auto simp: edge_class_def)
next
  case (3 s)
  then show ?case using edge_reload_sound [of env s] by (auto simp: edge_class_def)
next
  case (4 s)
  then show ?case using edge_loop_sound [of env s] by (auto simp: edge_class_def)
qed

lemma main_sound:
  assumes "sqlite_laws (w_sqlite w)" "\<forall>t \<in> ran (w_disk w). wf_table t" "\<forall>j. w_dump w j \<noteq> None"
    and "daemon_main env args w = MainStart foreground s0" "usable_files env (es_config_path s0)"
  shows "edge_sound env s0"
proof -
  obtain path c ok rt w' where m: "load_config (de_yaml env) (de_files env 0) path = Inr (LoadOk c)"
      "runtime_configure (de_runtime env) c [] (runtime_new, w) = Some (ok, rt, w')"
      "s0 = \<lparr>es_config_path = path, es_config = c, es_runtime = rt, es_world = w', es_loads = 1, es_pauses = []\<rparr>"
    using assms(4) by (auto simp: daemon_main_def edge_new_def
        split: prod.splits bool.splits sum.splits load_result.splits option.splits)
  have wf: "runtime_wf (runtime_new, w)" using runtime_new_wf [OF assms(1,2)] .
  have "edge_wf s0" using edge_wf_configured [OF wf load_config_ok_valid [OF m(1)] m(2), of s0] m(3) by simp
  moreover have "wf_scheduler (rt_scheduler (fst (runtime_new, w)))" by (simp add: runtime_new_def wf_scheduler_def)
  moreover have "usable_file (load_config (de_yaml env) (de_files env 0) path)"
    using assms(5) m(3) by (simp add: usable_files_def)
  then have "list_all (\<lambda>ch. active ch \<longrightarrow> usable_rate (ch_sample_rate_hz ch)) (cfg_channels c)"
    using m(1) by (simp add: usable_file_def)
  ultimately have "wf_scheduler (rt_scheduler rt)"
    using runtime_configure_returns [OF wf, of c "de_runtime env" "[]"] m(2) by simp
  moreover have "w_dump w' = w_dump w" using runtime_configure_net [OF wf m(2)] by (simp add: same_net_def)
  ultimately show ?thesis using \<open>edge_wf s0\<close> m(3) assms(3,5) by (simp add: edge_sound_def)
qed

section \<open>Turns of the loop are runs of the pipeline\<close>

fun turn_samples :: "nat \<Rightarrow> edge_service \<Rightarrow> stored_sample list" where
  \<comment> \<open>what the drivers deliver in that many turns\<close>
  "turn_samples 0 s = []"
| "turn_samples (Suc n) s =
     (if cfg_channels (es_config s) = [] then [] else tick_samples (es_runtime s, es_world s)) @
     (case edge_loop s of Returned s' \<Rightarrow> turn_samples n s' | _ \<Rightarrow> [])"

lemma edge_loop_run:
  assumes "run start xs (es_runtime s, es_world s)" "edge_loop s = Returned s'"
  shows "run start (xs @ (if cfg_channels (es_config s) = [] then [] else tick_samples (es_runtime s, es_world s)))
    (es_runtime s', es_world s')"
proof (cases "cfg_channels (es_config s) = []")
  case True
  then show ?thesis using assms by (auto simp: edge_loop_def pause_for_def)
next
  case False
  then obtain state where t: "tick (es_runtime s, es_world s) = Some (Done state)"
    using assms(2) by (auto simp: edge_loop_def split: option.splits step_result.splits)
  obtain wake rt w where nw: "next_wake state = (wake, rt, w)" by (metis surj_pair)
  have r: "run start (xs @ tick_samples (es_runtime s, es_world s)) (rt, w)"
    using run_wake [OF run_tick [OF assms(1) t] nw] .
  have "run start (xs @ tick_samples (es_runtime s, es_world s)) (rt, w\<lparr>w_steady_n := w_steady_n w + 1\<rparr>)"
    using run_wait [OF r, where n = "w_steady_n w + 1" and m = "w_system_n w"] by simp
  moreover have "es_runtime s' = rt \<and> (es_world s' = w \<or> es_world s' = w\<lparr>w_steady_n := w_steady_n w + 1\<rparr>)"
    using assms(2) False t nw by (cases wake) (auto simp: edge_loop_def pause_for_def steady_now_def Let_def split: if_splits)
  ultimately show ?thesis using False r by auto
qed

lemma loop_turns_run:
  "edge_sound env s \<Longrightarrow> run start xs (es_runtime s, es_world s) \<Longrightarrow>
   \<exists>s'. loop_turns n s = Returned s' \<and> edge_sound env s' \<and>
     run start (xs @ turn_samples n s) (es_runtime s', es_world s')"
proof (induction n arbitrary: s xs)
  case (Suc n)
  obtain s1 where s1: "edge_loop s = Returned s1" "edge_sound env s1" using edge_loop_sound [OF Suc.prems(1)] by blast
  from Suc.IH [OF s1(2) edge_loop_run [OF Suc.prems(2) s1(1)]] s1(1) show ?case by simp
qed simp

section \<open>Urgent channels during an outage\<close>

definition urgent :: "upload_policy \<Rightarrow> bool" where
  "urgent p \<longleftrightarrow> pol_any_pending_realtime p \<or> pol_any_pending_on_change p"

lemma urgent_on_sample: "urgent p \<Longrightarrow> urgent (on_sample c v t p)"
  by (auto simp: urgent_def on_sample_def split: option.split sync_mode.split)

lemma urgent_poll: "urgent (rt_policy (fst s)) \<Longrightarrow> urgent (rt_policy (fst (poll_channel i s)))"
proof -
  have takes: "urgent pol \<Longrightarrow> urgent (snd (take_samples i p t xs (rb, pol)))" for p t xs rb pol
    by (induction xs arbitrary: rb pol) (simp_all add: urgent_on_sample)
  show "urgent (rt_policy (fst s)) \<Longrightarrow> ?thesis"
    by (cases s) (auto simp: poll_channel_def case_prod_beta Let_def takes split: option.split)
qed

lemma urgent_polls: "urgent (rt_policy (fst s)) \<Longrightarrow> urgent (rt_policy (fst (fold poll_channel ids s)))"
  by (induction ids arbitrary: s) (simp_all add: urgent_poll)

lemma poll_due_urgent:
  assumes "runtime_wf (rt, w)" "poll_due (rt, w) = Some (rt1, w1)" "urgent (rt_policy rt)"
  shows "urgent (rt_policy rt1)"
proof -
  obtain q ids rt2 where i: "(rt2, w1) = fold poll_channel ids (rt, snd (steady_now w))" "rt1 = rt2\<lparr>rt_scheduler := q\<rparr>"
    using poll_due_effect [OF assms(1,2)] by auto
  have "urgent (rt_policy (fst (fold poll_channel ids (rt, snd (steady_now w)))))"
    using assms(3) by (intro urgent_polls) simp
  then show ?thesis unfolding i(1) [symmetric] using i(2) by simp
qed

lemma take_in_nonempty: "0 < cap \<Longrightarrow> pi_buffer (take_in cap x p) \<noteq> []"
  by (auto simp: take_in_def queue_enqueue_def Let_def)

lemma take_all_nonempty: "0 < cap \<Longrightarrow> xs \<noteq> [] \<Longrightarrow> pi_buffer (take_all cap xs p) \<noteq> []"
  by (induction xs rule: rev_induct) (simp_all add: take_in_nonempty)

lemma maybe_retry_policy: "maybe_retry s = Done s' \<Longrightarrow> rt_policy (fst s') = rt_policy (fst s)"
  by (cases s) (auto simp: maybe_retry_def after_retry_def store_pending_def reset_backoff_after_success_def
      advance_backoff_after_failure_def case_prod_beta Let_def split: option.splits if_splits sum.splits upload_result.splits)

lemma maybe_flush_policy:
  assumes "runtime_wf (rt, w)" "rt_uploader rt = Some up" "rt_buffer rt = Some rb"
    and "maybe_flush (rt, w) = Done (rt', w')" "next_reply w = KTransientFailure"
  shows "rt_policy rt' = rt_policy rt"
proof (cases "should_flush (w_steady w (w_steady_n w)) (rb_size rb) (max_batch rt) (rt_policy rt)")
  case False
  have "wf_buffer rb" using assms(1,3) by (simp add: runtime_wf_def wf_members_def)
  then show ?thesis using maybe_flush_eq [OF assms(2,3), of w] assms(4) False by simp
next
  case True
  from assms(1-3) True assms(4) show ?thesis
    by (rule flush_after_upload) (auto simp: assms(5) after_upload_cases advance_backoff_simps sent_away_def)
qed

lemma maybe_retry_posts:
  assumes "runtime_wf (rt, w)" "rt_uploader rt = Some up" "maybe_retry (rt, w) = Done (rt', w')"
  shows "\<exists>qs. w_posts w' = w_posts w @ qs"
proof (cases "rt_store_open rt")
  case True
  from retry_step [OF assms(1,2) True assms(3)] show ?thesis by auto
next
  case False
  then show ?thesis using assms(2,3) by (auto simp: maybe_retry_def)
qed

lemma tick_urgent:
  assumes "runtime_wf (rt, w)" "wf_scheduler (rt_scheduler rt)" "rt_uploader rt = Some up" "urgent (rt_policy rt)"
    and "tick_samples (rt, w) \<noteq> []" "tick (rt, w) = Some (Done (rt', w'))"
  shows "(\<exists>q qs. w_posts w' = w_posts w @ q # qs) \<and> (next_reply w = KTransientFailure \<longrightarrow> urgent (rt_policy rt'))"
proof -
  have ne: "rt_channels rt \<noteq> []" using assms(5) by (auto simp: tick_samples_def)
  obtain rt1 w1 rt2 w2 where st: "poll_due (rt, w) = Some (rt1, w1)" "maybe_flush (rt1, w1) = Done (rt2, w2)"
      "maybe_retry (rt2, w2) = Done (rt', w')"
    using tick_SomeE [OF assms(6)] ne by (metis fst_conv surj_pair)
  note e1 = poll_due_world [OF assms(1) st(1)]
  have w1: "w_posts w1 = w_posts w" "w_reply w1 = w_reply w"
    using poll_world_store(3,6) [OF e1(2)] by (simp_all add: same_net_def)
  obtain rb0 where rb0: "rt_buffer rt = Some rb0" "rb_wf rb0"
    using assms(1) ne by (auto simp: runtime_wf_def wf_members_def wf_buffer_def split: option.splits)
  have "represents False (rt, w) (open_account (rt, w)) (rt, w)" using rb0(1) by (simp add: represents_open_account)
  from poll_due_represents [OF assms(1,2) ne this st(1)] obtain rb where
    rb: "rt_buffer rt1 = Some rb" "contents rb = pi_buffer (take_all (room (rt, w)) (tick_samples (rt, w)) (open_account (rt, w)))"
    by (auto simp: represents_def)
  have "0 < room (rt, w)" using rb0 by (simp add: room_def rb_wf_def)
  then have "contents rb \<noteq> []" using rb(2) take_all_nonempty assms(5) by simp
  then have "rb_size rb \<noteq> 0" by (metis length_0_conv length_contents)
  then have flush: "should_flush (w_steady w1 (w_steady_n w1)) (rb_size rb) (max_batch rt1) (rt_policy rt1)"
    using poll_due_urgent [OF assms(1) st(1) assms(4)] by (auto simp: should_flush_def urgent_def)
  have up: "rt_uploader rt1 = Some up" using e1(3) assms(3) by simp
  obtain q where q: "w_posts w2 = w_posts w1 @ [q]" using flush_step [OF e1(1) up rb(1) flush st(2)] by metis
  have e2: "runtime_wf (rt2, w2)" "rt_uploader rt2 = Some up"
    using maybe_flush_effect [OF e1(1)] st(2) up by (simp_all add: pipeline_frame_def)
  obtain qs where "w_posts w' = w_posts w2 @ qs" using maybe_retry_posts [OF e2 st(3)] by blast
  moreover have "rt_policy rt2 = rt_policy rt1" if "next_reply w = KTransientFailure"
    using maybe_flush_policy [OF e1(1) up rb(1) st(2)] that w1 by (simp add: next_reply_def)
  ultimately show ?thesis
    using q w1 maybe_retry_policy [OF st(3)] poll_due_urgent [OF assms(1) st(1) assms(4)] by simp
qed

section \<open>A store that cannot be read\<close>

definition select_fails :: "sqlite \<Rightarrow> bool" where
  "select_fails e \<longleftrightarrow> (\<forall>n db binds d. \<exists>m. fst (sq_run e n db select_sql binds d) = PrepareFailed m)"

lemma peek_batch_fails: "select_fails (w_sqlite (snd s)) \<Longrightarrow> fst (peek_batch n s) = []"
proof -
  assume fails: "select_fails (w_sqlite (snd s))"
  obtain ls w where s: "s = (ls, w)" by fastforce
  have "\<exists>m. fst (sql_run db select_sql binds w) = PrepareFailed m" for db binds
    using fails s by (simp add: select_fails_def sql_run_def case_prod_beta)
  then show ?thesis by (auto simp: s peek_batch_def split: option.split prod.split sql_result.split) (metis fst_conv sql_result.distinct(1))
qed

text \<open>
  With rows that are counted but cannot be read, a retry that is due sends nothing, yet it ends the
  backoff and counts as an upload the server accepted.
\<close>

lemma unreadable_store_counts_as_accepted:
  assumes "runtime_wf (rt, w)" "rt_uploader rt = Some up" "rt_store_open rt" "count_works (w_sqlite w)"
    and "store_rows (rt_store rt, w) \<noteq> []" "rt_next_retry_at rt \<le> w_steady w (w_steady_n w)"
    and "select_fails (w_sqlite w)"
  shows "\<exists>rt' w'. maybe_retry (rt, w) = Done (rt', w') \<and> w_posts w' = w_posts w \<and> rt_retry_attempt rt' = 0 \<and>
    rt_accepted_upload_count rt' = rt_accepted_upload_count rt + 1"
proof -
  obtain n rt1 w1 where p: "store_pending (rt, w) = (n, rt1, w1)" by (metis surj_pair)
  note e = store_pending_works [OF assms(1,3,4) p]
  then obtain ls where rt1: "rt1 = rt\<lparr>rt_store := ls\<rparr>" by blast
  let ?s = "(rt_store rt1, w1\<lparr>w_steady_n := w_steady_n w1 + 1\<rparr>)"
  have net: "w_posts w1 = w_posts w" "w_steady w1 = w_steady w" "w_sqlite w1 = w_sqlite w" using e by (simp_all add: same_net_def)
  obtain r ls2 w2 where rp: "retry_pending up (max_batch rt1) ?s = (r, ls2, w2)" by (metis surj_pair)
  obtain rows s1 where pk: "peek_batch (max_batch rt1) ?s = (rows, s1)" by (metis surj_pair)
  have "rows = []" using peek_batch_fails [of ?s "max_batch rt1"] pk assms(7) net(3) by simp
  moreover have "store_wf ?s" "up_has_store up"
    using e assms(1-3) by (simp_all add: runtime_wf_def wf_members_def)
  ultimately have r: "r = Inr KAccepted" "w_posts w2 = w_posts w"
    using retry_effect_peeked [OF _ _ rp pk] net(1) by (simp_all add: retry_spec_def)
  have "retry_due (rt1, w1)" "n \<noteq> 0" using assms(5,6) e net(2) rt1 by (simp_all add: retry_due_def)
  then have "maybe_retry (rt, w) = after_retry (Inr KAccepted, rt1\<lparr>rt_store := ls2\<rparr>, w2)"
    using maybe_retry_eq [OF assms(2,3), of w] p rp r(1) by simp
  then show ?thesis using r(2) rt1 by (simp add: after_retry_cases(1) reset_backoff_after_success_def)
qed

section \<open>Examples\<close>

lemma ex_files_usable: "usable_files (ex_daemon_env ex_good) ''c.yaml''"
proof -
  have "usable_file (check_document ex_yaml_cpp ex_good)" by code_simp
  then show ?thesis by (simp add: usable_files_def ex_daemon_env_def load_ex_files)
qed

lemma ex_edge_sound: "edge_sound (ex_daemon_env ex_good) ex_edge"
  using ex_edge_wf ex_runtime_schedule ex_runtime_dump ex_files_usable by (simp add: edge_sound_def ex_edge_def)

lemma ex_backoff_urgent:
  "urgent (rt_policy (fst ex_backoff))" "tick_samples ex_backoff \<noteq> []" "wf_scheduler (rt_scheduler (fst ex_backoff))"
proof -
  have "case ex_backoff of (rt, w) \<Rightarrow> urgent (rt_policy rt) \<and> tick_samples (rt, w) \<noteq> [] \<and>
      list_all wf_channel (rt_scheduler rt)" by code_simp
  then show "urgent (rt_policy (fst ex_backoff))" "tick_samples ex_backoff \<noteq> []"
    "wf_scheduler (rt_scheduler (fst ex_backoff))"
    by (simp_all add: case_prod_beta wf_scheduler_def list.pred_set)
qed

section \<open>Properties\<close>

text \<open>
  C4: The daemon neither hangs nor crashes, and it stops when told. If no file that it reads makes the
  YAML library throw and no rate in them is out of range, and payloads can be serialised, then in every
  state it can reach, whatever signals arrive and whichever of its reloads fail, no call of \<open>loop\<close> or
  \<open>reload\<close> has thrown or failed to return; and once it is told to stop in its loop, five steps of its
  thread end it with the exit status of success.
\<close>

theorem daemon_never_stuck:
  assumes "sqlite_laws (w_sqlite w)" "\<forall>t \<in> ran (w_disk w). wf_table t" "\<forall>j. w_dump w j \<noteq> None"
    and "daemon_main env args w = MainStart foreground s0" "usable_files env (es_config_path s0)"
    and "service_reach px (edge_class env foreground) (service_new fl p s0) s"
  shows "sv_pc s \<noteq> SvStuck \<and> (\<forall>e. sv_pc s \<noteq> SvThrown e) \<and>
    (\<forall>events. fresh_descriptors px \<and> looping (sv_pc s) \<and> g_running (sv_flags s) = 0 \<and> list_all ours events \<and>
       5 \<le> count_list events Thread \<longrightarrow>
       sv_pc (run_service px (edge_class env foreground) events s) = SvExited EXIT_SUCCESS)"
proof -
  have sound: "edge_sound env s0" using main_sound [OF assms(1-5)] .
  then have "edge_sound env (sv_self (service_new fl p s0))" "unharmed (sv_pc (service_new fl p s0))"
    by (simp_all add: service_new_def)
  then have "unharmed (sv_pc s)" using sound_edge.reach_unharmed [OF assms(6)] by blast
  then have "sv_pc s \<noteq> SvStuck" "sv_pc s \<noteq> SvThrown e" for e by auto
  then show ?thesis using sound_edge.stops_cleanly [OF assms(6) sound] by blast
qed

theorem daemon_never_stuck_witness:
  "\<exists>s0. daemon_main (ex_daemon_env ex_good) [''--foreground'', ''--config'', ''c.yaml''] ex_down = MainStart True s0 \<and>
     (\<forall>events. sv_pc (run_service ex_posix (edge_class (ex_daemon_env ex_good) True) events
        (service_new \<lparr>g_running = 0, g_reload = 1\<rparr> ex_process s0)) \<noteq> SvStuck)"
proof -
  obtain s0 where m: "daemon_main (ex_daemon_env ex_good) [''--foreground'', ''--config'', ''c.yaml''] ex_down = MainStart True s0"
    using ex_main by blast
  then have "es_config_path s0 = ''c.yaml''"
    by (auto simp: daemon_main_def edge_new_def split: sum.splits load_result.splits option.splits)
  then have files: "usable_files (ex_daemon_env ex_good) (es_config_path s0)" using ex_files_usable by simp
  have w: "sqlite_laws (w_sqlite ex_down)" "\<forall>t \<in> ran (w_disk ex_down). wf_table t" "\<forall>j. w_dump ex_down j \<noteq> None"
    using ex_world_laws by (simp_all add: ex_down_def) (simp_all add: ex_world_def)
  from daemon_never_stuck [OF w m files reach_run [OF service_reach.start]] m show ?thesis by blast
qed

text \<open>
  C5: The turns of the daemon's loop, as many as one likes, always return, and together they are a run
  of the pipeline with the samples its drivers delivered in them, so that the account of the samples
  holds from the first turn after a configuration to the last before the next.
\<close>

theorem turns_are_runs:
  assumes "edge_sound env s"
  shows "\<exists>s'. loop_turns n s = Returned s' \<and> edge_sound env s' \<and>
    run (es_runtime s, es_world s) (turn_samples n s) (es_runtime s', es_world s')"
  using loop_turns_run [OF assms run_start, of n] by simp

theorem turns_are_runs_witness:
  "\<exists>s. loop_turns 1000 ex_edge = Returned s \<and>
     run ex_runtime (turn_samples 1000 ex_edge) (es_runtime s, es_world s)"
  using turns_are_runs [OF ex_edge_sound, of 1000] by (auto simp: ex_edge_def)

text \<open>
  C9: The flush takes no notice of the backoff. While a realtime or on-change channel is waiting, every
  step that reads a sample posts at least once, however far away the announced retry is; and a
  transient failure leaves the channel waiting, so during an outage every such step posts again.
\<close>

theorem flush_ignores_backoff:
  assumes "runtime_wf (rt, w)" "wf_scheduler (rt_scheduler rt)" "rt_uploader rt = Some up" "urgent (rt_policy rt)"
    and "tick_samples (rt, w) \<noteq> []" "tick (rt, w) = Some (Done (rt', w'))"
  shows "(\<exists>q qs. w_posts w' = w_posts w @ q # qs) \<and> (next_reply w = KTransientFailure \<longrightarrow> urgent (rt_policy rt'))"
  using tick_urgent [OF assms] .

theorem flush_ignores_backoff_witness:
  "\<exists>rt w. tick ex_backoff = Some (Done (rt, w)) \<and> w_posts w \<noteq> [] \<and>
     w_steady (snd ex_backoff) (w_steady_n (snd ex_backoff)) < rt_next_retry_at (fst ex_backoff)"
proof -
  have wf: "runtime_wf (fst ex_backoff, snd ex_backoff)" using ex_backoff_wf by simp
  have "\<forall>j. w_dump (snd ex_backoff) j \<noteq> None"
    using ex_polled_net by (simp add: same_net_def ex_backoff_def ex_down_def ex_world_def)
  from tick_completes [OF wf ex_backoff_urgent(3) this] obtain rt w where
    t: "tick (fst ex_backoff, snd ex_backoff) = Some (Done (rt, w))" by blast
  obtain up where up: "rt_uploader (fst ex_backoff) = Some up"
    "w_steady (snd ex_backoff) (w_steady_n (snd ex_backoff)) < rt_next_retry_at (fst ex_backoff)"
    using ex_polled_state by (simp add: ex_backoff_def) metis
  from flush_ignores_backoff [OF wf ex_backoff_urgent(3) up(1) ex_backoff_urgent(1) _ t] ex_backoff_urgent(2)
  have "w_posts w \<noteq> []" by auto
  then show ?thesis using t up(2) by auto
qed

end
