(* ===== verification/Widths.thy ===== *)
theory Widths
  imports Resilience
begin

text \<open>
  The width of the clock. Times and durations are unbounded integers in the rest of the development; in the
  program they are \<open>int64_t\<close> counts of nanoseconds, and an addition that leaves that range is undefined. Here the
  arithmetic of \<open>src/telemetry/scheduler.cpp\<close> is done again with every addition checked, and proved to be the
  same for every state the daemon can reach while its clock is more than a thousand seconds from the end of
  the range, which it reaches after 292 years.
\<close>

section \<open>Dispatching with 64-bit arithmetic\<close>

definition i64 :: "int \<Rightarrow> int option" where
  \<comment> \<open>the result of a signed 64-bit operation, if it is representable\<close>
  "i64 n = (if - (2 ^ 63) \<le> n \<and> n < 2 ^ 63 then Some n else None)"

partial_function (option) catch_up64 :: "int \<Rightarrow> int \<Rightarrow> int \<Rightarrow> int option" where
  "catch_up64 nxt period now =
     (if nxt \<le> now then (case i64 (nxt + period) of None \<Rightarrow> None | Some n \<Rightarrow> catch_up64 n period now) else Some nxt)"

definition advance64 :: "int \<Rightarrow> channel_state \<Rightarrow> channel_state option" where
  "advance64 now channel =
     (case i64 (cs_next_deadline channel + cs_period channel) of
        None \<Rightarrow> None
      | Some first \<Rightarrow>
          (case catch_up64 first (cs_period channel) now of
             None \<Rightarrow> None
           | Some nxt \<Rightarrow>
               (if nxt \<le> cs_next_deadline channel
                then (case i64 (now + cs_period channel) of
                        None \<Rightarrow> None
                      | Some n \<Rightarrow> Some (channel\<lparr>cs_next_deadline := n\<rparr>))
                else Some (channel\<lparr>cs_next_deadline := nxt\<rparr>))))"

fun dispatch64 ::
  "(string \<Rightarrow> 's \<Rightarrow> 's) \<Rightarrow> int \<Rightarrow> channel_state list \<Rightarrow> 's \<Rightarrow> (nat \<times> channel_state list \<times> 's) option" where
  "dispatch64 poll now [] st = Some (0, [], st)"
| "dispatch64 poll now (channel # channels) st =
     (if now < cs_next_deadline channel
      then (case dispatch64 poll now channels st of
              None \<Rightarrow> None
            | Some (n, channels', st') \<Rightarrow> Some (n, channel # channels', st'))
      else
        let st1 = poll (se_channel_id (cs_entry channel)) st in
        (case advance64 now channel of
           None \<Rightarrow> None
         | Some channel' \<Rightarrow>
             (case dispatch64 poll now channels st1 of
                None \<Rightarrow> None
              | Some (n, channels', st') \<Rightarrow> Some (n + 1, channel' # channels', st'))))"

definition poll_due64 :: "runtime \<Rightarrow> runtime option" where
  "poll_due64 = (\<lambda>(rt, w).
     (let (now, w) = steady_now w in
      case dispatch64 poll_channel now (rt_scheduler rt) (rt, w) of
        None \<Rightarrow> None
      | Some (_, channels, rt, w) \<Rightarrow> Some (rt\<lparr>rt_scheduler := channels\<rparr>, w)))"

section \<open>Where both agree\<close>

definition fits64 :: "int \<Rightarrow> channel_state \<Rightarrow> bool" where
  \<comment> \<open>a dispatch at \<open>now\<close> stays in the range\<close>
  "fits64 now c \<longleftrightarrow> wf_channel c \<and> 0 \<le> cs_next_deadline c \<and> now + cs_period c < 2 ^ 63"

lemma i64_ok: "0 \<le> n \<Longrightarrow> n < 2 ^ 63 \<Longrightarrow> i64 n = Some n"
  by (simp add: i64_def)

lemma catch_up64_eq:
  assumes "0 < period" "0 \<le> nxt" "now + period < 2 ^ 63"
  shows "catch_up64 nxt period now = catch_up nxt period now"
  using assms(2)
proof (induction "nat (now - nxt + 1)" arbitrary: nxt rule: less_induct)
  case less
  show ?case
  proof (cases "nxt \<le> now")
    case False
    then show ?thesis by (subst catch_up64.simps) (simp add: catch_up_done)
  next
    case True
    have "i64 (nxt + period) = Some (nxt + period)" using True less.prems assms by (intro i64_ok) simp_all
    moreover have "catch_up64 (nxt + period) period now = catch_up (nxt + period) period now"
      using True less.prems assms(1) by (intro less.hyps) simp_all
    ultimately show ?thesis using True by (subst catch_up64.simps) (simp add: catch_up_step)
  qed
qed

lemma advance64_eq:
  assumes "fits64 now c" "is_due now c"
  shows "advance64 now c = advance now c"
proof -
  let ?d = "cs_next_deadline c" and ?p = "cs_period c"
  have a: "0 < ?p" "0 \<le> ?d" "now + ?p < 2 ^ 63" "?d \<le> now"
    using assms by (simp_all add: fits64_def wf_channel_def is_due_def)
  then have "i64 (?d + ?p) = Some (?d + ?p)" "i64 (now + ?p) = Some (now + ?p)" by (simp_all add: i64_ok)
  moreover have "catch_up64 (?d + ?p) ?p now = catch_up (?d + ?p) ?p now" using a by (intro catch_up64_eq) simp_all
  ultimately show ?thesis by (simp add: advance64_def advance_def split: option.split)
qed

lemma dispatch64_eq:
  "\<forall>c \<in> set channels. fits64 now c \<Longrightarrow>
   dispatch64 poll now channels st = dispatch_channels poll now channels st"
proof (induction channels arbitrary: st)
  case (Cons c channels)
  then show ?case using advance64_eq [of now c] by (simp add: is_due_def Let_def split: option.split)
qed simp

text \<open>Where the check matters: a deadline that cannot be moved on is undefined behaviour in the program.\<close>

lemma advance64_overflow:
  assumes "2 ^ 63 \<le> cs_next_deadline c + cs_period c"
  shows "advance64 now c = None"
  using assms by (simp add: advance64_def i64_def)

section \<open>The instants the pipeline keeps\<close>

definition kLongestPeriod :: int where
  \<comment> \<open>of a rate of 0.001 Hz, with the rounding of its conversion\<close>
  "kLongestPeriod = 1000000000001"

definition kLongestDelay :: int where
  "kLongestDelay = 300000000000"

definition clock_below :: "int \<Rightarrow> world \<Rightarrow> bool" where
  "clock_below T w \<longleftrightarrow> (\<forall>n. 0 \<le> w_steady w n \<and> w_steady w n \<le> T)"

definition sched_within :: "int \<Rightarrow> scheduler \<Rightarrow> bool" where
  "sched_within T q \<longleftrightarrow> (\<forall>c \<in> set q. wf_channel c \<and> cs_period c \<le> kLongestPeriod \<and> 0 \<le> cs_next_deadline c \<and>
     cs_next_deadline c \<le> T + kLongestPeriod)"

definition policy_within :: "int \<Rightarrow> upload_policy \<Rightarrow> bool" where
  "policy_within T p \<longleftrightarrow> (\<forall>kv \<in> set (pol_channels p). 0 \<le> ps_last_flush (snd kv) \<and> ps_last_flush (snd kv) \<le> T)"

definition instants_within :: "int \<Rightarrow> telemetry_runtime \<Rightarrow> bool" where
  "instants_within T rt \<longleftrightarrow> sched_within T (rt_scheduler rt) \<and> policy_within T (rt_policy rt) \<and>
     0 \<le> rt_next_retry_at rt \<and> rt_next_retry_at rt \<le> T + kLongestDelay"

lemma clock_below_now: "clock_below T w \<Longrightarrow> 0 \<le> fst (steady_now w) \<and> fst (steady_now w) \<le> T"
  by (simp add: clock_below_def)

lemma clock_below_cong: "w_steady w' = w_steady w \<Longrightarrow> clock_below T w' = clock_below T w"
  by (simp add: clock_below_def)

lemma clock_below_pos: "clock_below T w \<Longrightarrow> 0 \<le> T"
  unfolding clock_below_def by (meson order_trans)

lemma backoff_delay_range: "0 \<le> backoff_delay n \<and> backoff_delay n \<le> kLongestDelay"
proof -
  have "n - 1 < 0 \<or> 4 < n - 1 \<or> n = 1 \<or> n = 2 \<or> n = 3 \<or> n = 4 \<or> n = 5" by linarith
  then show ?thesis by (elim disjE) (simp_all add: backoff_delay_def kLongestDelay_def Let_def)
qed

text \<open>The schedule.\<close>

lemma sched_within_wf: "sched_within T q \<Longrightarrow> wf_scheduler q"
  by (simp add: sched_within_def wf_scheduler_def)

lemma sched_within_reschedule:
  assumes "sched_within T q" "0 \<le> now" "now \<le> T"
  shows "sched_within T (map (reschedule now) q)"
  unfolding sched_within_def
proof
  fix c' assume "c' \<in> set (map (reschedule now) q)"
  then obtain c where c: "c \<in> set q" "c' = reschedule now c" by auto
  then have w: "wf_channel c" "cs_period c \<le> kLongestPeriod" "0 \<le> cs_next_deadline c" "cs_next_deadline c \<le> T + kLongestPeriod"
    using assms(1) by (auto simp: sched_within_def)
  have "now < next_slot now c" "next_slot now c \<le> now + cs_period c" using next_slot_bounds [OF w(1)] by blast+
  then show "wf_channel c' \<and> cs_period c' \<le> kLongestPeriod \<and> 0 \<le> cs_next_deadline c' \<and> cs_next_deadline c' \<le> T + kLongestPeriod"
    using w assms(2,3) c(2) by (cases "is_due now c") (simp_all add: reschedule_def wf_channel_def)
qed

lemma usable_rate_longest:
  assumes "usable_rate r" "period_from_hz r = Some p"
  shows "1 \<le> p \<and> p \<le> kLongestPeriod"
proof -
  obtain h where h: "r = Fin h" "1 / 1000 \<le> h" "h \<le> 1000000000"
    using assms(1) by (auto simp: usable_rate_def split: fp.splits)
  then have p: "1 \<le> p" "\<bar>of_int p - 1000000000 / h\<bar> < 1 + 1 / 1000"
    using period_from_hz_bounds [OF h(2,3)] assms(2) by auto
  have "0 < h" using h(2) by (simp add: less_le_trans [of 0 "1 / 1000"])
  then have "1000000000 / h \<le> 1000000000000" using h(2) by (simp add: divide_simps)
  then have "of_int p < (1000000000002 :: rat)" using p(2) abs_ge_self [of "of_int p - 1000000000 / h"] by linarith
  then have "p < 1000000000002" by (simp add: of_int_less_numeral_iff)
  then show ?thesis using p(1) by (simp add: kLongestPeriod_def)
qed

lemma sched_within_configure:
  assumes "Scheduler.configure now entries = Some q" "\<forall>e \<in> set entries. usable_rate (se_sample_rate_hz e)"
    and "0 \<le> now" "now \<le> T"
  shows "sched_within T q"
  unfolding sched_within_def
proof
  fix c assume c: "c \<in> set q"
  note cs = configure_Some [OF assms(1)]
  have "cs_entry c \<in> set entries" using cs c by force
  then have "1 \<le> cs_period c \<and> cs_period c \<le> kLongestPeriod"
    using usable_rate_longest assms(2) cs c by blast
  then show "wf_channel c \<and> cs_period c \<le> kLongestPeriod \<and> 0 \<le> cs_next_deadline c \<and> cs_next_deadline c \<le> T + kLongestPeriod"
    using cs c assms(3,4) by (auto simp: wf_channel_def)
qed

text \<open>The policy.\<close>

lemma set_alist_update: "set (AList.update k v al) \<subseteq> insert (k, v) (set al)"
  by (induction al) auto

lemma policy_within_update:
  assumes "policy_within T p" "0 \<le> ps_last_flush st" "ps_last_flush st \<le> T"
  shows "policy_within T (p\<lparr>pol_channels := AList.update k st (pol_channels p)\<rparr>)"
  using assms set_alist_update [of k st "pol_channels p"] by (fastforce simp: policy_within_def)

lemma policy_within_flags [simp]:
  "policy_within T (p\<lparr>pol_any_pending_realtime := b\<rparr>) = policy_within T p"
  "policy_within T (p\<lparr>pol_any_pending_on_change := b\<rparr>) = policy_within T p"
  by (simp_all add: policy_within_def)

lemma policy_within_on_sample:
  assumes "policy_within T p"
  shows "policy_within T (on_sample i v t p)"
proof (cases "map_of (pol_channels p) i")
  case (Some st)
  then have st: "0 \<le> ps_last_flush st" "ps_last_flush st \<le> T"
    using assms map_of_SomeD [OF Some] by (auto simp: policy_within_def)
  have "policy_within T (p\<lparr>pol_channels := AList.update i (f st) (pol_channels p)\<rparr>)"
    if "ps_last_flush (f st) = ps_last_flush st" for f
    using policy_within_update [OF assms, of "f st" i] st that by simp
  from this [of "\<lambda>st. st\<lparr>ps_pending_realtime := True\<rparr>"]
    this [of "\<lambda>st. st\<lparr>ps_pending_on_change := True, ps_last_uploaded_value := v, ps_has_uploaded_value := True\<rparr>"]
  show ?thesis using assms Some
    by (auto simp: on_sample_def policy_within_def split: sync_mode.split)
qed (use assms in \<open>simp add: on_sample_def\<close>)

lemma policy_within_mark_flushed: "0 \<le> now \<Longrightarrow> now \<le> T \<Longrightarrow> policy_within T (mark_flushed now p)"
  by (auto simp: policy_within_def mark_flushed_def)

lemma policy_within_configure:
  "policy_within T p \<Longrightarrow> 0 \<le> now \<Longrightarrow> now \<le> T \<Longrightarrow> policy_within T (configure_channel st now p)"
  using policy_within_update by (simp add: configure_channel_def Let_def)

text \<open>Polling.\<close>

lemma policy_within_take_samples:
  "policy_within T pol \<Longrightarrow> policy_within T (snd (take_samples i p t xs (rb, pol)))"
  by (induction xs arbitrary: rb pol) (simp_all add: policy_within_on_sample)

lemma policy_within_poll: "policy_within T (rt_policy (fst s)) \<Longrightarrow> policy_within T (rt_policy (fst (poll_channel i s)))"
  by (cases s) (auto simp: poll_channel_def case_prod_beta Let_def policy_within_take_samples split: option.split)

lemma policy_within_polls:
  "policy_within T (rt_policy (fst s)) \<Longrightarrow> policy_within T (rt_policy (fst (fold poll_channel ids s)))"
  by (induction ids arbitrary: s) (simp_all add: policy_within_poll)

lemma poll_due_exact:
  assumes "wf_scheduler (rt_scheduler rt)"
  shows "poll_due (rt, w) =
    (let now = fst (steady_now w); q = rt_scheduler rt; s = fold poll_channel (due_ids now q) (rt, snd (steady_now w))
     in Some ((fst s)\<lparr>rt_scheduler := map (reschedule now) q\<rparr>, snd s))"
  by (simp add: dispatch_due_eq [OF assms] poll_due_def case_prod_beta Let_def)

lemma poll_due_within:
  assumes "runtime_wf (rt, w)" "instants_within T rt" "clock_below T w" "poll_due (rt, w) = Some (rt1, w1)"
  shows "instants_within T rt1 \<and> clock_below T w1"
proof -
  let ?now = "fst (steady_now w)" and ?q = "rt_scheduler rt"
  let ?s = "fold poll_channel (due_ids ?now ?q) (rt, snd (steady_now w))"
  have q: "sched_within T ?q" "policy_within T (rt_policy rt)" using assms(2) by (simp_all add: instants_within_def)
  have rt1: "rt1 = (fst ?s)\<lparr>rt_scheduler := map (reschedule ?now) ?q\<rparr>" "w1 = snd ?s"
    using assms(4) poll_due_exact [OF sched_within_wf [OF q(1)], of w] by (simp_all add: Let_def)
  have "polled (rt, snd (steady_now w)) ?s"
    using polls_effect [of "(rt, snd (steady_now w))"] assms(1) by simp
  then have "rt_next_retry_at (fst ?s) = rt_next_retry_at rt" "w_steady (snd ?s) = w_steady w"
    by (auto simp: polled_def dest!: poll_world_store(4))
  moreover have "policy_within T (rt_policy (fst ?s))" using q(2) by (intro policy_within_polls) simp
  moreover have "sched_within T (map (reschedule ?now) ?q)"
    using sched_within_reschedule [OF q(1)] clock_below_now [OF assms(3)] by blast
  ultimately show ?thesis using rt1 assms(2,3) by (simp add: instants_within_def clock_below_def)
qed

text \<open>Flushing and retrying.\<close>

lemma instants_within_frame [simp]:
  "instants_within T (rt\<lparr>rt_store := ls\<rparr>) = instants_within T rt"
  "instants_within T (rt\<lparr>rt_buffer := b\<rparr>) = instants_within T rt"
  "instants_within T (rt\<lparr>rt_accepted_upload_count := n\<rparr>) = instants_within T rt"
  "instants_within T (sent_away rt rb) = instants_within T rt"
  by (simp_all add: instants_within_def sent_away_def)

lemma advance_backoff_within:
  "instants_within T rt \<Longrightarrow> clock_below T w \<Longrightarrow> instants_within T (fst (advance_backoff_after_failure (rt, w)))"
  using backoff_delay_range [of "rt_retry_attempt rt + 1"]
  by (auto simp: advance_backoff_simps instants_within_def clock_below_def intro!: add_mono)

lemma reset_backoff_within:
  "instants_within T rt \<Longrightarrow> 0 \<le> T \<Longrightarrow> instants_within T (reset_backoff_after_success rt)"
  by (simp add: instants_within_def reset_backoff_after_success_def kLongestDelay_def)

lemma mark_flushed_within:
  "instants_within T rt \<Longrightarrow> 0 \<le> now \<Longrightarrow> now \<le> T \<Longrightarrow> instants_within T (rt\<lparr>rt_policy := mark_flushed now (rt_policy rt)\<rparr>)"
  by (simp add: instants_within_def policy_within_mark_flushed)

lemma after_upload_within:
  assumes "instants_within T rt" "clock_below T w" "0 \<le> now" "now \<le> T"
  shows "instants_within T (fst (step_state (after_upload now (r, rt, w))))"
proof -
  have "instants_within T (rt\<lparr>rt_policy := mark_flushed now (rt_policy rt)\<rparr>)" using assms mark_flushed_within by blast
  then have "\<forall>x. r = Inr x \<longrightarrow> instants_within T (fst (step_state (after_upload now (Inr x, rt, w))))"
    using assms advance_backoff_within [OF assms(1,2)] reset_backoff_within [OF _ clock_below_pos [OF assms(2)]]
    by (intro allI impI, case_tac x) (auto simp: after_upload_cases)
  then show ?thesis using assms(1) by (cases r) (auto simp: after_upload_cases(4))
qed

lemma maybe_flush_within:
  assumes "runtime_wf (rt, w)" "instants_within T rt" "clock_below T w"
  shows "instants_within T (fst (step_state (maybe_flush (rt, w))))"
proof (cases "rt_uploader rt = None \<or> rt_buffer rt = None")
  case True
  then show ?thesis using assms by (auto simp: maybe_flush_def split: option.splits)
next
  case False
  then obtain up rb where ub: "rt_uploader rt = Some up" "rt_buffer rt = Some rb" by auto
  have wf: "wf_buffer rb" "store_wf (rt_store rt, snd (steady_now w))"
    using assms(1) ub by (simp_all add: runtime_wf_def wf_members_def)
  obtain r ls w2 where up: "upload up (take (max_batch rt) (contents rb)) (rt_store rt, snd (steady_now w)) = (r, ls, w2)"
    by (metis surj_pair)
  have "clock_below T w2"
    using upload_keeps_frame [OF wf(2) up] assms(3) by (simp add: upload_frame_def clock_below_def)
  then have "instants_within T (fst (step_state (after_upload (fst (steady_now w)) (r, (sent_away rt rb)\<lparr>rt_store := ls\<rparr>, w2))))"
    using assms(2) clock_below_now [OF assms(3)] by (intro after_upload_within) simp_all
  then show ?thesis using maybe_flush_eq [OF ub wf(1), of w] up assms(2) by simp
qed

lemma after_retry_within:
  assumes "instants_within T rt" "clock_below T w"
  shows "instants_within T (fst (step_state (after_retry (r, rt, w))))"
proof (cases r)
  case (Inr x)
  then show ?thesis
    using assms(1) advance_backoff_within [OF assms] reset_backoff_within [OF assms(1) clock_below_pos [OF assms(2)]]
    by (cases "x = KAccepted") (simp_all add: after_retry_cases)
qed (use assms in \<open>simp add: after_retry_cases\<close>)

lemma maybe_retry_within:
  assumes "runtime_wf (rt, w)" "instants_within T rt" "clock_below T w"
  shows "instants_within T (fst (step_state (maybe_retry (rt, w))))"
proof (cases "rt_uploader rt = None \<or> \<not> rt_store_open rt")
  case True
  then show ?thesis using assms by (auto simp: maybe_retry_def split: option.splits)
next
  case False
  then obtain up where up: "rt_uploader rt = Some up" "rt_store_open rt" by auto
  obtain n rt1 w1 where p: "store_pending (rt, w) = (n, rt1, w1)" by (metis surj_pair)
  have e: "runtime_wf (rt1, w1)" "w_steady w1 = w_steady w" "instants_within T rt1"
    using store_pending_effect [OF assms(1)] p assms(2) by (auto simp: pipeline_frame_def)
  then have c: "clock_below T w1" using assms(3) by (simp add: clock_below_def)
  obtain r ls w2 where rp: "retry_pending up (max_batch rt1) (rt_store rt1, snd (steady_now w1)) = (r, ls, w2)"
    by (metis surj_pair)
  have "store_wf (rt_store rt1, snd (steady_now w1))" using e(1) by (simp add: runtime_wf_def)
  then have "clock_below T w2"
    using retry_keeps_frame [OF _ rp] c by (simp add: upload_frame_def clock_below_def)
  then have "instants_within T (fst (step_state (after_retry (r, rt1\<lparr>rt_store := ls\<rparr>, w2))))"
    using e(3) by (intro after_retry_within) simp_all
  then show ?thesis using maybe_retry_eq [OF up, of w] p e(3) rp by simp
qed

lemma tick_within:
  assumes "runtime_wf (rt, w)" "instants_within T rt" "clock_below T w" "tick (rt, w) = Some (Done (rt', w'))"
  shows "instants_within T rt' \<and> clock_below T w'"
proof (cases "rt_channels rt = []")
  case True
  then show ?thesis using assms by (simp add: tick_def)
next
  case False
  obtain rt1 w1 rt2 w2 where st: "poll_due (rt, w) = Some (rt1, w1)" "maybe_flush (rt1, w1) = Done (rt2, w2)"
      "maybe_retry (rt2, w2) = Done (rt', w')"
    using tick_SomeE [OF assms(4)] False by (metis fst_conv surj_pair)
  have i1: "runtime_wf (rt1, w1)" "instants_within T rt1" "clock_below T w1"
    using poll_due_within [OF assms(1-3) st(1)] poll_due_world(1) [OF assms(1) st(1)] by simp_all
  have i2: "runtime_wf (rt2, w2)" "instants_within T rt2" "w_steady w2 = w_steady w1"
    using maybe_flush_within [OF i1] maybe_flush_effect [OF i1(1)] st(2) by (simp_all add: pipeline_frame_def)
  then have c2: "clock_below T w2" using i1(3) by (simp add: clock_below_def)
  show ?thesis
    using maybe_retry_within [OF i2(1,2) c2] maybe_retry_effect [OF i2(1)] st(3) c2
    by (simp add: pipeline_frame_def clock_below_def)
qed

lemma next_wake_within:
  assumes "runtime_wf s" "instants_within T (fst s)" "clock_below T (snd s)" "next_wake s = (wake, rt', w')"
  shows "instants_within T rt' \<and> clock_below T w'"
  using next_wake_effect [OF assms(1)] next_wake_frame [OF assms(1,4)] assms(2-4)
  by (auto simp: pipeline_frame_def clock_below_def)

section \<open>Configuring\<close>

definition same_instants :: "telemetry_runtime \<Rightarrow> telemetry_runtime \<Rightarrow> bool" where
  "same_instants rt rt' \<longleftrightarrow> rt_scheduler rt' = rt_scheduler rt \<and> rt_policy rt' = rt_policy rt \<and>
     rt_next_retry_at rt' = rt_next_retry_at rt"

lemma fresh_members_within:
  assumes "instants_within T rt" "0 \<le> T"
  shows "instants_within T (fresh_members env c key rt)"
proof -
  have "policy_within T (policy_clear p)" for p by (simp add: policy_within_def policy_clear_def)
  then show ?thesis using assms
    by (simp add: fresh_members_def instants_within_def reset_backoff_after_success_def kLongestDelay_def Let_def
        split: sum.split)
qed

lemma open_local_store_instants:
  "open_local_store (rt, w) = (ok, rt', w') \<Longrightarrow> same_instants rt rt'"
  by (auto simp: open_local_store_def same_instants_def Let_def split: if_splits prod.splits)

lemma bind_channels_within:
  "instants_within T rt \<Longrightarrow> clock_below T w \<Longrightarrow> bind_channels env chs schedule (rt, w) = (sched, rt', w') \<Longrightarrow>
   instants_within T rt' \<and> clock_below T w'"
proof (induction chs arbitrary: rt w schedule)
  case (Cons ch chs)
  show ?case
  proof (cases "active ch \<and> registry_create (ch_driver ch) (re_registry env) \<noteq> None")
    case False
    then show ?thesis using Cons
      by (auto simp: active_def instants_within_def split: if_splits option.splits)
  next
    case True
    then obtain f where f: "active ch" "registry_create (ch_driver ch) (re_registry env) = Some f" by blast
    obtain e d w1 where dc: "device_configure (ch_parameters ch) (make_device f, w) = (e, d, w1)"
      by (metis surj_pair)
    have w1: "clock_below T w1"
      using poll_world_store(4) [OF device_poll_world [OF device_configure_world [OF dc]]] Cons.prems(2)
      by (simp add: clock_below_def)
    show ?thesis
    proof (cases e)
      case (Some ex)
      then show ?thesis using f dc w1 Cons.prems by (auto simp: active_def instants_within_def)
    next
      case None
      let ?rt = "rt\<lparr>rt_policy := configure_channel (sync_state_of ch) (fst (steady_now w1)) (rt_policy rt),
          rt_channels := emplace (ch_id ch) \<lparr>bd_config = ch, bd_driver = d\<rparr> (rt_channels rt)\<rparr>"
      have "instants_within T ?rt"
        using Cons.prems(1) policy_within_configure clock_below_now [OF w1] by (simp add: instants_within_def)
      moreover have "clock_below T (snd (steady_now w1))" using w1 by (simp add: clock_below_def)
      ultimately show ?thesis
        using Cons.IH [of ?rt "snd (steady_now w1)" "schedule @ [entry_of ch]"] Cons.prems(3) f dc None
        by (simp add: active_def entry_of_def case_prod_beta Let_def)
    qed
  qed
qed simp

lemma runtime_configure_within:
  assumes "runtime_wf (rt, w)" "instants_within T rt" "clock_below T w"
    and "list_all (\<lambda>ch. active ch \<longrightarrow> usable_rate (ch_sample_rate_hz ch)) (cfg_channels c)"
    and "runtime_configure env c key (rt, w) = Some (ok, rt', w')"
  shows "instants_within T rt' \<and> clock_below T w'"
proof -
  let ?f = "fresh_members env c key rt"
  have f: "instants_within T ?f" using fresh_members_within [OF assms(2) clock_below_pos [OF assms(3)]] .
  obtain b rt1 w1 where o: "open_local_store (?f, w) = (b, rt1, w1)" by (metis surj_pair)
  have i1: "instants_within T rt1"
    using f open_local_store_instants [OF o] by (simp add: instants_within_def same_instants_def)
  have w': "clock_below T w'"
    using runtime_configure_net [OF assms(1,5)] assms(3) by (simp add: same_net_def clock_below_def)
  have ro: "rt_uploader ?f = None" "runtime_wf (?f, w)" "pristine c ?f"
    using fresh_members_effect [OF assms(1), of env c key] by (simp_all add: pristine_def)
  have o1: "runtime_wf (rt1, w1)" "pristine c rt1"
    using open_local_store_effect [OF ro(2,1) o, of c] ro(3) by simp_all
  have w1: "clock_below T w1"
    using open_local_store_net [OF ro(2) o] assms(3) by (simp add: same_net_def clock_below_def)
  obtain sched rt2 w2 where bc: "bind_channels env (cfg_channels c) [] (rt1, w1) = (sched, rt2, w2)" by (metis surj_pair)
  note i2 = bind_channels_within [OF i1 w1 bc]
  have entries: "sched = None \<or> sched = Some (map entry_of (filter active (cfg_channels c)))"
    using bind_channels_effect [OF o1, of "cfg_channels c" "[]" env] bc by (cases sched) (auto simp: bound_def)
  have usable: "\<forall>e \<in> set (map entry_of (filter active (cfg_channels c))). usable_rate (se_sample_rate_hz e)"
    using assms(4) by (auto simp: entry_of_def list.pred_set)
  consider "\<not> b" "rt' = rt1" | "b" "sched = None" "rt' = rt2"
    | schedule q where "b" "sched = Some schedule" "Scheduler.configure (fst (steady_now w2)) schedule = Some q"
        "rt' = rt2\<lparr>rt_scheduler := q, rt_uploader := make_uploader (rt2\<lparr>rt_scheduler := q\<rparr>)\<rparr>"
    using assms(5) o bc
    by (cases b; cases sched) (auto simp: runtime_configure_def finish_configure_def case_prod_beta Let_def split: option.splits)
  then show ?thesis
  proof cases
    case 3
    have "sched_within T q"
      using sched_within_configure [OF 3(3)] entries usable 3(2) clock_below_now [OF conjunct2 [OF i2]] by simp
    then show ?thesis using 3(4) i2 w' by (simp add: instants_within_def)
  qed (use i1 i2 w' in simp_all)
qed

section \<open>The daemon\<close>

definition edge_timely :: "int \<Rightarrow> daemon_env \<Rightarrow> edge_service \<Rightarrow> bool" where
  "edge_timely T env s \<longleftrightarrow> edge_sound env s \<and> instants_within T (es_runtime s) \<and> clock_below T (es_world s)"

lemma edge_reload_timely:
  assumes "edge_timely T env s" "edge_reload env s = Returned s'"
  shows "edge_timely T env s'"
proof -
  have sound: "edge_sound env s'"
    using edge_reload_sound [of env s] assms by (auto simp: edge_timely_def)
  let ?result = "load_config (de_yaml env) (de_files env (es_loads s)) (es_config_path s)"
  have usable: "usable_file ?result" using assms(1) by (simp add: edge_timely_def edge_sound_def usable_files_def)
  consider m where "?result = Inr (LoadFail m)" "s' = s\<lparr>es_loads := es_loads s + 1\<rparr>"
    | c ok rt w where "?result = Inr (LoadOk c)"
        "runtime_configure (de_runtime env) c [] (es_runtime s, es_world s) = Some (ok, rt, w)"
        "s' = s\<lparr>es_loads := es_loads s + 1, es_config := c, es_runtime := rt, es_world := w\<rparr>"
    using assms(2) by (auto simp: edge_reload_def Let_def split: sum.splits load_result.splits option.splits)
  then show ?thesis
  proof cases
    case 2
    have "list_all (\<lambda>ch. active ch \<longrightarrow> usable_rate (ch_sample_rate_hz ch)) (cfg_channels c)"
      using usable 2(1) by (simp add: usable_file_def)
    then show ?thesis
      using runtime_configure_within [OF _ _ _ _ 2(2), of T] assms(1) sound 2(3)
      by (simp add: edge_timely_def edge_sound_def edge_wf_def)
  qed (use assms(1) sound in \<open>simp add: edge_timely_def\<close>)
qed

lemma edge_loop_timely:
  assumes "edge_timely T env s" "edge_loop s = Returned s'"
  shows "edge_timely T env s'"
proof (cases "cfg_channels (es_config s) = []")
  case True
  then show ?thesis using assms by (auto simp: edge_loop_def pause_for_def edge_timely_def edge_sound_def edge_wf_def)
next
  case False
  have a: "runtime_wf (es_runtime s, es_world s)" "instants_within T (es_runtime s)" "clock_below T (es_world s)"
    using assms(1) by (simp_all add: edge_timely_def edge_sound_def edge_wf_def)
  obtain rt1 w1 where t: "tick (es_runtime s, es_world s) = Some (Done (rt1, w1))"
    using assms(2) False by (auto simp: edge_loop_def split: option.splits step_result.splits)
  have i1: "runtime_wf (rt1, w1)" "instants_within T rt1" "clock_below T w1"
    using tick_within [OF a t] tick_effect [OF a(1) t] by simp_all
  obtain wake rt w where nw: "next_wake (rt1, w1) = (wake, rt, w)" by (metis surj_pair)
  have "instants_within T rt" "clock_below T w" using next_wake_within [OF i1(1) _ _ nw] i1(2,3) by simp_all
  then have "instants_within T (es_runtime s')" "clock_below T (es_world s')"
    using assms(2) False t nw
    by (cases wake; auto simp: edge_loop_def pause_for_def steady_now_def clock_below_def Let_def)+
  moreover have "edge_sound env s'" using edge_loop_sound [of env s] assms by (auto simp: edge_timely_def)
  ultimately show ?thesis by (simp add: edge_timely_def)
qed

interpretation timely_edge: service_body "edge_class env foreground" "edge_timely T env" for env foreground T
proof (unfold_locales, goal_cases)
  case (1 s s')
  then show ?case using edge_reload_timely [of T env s s'] by (simp add: edge_class_def)
next
  case (2 s s')
  then show ?case using edge_loop_timely [of T env s s'] by (simp add: edge_class_def)
qed

lemma main_timely:
  assumes "edge_sound env s0" "daemon_main env args w = MainStart foreground s0" "clock_below T w"
    and "runtime_wf (runtime_new, w)" "usable_files env (es_config_path s0)"
  shows "edge_timely T env s0"
proof -
  obtain path c ok rt w' where m: "load_config (de_yaml env) (de_files env 0) path = Inr (LoadOk c)"
      "runtime_configure (de_runtime env) c [] (runtime_new, w) = Some (ok, rt, w')"
      "s0 = \<lparr>es_config_path = path, es_config = c, es_runtime = rt, es_world = w', es_loads = 1, es_pauses = []\<rparr>"
    using assms(2) by (auto simp: daemon_main_def edge_new_def
        split: prod.splits bool.splits sum.splits load_result.splits option.splits)
  have "instants_within T runtime_new"
    using clock_below_pos [OF assms(3)]
    by (simp add: instants_within_def runtime_new_def sched_within_def policy_within_def upload_policy_new_def kLongestDelay_def)
  moreover have "usable_file (load_config (de_yaml env) (de_files env 0) path)"
    using assms(5) m(3) by (simp add: usable_files_def)
  then have "list_all (\<lambda>ch. active ch \<longrightarrow> usable_rate (ch_sample_rate_hz ch)) (cfg_channels c)"
    using m(1) by (simp add: usable_file_def)
  ultimately have "instants_within T rt \<and> clock_below T w'"
    using runtime_configure_within [OF assms(4) _ assms(3) _ m(2)] by blast
  then show ?thesis using assms(1) m(3) by (simp add: edge_timely_def)
qed

section \<open>Example\<close>

definition ex_calm :: world where
  \<comment> \<open>the example world with a clock that stops after a thousand seconds\<close>
  "ex_calm = ex_down\<lparr>w_steady := \<lambda>n. min (int n) 1000 * 1000000000\<rparr>"

lemma ex_calm_main:
  "\<exists>s. daemon_main (ex_daemon_env ex_good) [''--foreground'', ''--config'', ''c.yaml''] ex_calm = MainStart True s \<and>
       es_config_path s = ''c.yaml''"
proof -
  have "case check_document ex_yaml_cpp ex_good of
      Inr (LoadOk c) \<Rightarrow> edge_new (ex_daemon_env ex_good) ''c.yaml'' c ex_calm \<noteq> None | _ \<Rightarrow> False" by code_simp
  then obtain c s where "load_config ex_yaml_cpp (ex_files ex_good) ''c.yaml'' = Inr (LoadOk c)"
      "edge_new (ex_daemon_env ex_good) ''c.yaml'' c ex_calm = Some s"
    unfolding load_ex_files by (auto split: sum.splits load_result.splits)
  then show ?thesis by (auto simp: daemon_main_def ex_daemon_env_def edge_new_def split: option.splits)
qed

section \<open>Properties\<close>

text \<open>
  C17: The daemon's clock arithmetic never overflows. As long as the clock is more than a thousand
  seconds from the end of the 64-bit range of nanoseconds, in every state the daemon can reach with
  usable files the dispatch with every addition checked returns and is the dispatch of the model, and each
  sum and difference the pipeline forms is representable: deadlines, the time of the next retry,
  and the time since the last flush.
\<close>

theorem clock_arithmetic_fits:
  assumes "sqlite_laws (w_sqlite w)" "\<forall>t \<in> ran (w_disk w). wf_table t" "\<forall>j. w_dump w j \<noteq> None"
    and "daemon_main env args w = MainStart foreground s0" "usable_files env (es_config_path s0)"
    and "clock_below T w" "T + kLongestPeriod < 2 ^ 63"
    and "service_reach px (edge_class env foreground) (service_new fl p s0) s"
  shows "let rt = es_runtime (sv_self s); w' = es_world (sv_self s) in
    poll_due64 (rt, w') \<noteq> None \<and> poll_due64 (rt, w') = poll_due (rt, w') \<and>
    i64 (rt_next_retry_at rt) = Some (rt_next_retry_at rt) \<and>
    (\<forall>n. \<forall>kv \<in> set (pol_channels (rt_policy rt)).
       i64 (w_steady w' n - ps_last_flush (snd kv)) = Some (w_steady w' n - ps_last_flush (snd kv))) \<and>
    (\<forall>n k. i64 (w_steady w' n + backoff_delay k) = Some (w_steady w' n + backoff_delay k))"
proof -
  have "edge_timely T env s0"
    using main_timely [OF main_sound [OF assms(1-5)] assms(4,6) runtime_new_wf [OF assms(1,2)] assms(5)] .
  then have "edge_timely T env (sv_self s)"
    using timely_edge.reach_keeps [OF assms(8)] by (simp add: service_new_def)
  then have i: "instants_within T (es_runtime (sv_self s))" "clock_below T (es_world (sv_self s))"
    by (simp_all add: edge_timely_def)
  define rt w' where "rt = es_runtime (sv_self s)" and "w' = es_world (sv_self s)"
  have q: "sched_within T (rt_scheduler rt)" and pol: "policy_within T (rt_policy rt)"
    and at: "0 \<le> rt_next_retry_at rt" "rt_next_retry_at rt \<le> T + kLongestDelay"
    using i(1) by (simp_all add: instants_within_def rt_def)
  have clock: "0 \<le> w_steady w' n" "w_steady w' n \<le> T" for n using i(2) by (simp_all add: clock_below_def w'_def)
  have short: "kLongestDelay \<le> kLongestPeriod" by (simp add: kLongestDelay_def kLongestPeriod_def)
  have "\<forall>c \<in> set (rt_scheduler rt). fits64 (fst (steady_now w')) c"
    using q clock [of "w_steady_n w'"] assms(7) by (fastforce simp: sched_within_def fits64_def)
  then have "poll_due64 (rt, w') = poll_due (rt, w')"
    by (simp add: poll_due64_def poll_due_def dispatch_due_def case_prod_beta dispatch64_eq)
  moreover have "i64 (rt_next_retry_at rt) = Some (rt_next_retry_at rt)"
    using at short assms(7) by (intro i64_ok) simp_all
  moreover have "i64 (w_steady w' n - ps_last_flush (snd kv)) = Some (w_steady w' n - ps_last_flush (snd kv))"
    if "kv \<in> set (pol_channels (rt_policy rt))" for n kv
  proof -
    have "0 \<le> ps_last_flush (snd kv)" "ps_last_flush (snd kv) \<le> T" using pol that by (auto simp: policy_within_def)
    then show ?thesis using clock [of n] assms(7) by (simp add: i64_def kLongestPeriod_def)
  qed
  moreover have "i64 (w_steady w' n + backoff_delay k) = Some (w_steady w' n + backoff_delay k)" for n k
    using clock [of n] backoff_delay_range [of k] short assms(7) by (intro i64_ok) simp_all
  moreover have "poll_due (rt, w') \<noteq> None"
    using poll_due_returns [of rt w'] q by (auto simp: sched_within_def wf_scheduler_def)
  ultimately show ?thesis by (simp add: rt_def w'_def Let_def)
qed

theorem clock_arithmetic_fits_witness:
  "\<exists>s0. daemon_main (ex_daemon_env ex_good) [''--foreground'', ''--config'', ''c.yaml''] ex_calm = MainStart True s0 \<and>
     (\<forall>events. let s = sv_self (run_service ex_posix (edge_class (ex_daemon_env ex_good) True) events
          (service_new \<lparr>g_running = 0, g_reload = 1\<rparr> ex_process s0))
        in poll_due64 (es_runtime s, es_world s) = poll_due (es_runtime s, es_world s))"
proof -
  obtain s0 where m: "daemon_main (ex_daemon_env ex_good) [''--foreground'', ''--config'', ''c.yaml''] ex_calm = MainStart True s0"
      "es_config_path s0 = ''c.yaml''"
    using ex_calm_main by blast
  have files: "usable_files (ex_daemon_env ex_good) (es_config_path s0)" using ex_files_usable m(2) by simp
  have w: "sqlite_laws (w_sqlite ex_calm)" "\<forall>t \<in> ran (w_disk ex_calm). wf_table t" "\<forall>j. w_dump ex_calm j \<noteq> None"
    using ex_world_laws by (simp_all add: ex_calm_def ex_down_def) (simp_all add: ex_world_def)
  have clock: "clock_below 1000000000000 ex_calm" "1000000000000 + kLongestPeriod < 2 ^ 63"
    by (simp_all add: clock_below_def ex_calm_def kLongestPeriod_def)
  have "poll_due64 (es_runtime (sv_self s), es_world (sv_self s)) = poll_due (es_runtime (sv_self s), es_world (sv_self s))"
    if "service_reach ex_posix (edge_class (ex_daemon_env ex_good) True)
          (service_new \<lparr>g_running = 0, g_reload = 1\<rparr> ex_process s0) s" for s
    using clock_arithmetic_fits [OF w m(1) files clock that] by (simp add: Let_def)
  from this [OF reach_run [OF service_reach.start]] show ?thesis using m(1) by (simp add: Let_def)
qed

end
