(* ===== verification/Humidity.thy ===== *)
theory Humidity
  imports Bme280
begin

text \<open>
  The humidity compensation of the BME280 (\<open>compensate_humidity\<close> in \<open>drivers/bme280/bme280_driver.cpp\<close>): the
  formula over the integers, the ranges in which no 32-bit operation of the driver overflows, and what the
  missing sign of the coefficient \<open>dig_h4\<close> does to it.
\<close>

section \<open>The formula\<close>

definition humidity_numerator :: "calibration \<Rightarrow> int \<Rightarrow> int \<Rightarrow> int" where
  "humidity_numerator c raw v1 =
     (raw * 16384 - sint (dig_h4 c) * 1048576 - sint (dig_h5 c) * v1 + 16384) div 32768"

definition humidity_gain :: "calibration \<Rightarrow> int \<Rightarrow> int" where
  "humidity_gain c v1 =
     ((((v1 * sint (dig_h6 c)) div 1024) * ((v1 * uint (dig_h3 c)) div 2048 + 32768)) div 1024 + 2097152) *
       sint (dig_h2 c) + 8192"

definition humidity_value :: "calibration \<Rightarrow> int \<Rightarrow> int \<Rightarrow> int" where
  \<comment> \<open>relative humidity in units of \<open>2\<^sup>-\<^sup>2\<^sup>2\<close> percent, before it is clamped\<close>
  "humidity_value c raw fine =
     (let v1 = fine - 76800;
          v = humidity_numerator c raw v1 * (humidity_gain c v1 div 16384)
      in v - ((v div 32768) * (v div 32768) div 128 * uint (dig_h1 c)) div 16)"

definition humidity_units :: "calibration \<Rightarrow> int \<Rightarrow> int \<Rightarrow> int" where
  \<comment> \<open>units of 1/1024 percent\<close>
  "humidity_units c raw fine = min 419430400 (max 0 (humidity_value c raw fine)) div 4096"

definition usual_humidity_words :: "calibration \<Rightarrow> bool" where
  \<comment> \<open>the words of a programmed sensor\<close>
  "usual_humidity_words c \<longleftrightarrow> uint (dig_h1 c) \<le> 128 \<and> 0 \<le> sint (dig_h2 c) \<and> sint (dig_h2 c) \<le> 380 \<and>
     uint (dig_h3 c) \<le> 8 \<and> 270 \<le> sint (dig_h4 c) \<and> sint (dig_h4 c) \<le> 480 \<and>
     \<bar>sint (dig_h5 c)\<bar> \<le> 64 \<and> \<bar>sint (dig_h6 c)\<bar> \<le> 36"

section \<open>No overflow\<close>

lemma div_between:
  fixes a :: int
  assumes "lo * k \<le> a" "a < (hi + 1) * k" "0 < k"
  shows "lo \<le> a div k \<and> a div k \<le> hi"
proof -
  have "(lo * k) div k \<le> a div k" using assms(1,3) by (rule zdiv_mono1)
  moreover have "\<not> hi + 1 \<le> a div k"
  proof
    assume "hi + 1 \<le> a div k"
    then have "(hi + 1) * k \<le> a div k * k" using assms(3) by (intro mult_right_mono) simp_all
    moreover have "a div k * k \<le> a" using assms(3) pos_mod_sign [of k a] by (simp add: minus_mod_eq_div_mult [symmetric])
    ultimately show False using assms(2) by linarith
  qed
  ultimately show ?thesis using assms(3) by simp
qed

lemma mult_between:
  fixes a b :: int
  assumes "lo \<le> a" "a \<le> hi" "lo \<le> 0" "0 \<le> hi" "0 \<le> b" "b \<le> m"
  shows "lo * m \<le> a * b \<and> a * b \<le> hi * m"
proof -
  have "a * b \<le> hi * b" "lo * b \<le> a * b" using assms by (simp_all add: mult_right_mono)
  moreover have "hi * b \<le> hi * m" "lo * m \<le> lo * b" using assms by (simp_all add: mult_left_mono mult_left_mono_neg)
  ultimately show ?thesis by linarith
qed

lemma i32_between: "- 2147483648 \<le> n \<Longrightarrow> n \<le> 2147483647 \<Longrightarrow> i32 n = Some n"
  by (simp add: i32_def)

lemma humidity_numerator_fits:
  fixes raw h4 h5 v :: int
  assumes "0 \<le> raw" "raw < 2 ^ 16" "270 \<le> h4" "h4 \<le> 480" "\<bar>h5\<bar> \<le> 64" "\<bar>v\<bar> \<le> 360000"
  defines "n0 \<equiv> raw * 16384 - h4 * 1048576" and "n1 \<equiv> h5 * v"
  shows "i32 n0 = Some n0" "i32 n1 = Some n1" "i32 (n0 - n1) = Some (n0 - n1)"
    "i32 (n0 - n1 + 16384) = Some (n0 - n1 + 16384)"
    "- 16064 \<le> (n0 - n1 + 16384) div 32768" "(n0 - n1 + 16384) div 32768 \<le> 24831"
proof -
  have n0: "- 503316480 \<le> n0" "n0 \<le> 790609920" using assms(1-4) by (simp_all add: n0_def)
  have n1: "- 23040000 \<le> n1" "n1 \<le> 23040000"
    using abs_mult_le [OF assms(5,6)] by (simp_all add: n1_def abs_le_iff)
  show "i32 n0 = Some n0" "i32 n1 = Some n1" "i32 (n0 - n1) = Some (n0 - n1)"
    "i32 (n0 - n1 + 16384) = Some (n0 - n1 + 16384)"
    by (rule i32_between; use n0 n1 in linarith)+
  show "- 16064 \<le> (n0 - n1 + 16384) div 32768" "(n0 - n1 + 16384) div 32768 \<le> 24831"
    using div_between [of "- 16064" 32768 "n0 - n1 + 16384" 24831] n0 n1 by auto
qed

lemma humidity_gain_fits:
  fixes h2 h3 h6 v :: int
  assumes "0 \<le> h2" "h2 \<le> 380" "0 \<le> h3" "h3 \<le> 8" "\<bar>h6\<bar> \<le> 36" "\<bar>v\<bar> \<le> 360000"
  defines "m1 \<equiv> v * h6" and "m2 \<equiv> v * h3"
  defines "m3 \<equiv> m2 div 2048 + 32768"
  defines "m4 \<equiv> m1 div 1024 * m3"
  defines "m5 \<equiv> m4 div 1024 + 2097152"
  defines "m6 \<equiv> m5 * h2"
  shows "i32 m1 = Some m1" "i32 m2 = Some m2" "i32 m3 = Some m3" "i32 m4 = Some m4" "i32 m5 = Some m5" "i32 m6 = Some m6"
    "i32 (m6 + 8192) = Some (m6 + 8192)" "0 \<le> (m6 + 8192) div 16384" "(m6 + 8192) div 16384 \<le> 58437"
proof -
  have m1: "\<bar>m1\<bar> \<le> 12960000" using abs_mult_le [OF assms(6,5)] by (simp add: m1_def)
  have m2: "\<bar>m2\<bar> \<le> 2880000" using abs_mult_le [OF assms(6), of h3 8] assms(3,4) by (simp add: m2_def)
  have q1: "\<bar>m1 div 1024\<bar> \<le> 12657" by (rule abs_div_le) (use m1 in simp_all)
  have q2: "\<bar>m2 div 2048\<bar> \<le> 1407" by (rule abs_div_le) (use m2 in simp_all)
  have m3: "\<bar>m3\<bar> \<le> 34175" using q2 by (simp add: m3_def abs_le_iff)
  have m4: "\<bar>m4\<bar> \<le> 432552975" using abs_mult_le [OF q1 m3] by (simp add: m4_def)
  have q4: "\<bar>m4 div 1024\<bar> \<le> 422416" by (rule abs_div_le) (use m4 in simp_all)
  have m5: "0 \<le> m5" "m5 \<le> 2519568" using q4 by (simp_all add: m5_def abs_le_iff)
  have m6: "0 \<le> m6" "m6 \<le> 957435840" using m5 assms(1,2) mult_mono [OF m5(2) assms(2)] by (simp_all add: m6_def)
  show "i32 m1 = Some m1" "i32 m2 = Some m2" "i32 m3 = Some m3" "i32 m4 = Some m4" "i32 m5 = Some m5" "i32 m6 = Some m6"
    "i32 (m6 + 8192) = Some (m6 + 8192)"
    using m1 [unfolded abs_le_iff] m2 [unfolded abs_le_iff] m3 [unfolded abs_le_iff] m4 [unfolded abs_le_iff] m5 m6
    by - (rule i32_between; linarith)+
  show "0 \<le> (m6 + 8192) div 16384" "(m6 + 8192) div 16384 \<le> 58437"
    using div_between [of 0 16384 "m6 + 8192" 58437] m6 by auto
qed

lemma bme280_humidity_exact:
  assumes "usual_humidity_words c" "0 \<le> raw" "raw < 2 ^ 16" "\<bar>fine - 76800\<bar> \<le> 360000"
  shows "compensate_humidity c raw fine = Some (f_div (f32 (of_int (humidity_units c raw fine))) 100)"
proof -
  define h1 h2 h3 h4 h5 h6 where "h1 = uint (dig_h1 c)" and "h2 = sint (dig_h2 c)" and "h3 = uint (dig_h3 c)"
    and "h4 = sint (dig_h4 c)" and "h5 = sint (dig_h5 c)" and "h6 = sint (dig_h6 c)"
  note hs = h1_def h2_def h3_def h4_def h5_def h6_def
  have words: "0 \<le> h1" "h1 \<le> 128" "0 \<le> h2" "h2 \<le> 380" "0 \<le> h3" "h3 \<le> 8" "270 \<le> h4" "h4 \<le> 480"
      "\<bar>h5\<bar> \<le> 64" "\<bar>h6\<bar> \<le> 36"
    using assms(1) by (simp_all add: usual_humidity_words_def hs)
  define v1 where "v1 = fine - 76800"
  have v1: "\<bar>v1\<bar> \<le> 360000" using assms(4) by (simp add: v1_def)
  define n0 n1 where "n0 = raw * 16384 - h4 * 1048576" and "n1 = h5 * v1"
  note n = humidity_numerator_fits [OF assms(2,3) words(7-9) v1, folded n0_def n1_def]
  define a where "a = (n0 - n1 + 16384) div 32768"
  have a: "- 16064 \<le> a" "a \<le> 24831" using n(5,6) by (simp_all add: a_def)
  define m1 m2 where "m1 = v1 * h6" and "m2 = v1 * h3"
  define m3 where "m3 = m2 div 2048 + 32768"
  define m4 where "m4 = m1 div 1024 * m3"
  define m5 where "m5 = m4 div 1024 + 2097152"
  define m6 where "m6 = m5 * h2"
  note m = humidity_gain_fits [OF words(3-6,10) v1,
      folded m1_def m2_def, folded m3_def, folded m4_def, folded m5_def, folded m6_def]
  define g where "g = (m6 + 8192) div 16384"
  have g: "0 \<le> g" "g \<le> 58437" using m(8,9) by (simp_all add: g_def)
  define v where "v = a * g"
  have v: "- 938731968 \<le> v" "v \<le> 1451049147" using mult_between [OF a _ _ g] by (auto simp: v_def)
  define q where "q = v div 32768"
  have q: "\<bar>q\<bar> \<le> 44282" using div_between [of "- 28648" 32768 v 44282] v by (auto simp: q_def)
  have qq: "0 \<le> q * q" "q * q \<le> 1960895524" using abs_mult_le [OF q q] by simp_all
  define r where "r = q * q div 128"
  have r: "0 \<le> r" "r \<le> 15319496" using div_between [of 0 128 "q * q" 15319496] qq by (auto simp: r_def)
  define u where "u = r * h1"
  have u: "0 \<le> u" "u \<le> 1960895488" using r words(1,2) mult_mono [OF r(2) words(2)] by (simp_all add: u_def)
  have q16: "0 \<le> u div 16" "u div 16 \<le> 122555968" using div_between [of 0 16 u 122555968] u by auto
  have shl: "shl32 raw 14 = raw * 16384" "shl32 h4 20 = h4 * 1048576"
    using shl32_small [of raw 14] shl32_small [of h4 20] assms(2,3) words by simp_all
  have checks: "i32 v1 = Some v1" "i32 v = Some v" "i32 (q * q) = Some (q * q)" "i32 u = Some u"
    "i32 (v - u div 16) = Some (v - u div 16)"
    using v1 [unfolded abs_le_iff] v qq u q16 by - (rule i32_between; linarith)+
  have units: "humidity_units c raw fine = min 419430400 (max 0 (v - u div 16)) div 4096"
    unfolding humidity_units_def humidity_value_def humidity_numerator_def humidity_gain_def Let_def
      v1_def [symmetric] hs [symmetric]
    by (simp only: n0_def [symmetric] n1_def [symmetric] a_def [symmetric] m1_def [symmetric] m2_def [symmetric]
        m3_def [symmetric] m4_def [symmetric] m5_def [symmetric] m6_def [symmetric] g_def [symmetric]
        v_def [symmetric] q_def [symmetric] r_def [symmetric] u_def [symmetric])
  have clamp: "(if w < 0 then 0 else if 419430400 < w then 419430400 else w) = min 419430400 (max 0 w)" for w :: int
    by simp
  show ?thesis
    unfolding compensate_humidity_def Let_def v1_def [symmetric] hs [symmetric] shl n0_def [symmetric] n1_def [symmetric] clamp
    by (simp add: shr32_div checks n(1-4) m(1-7) units n1_def [symmetric] a_def [symmetric] g_def [symmetric] v_def [symmetric] q_def [symmetric]
        m1_def [symmetric] m2_def [symmetric] m3_def [symmetric] m4_def [symmetric] m5_def [symmetric]
        m6_def [symmetric] r_def [symmetric] u_def [symmetric] del: i32_Some)
qed

section \<open>The raw readings\<close>

lemma or_shifted:
  fixes a b :: int
  assumes "0 \<le> b" "b < 2 ^ k"
  shows "a * 2 ^ k OR b = a * 2 ^ k + b"
proof -
  have "push_bit k a OR b = concat_bit k b a"
    using assms by (simp add: concat_bit_def take_bit_int_eq_self or.commute)
  also have "\<dots> = push_bit k a + b" using assms by (simp add: concat_bit_eq take_bit_int_eq_self)
  finally show ?thesis by (simp add: push_bit_eq_mult)
qed

lemma byte_range: "0 \<le> uint (b :: 8 word)" "uint b < 256"
  using uint_lt2p [of b] by simp_all

lemma raw_temperature_value:
  "raw_temperature buffer = uint (buffer ! 3) * 4096 + uint (buffer ! 4) * 16 + uint (buffer ! 5) div 16"
proof -
  let ?b3 = "uint (buffer ! 3)" and ?b4 = "uint (buffer ! 4)" and ?b5 = "uint (buffer ! 5)"
  have low: "0 \<le> ?b5 div 16" "?b5 div 16 < 2 ^ 4"
    using div_between [of 0 16 ?b5 15] byte_range [of "buffer ! 5"] by auto
  have "shl32 ?b3 12 = ?b3 * 2 ^ 12" "shl32 ?b4 4 = ?b4 * 2 ^ 4"
    using byte_range [of "buffer ! 3"] byte_range [of "buffer ! 4"] by (simp_all add: shl32_small)
  moreover have "?b4 * 2 ^ 4 OR ?b5 div 16 = ?b4 * 2 ^ 4 + ?b5 div 16" using low by (rule or_shifted)
  moreover have "?b3 * 2 ^ 12 OR (?b4 * 2 ^ 4 + ?b5 div 16) = ?b3 * 2 ^ 12 + (?b4 * 2 ^ 4 + ?b5 div 16)"
    using low byte_range [of "buffer ! 4"] by (intro or_shifted) simp_all
  ultimately show ?thesis by (simp add: raw_temperature_def shr32_div or.assoc)
qed

lemma raw_humidity_value: "raw_humidity buffer = uint (buffer ! 6) * 256 + uint (buffer ! 7)"
proof -
  have "shl32 (uint (buffer ! 6)) 8 = uint (buffer ! 6) * 2 ^ 8"
    using byte_range [of "buffer ! 6"] by (simp add: shl32_small)
  moreover have "uint (buffer ! 6) * 2 ^ 8 OR uint (buffer ! 7) = uint (buffer ! 6) * 2 ^ 8 + uint (buffer ! 7)"
    using byte_range [of "buffer ! 7"] by (intro or_shifted) simp_all
  ultimately show ?thesis by (simp add: raw_humidity_def)
qed

lemma raw_ranges:
  "0 \<le> raw_temperature buffer" "raw_temperature buffer < 2 ^ 20" "0 \<le> raw_humidity buffer" "raw_humidity buffer < 2 ^ 16"
proof -
  note b = byte_range [of "buffer ! 3"] byte_range [of "buffer ! 4"] byte_range [of "buffer ! 6"] byte_range [of "buffer ! 7"]
  have "0 \<le> uint (buffer ! 5) div 16" "uint (buffer ! 5) div 16 \<le> 15"
    using div_between [of 0 16 "uint (buffer ! 5)" 15] byte_range [of "buffer ! 5"] by auto
  then show "0 \<le> raw_temperature buffer" "raw_temperature buffer < 2 ^ 20"
    "0 \<le> raw_humidity buffer" "raw_humidity buffer < 2 ^ 16"
    using b by (simp_all add: raw_temperature_value raw_humidity_value)
qed

section \<open>The sign of \<open>dig_h4\<close>\<close>

text \<open>
  \<open>dig_h4\<close> loses its sign when it is assembled (theorem \<open>bme280_h4_h5_unsigned\<close>), and the shift by 20 that is its
  only use brings it back: 4096 units of a 12-bit number are shifted out of the word. \<open>dig_h5\<close> is multiplied
  instead, and its error stays.
\<close>

lemma h4_sign_restored:
  assumes "c' = humidity_calibration hb c"
  shows "shl32 (sint (dig_h4 c')) 20 = shl32 (sint (hb ! 3) * 16 + uint (hb ! 4) mod 16) 20"
proof -
  let ?n = "sint (hb ! 3) * 16 + uint (hb ! 4) mod 16"
  have "sint (dig_h4 c') = ?n + (if uint (hb ! 3) < 128 then 0 else 4096)"
    using bme280_h4_h5_unsigned [OF assms] by simp
  moreover have "shl32 (?n + 4096) 20 = shl32 ?n 20"
  proof -
    have "take_bit 32 (push_bit 20 ?n + 2 ^ 32) = take_bit 32 (push_bit 20 ?n)"
      by (simp add: take_bit_eq_mod)
    then have "signed_take_bit 31 (push_bit 20 ?n + 2 ^ 32) = signed_take_bit 31 (push_bit 20 ?n)"
      by (intro signed_take_bit_eq_iff_take_bit_eq [THEN iffD2]) simp
    then show ?thesis by (simp add: shl32_def push_bit_eq_mult distrib_right)
  qed
  ultimately show ?thesis by simp
qed

section \<open>A whole reading\<close>

definition usual_temperature_words :: "calibration \<Rightarrow> bool" where
  "usual_temperature_words c \<longleftrightarrow> 26000 \<le> uint (dig_t1 c) \<and> uint (dig_t1 c) \<le> 39000 \<and>
     \<bar>sint (dig_t2 c)\<bar> \<le> 27000 \<and> \<bar>sint (dig_t3 c)\<bar> \<le> 5000"

definition celsius_hundredths :: "calibration \<Rightarrow> int \<Rightarrow> int" where
  "celsius_hundredths c raw = (fine_temperature c raw * 5 + 128) div 256"

lemma bm_calls_calibration:
  "bm_write_read bus reg n (d, w) = (r, d', w') \<Longrightarrow> \<exists>b. d' = d\<lparr>bm_bus := b\<rparr>"
  "bm_write bus bytes (d, w) = (ok, d', w') \<Longrightarrow> \<exists>b. d' = d\<lparr>bm_bus := b\<rparr>"
  by (auto simp: bm_write_read_def bm_write_def Let_def split: option.splits prod.splits)
     (metis bme280.surjective bme280.update_convs(1))+

lemma trigger_measurement_bus: "trigger_measurement bus (d, w) = (ok, d', w') \<Longrightarrow> \<exists>b. d' = d\<lparr>bm_bus := b\<rparr>"
  by (auto simp: trigger_measurement_def Let_def split: prod.splits if_splits dest!: bm_calls_calibration)

lemma read_raw_SomeE:
  assumes "read_raw bus (d, w) = (Some (raw_t, raw_h), d', w')"
  obtains buffer b where "raw_t = raw_temperature buffer" "raw_h = raw_humidity buffer" "d' = d\<lparr>bm_bus := b\<rparr>"
  using assms by (auto simp: read_raw_def Let_def split: prod.splits if_splits dest!: bm_calls_calibration)

lemma bme_read_returns:
  assumes "bm_configured d" "usual_temperature_words (bm_calibration d)" "usual_humidity_words (bm_calibration d)"
    and "trigger_measurement bus (d, w) = (True, s1)" "read_raw bus s1 = (Some (raw_t, raw_h), d2, w2)"
    and "\<bar>fine_temperature (bm_calibration d) raw_t - 76800\<bar> \<le> 360000"
  defines "c \<equiv> bm_calibration d" and "now \<equiv> fst (system_now w2)"
  shows "bme_read bus (d, w) =
    ((set_sample 1 (good_sample (bm_humidity_channel_id d) kPercentUnit
         (f_div (f32 (of_int (humidity_units c raw_h (fine_temperature c raw_t)))) 100) now)
       (set_sample 0 (good_sample (bm_temperature_channel_id d) kCelsiusUnit
         (f_div (f32 (of_int (celsius_hundredths c raw_t))) 100) now) read_result_new))\<lparr>rr_sample_count := 2\<rparr>,
     d2, snd (system_now w2))"
proof -
  obtain d1 w1 where s1: "s1 = (d1, w1)" by fastforce
  obtain b1 where d1: "d1 = d\<lparr>bm_bus := b1\<rparr>" using trigger_measurement_bus assms(4) s1 by blast
  obtain buffer b2 where raw: "raw_t = raw_temperature buffer" "raw_h = raw_humidity buffer" "d2 = d1\<lparr>bm_bus := b2\<rparr>"
    using read_raw_SomeE assms(5) s1 by blast
  have d2: "bm_calibration d2 = c" "bm_temperature_channel_id d2 = bm_temperature_channel_id d"
      "bm_humidity_channel_id d2 = bm_humidity_channel_id d"
    using raw(3) d1 by (simp_all add: c_def)
  note r = raw_ranges [of buffer, folded raw]
  have t: "compensate_temperature c raw_t = Some (f_div (f32 (of_int (celsius_hundredths c raw_t))) 100, fine_temperature c raw_t)"
    using bme280_temperature_exact(1) [of c raw_t] assms(2) r(1,2)
    by (simp add: usual_temperature_words_def celsius_hundredths_def c_def)
  have h: "compensate_humidity c raw_h (fine_temperature c raw_t) =
      Some (f_div (f32 (of_int (humidity_units c raw_h (fine_temperature c raw_t)))) 100)"
    using bme280_humidity_exact assms(3,6) r(3,4) by (simp add: c_def)
  obtain n w3 where sn: "system_now w2 = (n, w3)" by fastforce
  show ?thesis using assms(1,4,5) t h d2 sn by (simp add: bme_read_def now_def Let_def)
qed

section \<open>Properties\<close>

definition ex_sensor :: "(unit \<times> world) i2c_bus" where
  \<comment> \<open>a bus that acknowledges everything and has one measurement in its data registers\<close>
  "ex_sensor = \<lparr>bus_open = (\<lambda>_ b. (True, b)),
     bus_write_read = (\<lambda>_ register buf b.
       ((True, if register = [kDataStartRegister] then [0x80, 0, 0, 0x80, 0, 0, 0x75, 0x30] else buf), b)),
     bus_write = (\<lambda>_ _ b. (True, b))\<rparr>"

definition ex_bme :: "unit bme280" where
  "ex_bme = (bme280_new (Some ()))\<lparr>bm_configured := True, bm_calibration := ex_calibration\<rparr>"

lemma ex_sensor_answers:
  "trigger_measurement ex_sensor (ex_bme, w) = (True, ex_bme, w)"
  "read_raw ex_sensor (ex_bme, w) = (Some (524288, 30000), ex_bme, w)"
proof -
  have "raw_temperature [0x80, 0, 0, 0x80, 0, 0, 0x75, 0x30] = 524288" "raw_humidity [0x80, 0, 0, 0x80, 0, 0, 0x75, 0x30] = 30000"
    by (simp_all add: raw_temperature_value raw_humidity_value)
  then show "trigger_measurement ex_sensor (ex_bme, w) = (True, ex_bme, w)"
    "read_raw ex_sensor (ex_bme, w) = (Some (524288, 30000), ex_bme, w)"
    by (simp_all add: trigger_measurement_def read_raw_def bm_write_def bm_write_read_def ex_sensor_def ex_bme_def bme280_new_def)
qed

text \<open>
  C39: A reading of a programmed BME280 is exactly the two compensation formulas over the integers, whatever
  the data registers hold: with calibration words of the usual size and a temperature between about -40 and 85
  degrees no 32-bit operation overflows, both samples are there with their channel, unit and the one
  time stamp, the first in hundredths of a degree, the second with the humidity in 1/1024 percent, from 0 to
  102400 of them, divided by 100.
\<close>

theorem bme280_reading_exact:
  assumes "bm_configured d" "usual_temperature_words (bm_calibration d)" "usual_humidity_words (bm_calibration d)"
    and "trigger_measurement bus (d, w) = (True, s1)" "read_raw bus s1 = (Some (raw_t, raw_h), d2, w2)"
    and "\<bar>fine_temperature (bm_calibration d) raw_t - 76800\<bar> \<le> 360000"
  defines "c \<equiv> bm_calibration d" and "now \<equiv> fst (system_now w2)"
  defines "units \<equiv> humidity_units c raw_h (fine_temperature c raw_t)"
  shows "bme_read bus (d, w) =
    ((set_sample 1 (good_sample (bm_humidity_channel_id d) kPercentUnit (f_div (f32 (of_int units)) 100) now)
       (set_sample 0 (good_sample (bm_temperature_channel_id d) kCelsiusUnit
         (f_div (f32 (of_int (celsius_hundredths c raw_t))) 100) now) read_result_new))\<lparr>rr_sample_count := 2\<rparr>,
     d2, snd (system_now w2)) \<and> 0 \<le> units \<and> units \<le> 102400"
proof -
  have "0 \<le> units \<and> units \<le> 102400"
    unfolding units_def humidity_units_def
    using div_between [of 0 4096 "min 419430400 (max 0 (humidity_value c raw_h (fine_temperature c raw_t)))" 102400] by auto
  then show ?thesis using bme_read_returns [OF assms(1-6)] by (simp add: c_def now_def units_def)
qed

theorem bme280_reading_exact_witness:
  "rr_sample_count (fst (bme_read ex_sensor (ex_bme, ex_trig_world))) = 2 \<and>
   celsius_hundredths ex_calibration 524288 = 2646 \<and>
   humidity_units ex_calibration 30000 (fine_temperature ex_calibration 524288) = 61113"
proof -
  have words: "usual_temperature_words (bm_calibration ex_bme)" "usual_humidity_words (bm_calibration ex_bme)"
    "\<bar>fine_temperature (bm_calibration ex_bme) 524288 - 76800\<bar> \<le> 360000" "bm_configured ex_bme" by code_simp+
  have "celsius_hundredths ex_calibration 524288 = 2646"
    "humidity_units ex_calibration 30000 (fine_temperature ex_calibration 524288) = 61113" by code_simp+
  then show ?thesis
    using bme280_reading_exact [OF words(4,1,2) ex_sensor_answers [of ex_trig_world] words(3)] by simp
qed

end
