(* ===== verification/SmokeTool.thy ===== *)
theory SmokeTool
  imports Devices Service Sqlite
begin

text \<open>
  The hardware check \<open>src/tools/bme280_smoke_main.cpp\<close>: its command line and the loop that reads the
  sensor for ever. What \<open>printf\<close> makes of a number is left out: a logged sample is its identifier,
  value and unit.
\<close>

section \<open>The command line\<close>

record smoke_options =
  so_foreground :: bool
  so_bus_path :: string
  so_address :: "8 word"
  so_interval_seconds :: int

definition kToolName :: string where
  "kToolName = ''bossa-bme280-smoke''"

definition kDefaultBus :: string where
  "kDefaultBus = ''/dev/i2c-1''"

definition kDefaultAddress :: "8 word" where
  "kDefaultAddress = 0x76"

definition smoke_defaults :: smoke_options where
  "smoke_defaults = \<lparr>so_foreground = False, so_bus_path = kDefaultBus, so_address = kDefaultAddress,
     so_interval_seconds = 1\<rparr>"

definition stoi :: "string \<Rightarrow> int option" where
  \<comment> \<open>\<open>std::stoi(text)\<close>: the longest decimal number at the start of the text, if it fits an \<open>int\<close>\<close>
  "stoi s =
     (let s = dropWhile is_space s;
          (negative, s) = (case s of ch # cs \<Rightarrow> if ch = CHR ''-'' then (True, cs)
                                         else if ch = CHR ''+'' then (False, cs) else (False, s)
                           | [] \<Rightarrow> (False, []));
          digits = takeWhile (\<lambda>ch. digit_value ch < 10) s;
          n = foldl (\<lambda>acc ch. acc * 10 + int (digit_value ch)) 0 digits;
          n = (if negative then - n else n)
      in if digits = [] \<or> n < - (2 ^ 31) \<or> 2 ^ 31 \<le> n then None else Some n)"

datatype smoke_message =                    \<comment> \<open>what goes to standard error\<close>
    SmokeText string
  | ConfigureFailed cpp_exn                  \<comment> \<open>\<open>configure failed:\<close> and what the exception says\<close>

definition print_usage :: "smoke_message list" where
  "print_usage = [SmokeText (''usage: '' @ kToolName @ '' [--foreground] [--bus PATH] [--address 0x76|0x77] '' @
     ''[--interval-seconds N]'')]"

fun smoke_parse_args :: "string list \<Rightarrow> smoke_options \<Rightarrow> cpp_exn + bool \<times> smoke_options \<times> smoke_message list" where
  \<comment> \<open>the result, the out-parameters and what was printed\<close>
  "smoke_parse_args [] o' = Inr (0 < so_interval_seconds o', o', [])"
| "smoke_parse_args (arg # args) o' =
     (if arg = ''--foreground'' then smoke_parse_args args (o'\<lparr>so_foreground := True\<rparr>)
      else if arg = ''--bus''
      then (case args of [] \<Rightarrow> Inr (False, o', [])
            | value # rest \<Rightarrow> smoke_parse_args rest (o'\<lparr>so_bus_path := value\<rparr>))
      else if arg = ''--address''
      then (case args of [] \<Rightarrow> Inr (False, o', [])
            | value # rest \<Rightarrow>
                (case stoul_auto value of
                   None \<Rightarrow> Inl NumberParseError
                 | Some n \<Rightarrow> smoke_parse_args rest (o'\<lparr>so_address := word_of_int n\<rparr>)))
      else if arg = ''--interval-seconds''
      then (case args of [] \<Rightarrow> Inr (False, o', [])
            | value # rest \<Rightarrow>
                (case stoi value of
                   None \<Rightarrow> Inl NumberParseError
                 | Some n \<Rightarrow> smoke_parse_args rest (o'\<lparr>so_interval_seconds := n\<rparr>)))
      else if arg = ''--help'' \<or> arg = ''-h'' then Inr (False, o', print_usage)
      else Inr (False, o', []))"

section \<open>main\<close>

type_synonym sample_line = "string \<times> double \<times> string"

record smoke_log =
  sl_syslog :: "sample_line list"
  sl_stderr :: "sample_line list"

definition log_sample :: "bool \<Rightarrow> sample \<Rightarrow> smoke_log \<Rightarrow> smoke_log" where
  "log_sample foreground s l =
     (let line = (sa_channel_id s, sa_value s, sa_unit s);
          l = l\<lparr>sl_syslog := sl_syslog l @ [line]\<rparr>
      in if foreground then l\<lparr>sl_stderr := sl_stderr l @ [line]\<rparr> else l)"

definition smoke_parameters :: "smoke_options \<Rightarrow> json" where
  "smoke_parameters o' = JObject [(''address'', JInt (uint (so_address o'))), (''bus'', JString (so_bus_path o'))]"

datatype smoke_result =
    SmokeExit int "smoke_message list"
  | SmokeThrew cpp_exn
  | SmokePolling smoke_options device world    \<comment> \<open>about to enter the loop\<close>

definition smoke_main :: "factory registry \<Rightarrow> string list \<Rightarrow> world \<Rightarrow> smoke_result" where
  "smoke_main registry args w =
     (case smoke_parse_args args smoke_defaults of
        Inl e \<Rightarrow> SmokeThrew e
      | Inr (False, _, printed) \<Rightarrow> SmokeExit EXIT_FAILURE (printed @ print_usage)
      | Inr (True, o', _) \<Rightarrow>
          (case registry_create ''bme280'' registry of
             None \<Rightarrow> SmokeExit EXIT_FAILURE []
           | Some f \<Rightarrow>
               (case device_configure (smoke_parameters o') (make_device f, w) of
                  (Some e, _, _) \<Rightarrow> SmokeExit EXIT_FAILURE (if so_foreground o' then [ConfigureFailed e] else [])
                | (None, d, w) \<Rightarrow> SmokePolling o' d w)))"

definition smoke_turn :: "smoke_options \<Rightarrow> smoke_log \<times> device \<times> world \<Rightarrow> smoke_log \<times> device \<times> world" where
  \<comment> \<open>the body of the loop, up to the sleep of one interval\<close>
  "smoke_turn o' = (\<lambda>(l, d, w).
     (let (result, d, w) = device_read (d, w)
      in (fold (log_sample (so_foreground o')) (take (rr_sample_count result) (rr_samples result)) l, d, w)))"

primrec smoke_loop :: "nat \<Rightarrow> smoke_options \<Rightarrow> smoke_log \<times> device \<times> world \<Rightarrow> smoke_log \<times> device \<times> world" where
  \<comment> \<open>the first turns of the loop, which has no end\<close>
  "smoke_loop 0 o' s = s"
| "smoke_loop (Suc n) o' s = smoke_loop n o' (smoke_turn o' s)"

section \<open>Lemmas\<close>

lemma smoke_parse_interval:
  "smoke_parse_args args o1 = Inr (True, o', printed) \<Longrightarrow> 0 < so_interval_seconds o'"
  by (induction args o1 rule: smoke_parse_args.induct) (auto split: if_splits list.splits option.splits)

lemma smoke_parse_prints:
  \<comment> \<open>what is printed is the usage, and then the arguments are refused\<close>
  "smoke_parse_args args o1 = Inr (ok, o', printed) \<Longrightarrow> printed = [] \<or> printed = print_usage \<and> \<not> ok"
  by (induction args o1 rule: smoke_parse_args.induct) (auto split: if_splits list.splits option.splits)

lemma help_prints_twice:
  "smoke_main registry (''--help'' # args) w = SmokeExit EXIT_FAILURE (print_usage @ print_usage)"
  by (simp add: smoke_main_def)

lemma fold_log_sample:
  "fold (log_sample foreground) ss l =
     (let ls = map (\<lambda>s. (sa_channel_id s, sa_value s, sa_unit s)) ss
      in \<lparr>sl_syslog = sl_syslog l @ ls, sl_stderr = sl_stderr l @ (if foreground then ls else [])\<rparr>)"
  by (induction ss arbitrary: l) (simp_all add: log_sample_def Let_def)

lemma smoke_turn_bounds:
  assumes "smoke_turn o' (l, d, w) = (l', d', w')" "device_ready d"
  shows "device_ready d' \<and> device_world w w' \<and> length (sl_syslog l') \<le> length (sl_syslog l) + 8 \<and>
         (so_foreground o' \<longrightarrow> sl_syslog l = sl_stderr l \<longrightarrow> sl_syslog l' = sl_stderr l')"
proof -
  obtain r d1 w1 where r: "device_read (d, w) = (r, d1, w1)" by (metis surj_pair)
  have "length (take (rr_sample_count r) (rr_samples r)) \<le> 8"
    using device.emitted_bound [of "(d, w)"] r by (simp add: device.emitted_def)
  moreover have "device_ready d1" using device.sense_ready [of d w] r assms(2) by simp
  ultimately show ?thesis using assms(1) r device_read_world [OF r]
    by (auto simp: smoke_turn_def fold_log_sample Let_def)
qed

lemma smoke_loop_bounds:
  "smoke_loop n o' (l, d, w) = (l', d', w') \<Longrightarrow> device_ready d \<Longrightarrow>
   device_ready d' \<and> device_world w w' \<and> length (sl_syslog l') \<le> length (sl_syslog l) + 8 * n"
proof (induction n arbitrary: l d w)
  case (Suc n)
  obtain l1 d1 w1 where t: "smoke_turn o' (l, d, w) = (l1, d1, w1)" by (metis surj_pair)
  note b = smoke_turn_bounds [OF t Suc.prems(2)]
  have "smoke_loop n o' (l1, d1, w1) = (l', d', w')" using Suc.prems(1) t by simp
  from Suc.IH [OF this] b show ?case using device_world_trans by fastforce
qed simp

section \<open>Properties\<close>

text \<open>
  The hardware check polls only a sensor that was configured: when \<open>main\<close> gets to its loop the
  interval is positive and the driver accepted the bus and the address, and then however long it runs
  the driver stays ready and a turn logs at most eight samples.
\<close>

theorem smoke_polls_configured_sensor:
  assumes "smoke_main registry args w = SmokePolling o' d w1"
    and "smoke_loop n o' (l, d, w1) = (l', d', w2)"
  shows "0 < so_interval_seconds o' \<and> device_ready d \<and> device_ready d' \<and>
         length (sl_syslog l') \<le> length (sl_syslog l) + 8 * n"
proof -
  obtain f printed where p: "smoke_parse_args args smoke_defaults = Inr (True, o', printed)"
      "device_configure (smoke_parameters o') (make_device f, w) = (None, d, w1)"
    using assms(1) by (auto simp: smoke_main_def split: sum.splits prod.splits bool.splits option.splits)
  have "device_ready d" using device.start_ready [OF p(2)] .
  with smoke_parse_interval [OF p(1)] smoke_loop_bounds [OF assms(2)] show ?thesis by blast
qed

theorem smoke_polls_configured_sensor_witness:
  "\<exists>o' d w. smoke_main (static_registration kForceLinkDrivers) [''--address'', ''0x176'', ''--interval-seconds'', ''2''] ex_world
       = SmokePolling o' d w \<and> so_address o' = 0x76 \<and> device_ready d"
proof -
  let ?r = "smoke_main (static_registration kForceLinkDrivers) [''--address'', ''0x176'', ''--interval-seconds'', ''2''] ex_world"
  have "case ?r of SmokePolling o' d w \<Rightarrow> so_address o' = 0x76 | _ \<Rightarrow> False" by code_simp
  then obtain o' d w where r: "?r = SmokePolling o' d w" "so_address o' = 0x76"
    by (auto split: smoke_result.splits)
  from smoke_polls_configured_sensor [OF r(1), of 0] r show ?thesis by simp
qed

end
