(* ===== verification/Mocks.thy ===== *)
theory Mocks
  imports Io
begin

text \<open>
  The test doubles under \<open>tests/mocks\<close>, \<open>MockGpio\<close> and \<open>MockI2cBus\<close>: that they keep the contracts that
  \<open>Io\<close> states for the hardware they stand in for.
\<close>

section \<open>The mock GPIO lines\<close>

record mock_line =
  ml_direction :: gpio_direction
  ml_value :: gpio_value
  ml_requested :: bool

record mock_gpio =
  mg_chip_name :: string
  mg_lines :: "nat \<rightharpoonup> mock_line"

definition mock_line_new :: mock_line where
  "mock_line_new = \<lparr>ml_direction = GpioInput, ml_value = GpioLow, ml_requested = False\<rparr>"

definition mock_line_at :: "mock_gpio \<Rightarrow> nat \<Rightarrow> mock_line" where
  \<comment> \<open>\<open>lines_[offset]\<close>, which makes the line if it is not there\<close>
  "mock_line_at g offset = (case mg_lines g offset of None \<Rightarrow> mock_line_new | Some l \<Rightarrow> l)"

definition mock_request_line :: "string \<Rightarrow> nat \<Rightarrow> gpio_direction \<Rightarrow> mock_gpio \<Rightarrow> bool \<times> mock_gpio" where
  "mock_request_line chip_name offset direction g =
     (True, g\<lparr>mg_chip_name := chip_name,
              mg_lines := (mg_lines g)(offset \<mapsto> (mock_line_at g offset)\<lparr>ml_direction := direction, ml_requested := True\<rparr>)\<rparr>)"

definition mock_read_line :: "nat \<Rightarrow> mock_gpio \<Rightarrow> gpio_value option \<times> mock_gpio" where
  "mock_read_line offset g =
     (case mg_lines g offset of
        None \<Rightarrow> (None, g)
      | Some l \<Rightarrow> (if \<not> ml_requested l then (None, g) else (Some (ml_value l), g)))"

definition mock_write_line :: "nat \<Rightarrow> gpio_value \<Rightarrow> mock_gpio \<Rightarrow> bool \<times> mock_gpio" where
  "mock_write_line offset v g =
     (case mg_lines g offset of
        None \<Rightarrow> (False, g)
      | Some l \<Rightarrow>
         (if \<not> ml_requested l \<or> ml_direction l \<noteq> GpioOutput then (False, g)
          else (True, g\<lparr>mg_lines := (mg_lines g)(offset \<mapsto> l\<lparr>ml_value := v\<rparr>)\<rparr>)))"

definition mock_set_line_value :: "nat \<Rightarrow> gpio_value \<Rightarrow> mock_gpio \<Rightarrow> mock_gpio" where
  "mock_set_line_value offset v g = g\<lparr>mg_lines := (mg_lines g)(offset \<mapsto> (mock_line_at g offset)\<lparr>ml_value := v\<rparr>)\<rparr>"

definition mock_held :: "mock_gpio \<Rightarrow> nat \<Rightarrow> bool" where
  "mock_held g i \<longleftrightarrow> ml_requested (mock_line_at g i)"

interpretation mock_gpio: gpio_lines mock_request_line mock_read_line mock_write_line mock_held
  by unfold_locales
     (auto simp: mock_request_line_def mock_read_line_def mock_write_line_def mock_held_def mock_line_at_def
        mock_line_new_def split: option.splits)

section \<open>The mock bus\<close>

type_synonym transaction = "8 word \<Rightarrow> 8 word list \<Rightarrow> 8 word list \<Rightarrow> bool \<times> 8 word list"

record mock_i2c_bus =
  mb_device_path :: string
  mb_register_handlers :: "8 word \<rightharpoonup> transaction"
  mb_default_handler :: "transaction option"

definition mock_open :: "string \<Rightarrow> mock_i2c_bus \<Rightarrow> bool \<times> mock_i2c_bus" where
  "mock_open path b = (if path = [] then (False, b) else (True, b\<lparr>mb_device_path := path\<rparr>))"

definition mock_write_read :: "8 word \<Rightarrow> 8 word list \<Rightarrow> 8 word list \<Rightarrow> mock_i2c_bus \<Rightarrow>
    (bool \<times> 8 word list) \<times> mock_i2c_bus" where
  "mock_write_read address write_data buf b =
     (case write_data of
        [] \<Rightarrow> ((False, buf), b)
      | register # _ \<Rightarrow>
         (case mb_register_handlers b register of
            Some handler \<Rightarrow> (let (ok, received) = handler address write_data buf in ((ok, fill_buffer buf received), b))
          | None \<Rightarrow>
             (case mb_default_handler b of
                Some handler \<Rightarrow> (let (ok, received) = handler address write_data buf in ((ok, fill_buffer buf received), b))
              | None \<Rightarrow> ((False, buf), b))))"

definition mock_write :: "8 word \<Rightarrow> 8 word list \<Rightarrow> mock_i2c_bus \<Rightarrow> bool \<times> mock_i2c_bus" where
  "mock_write address write_data b = (let ((ok, _), b') = mock_write_read address write_data [0] b in (ok, b'))"

definition set_register_handler :: "8 word \<Rightarrow> transaction \<Rightarrow> mock_i2c_bus \<Rightarrow> mock_i2c_bus" where
  "set_register_handler register handler b = b\<lparr>mb_register_handlers := (mb_register_handlers b)(register \<mapsto> handler)\<rparr>"

definition set_default_handler :: "transaction \<Rightarrow> mock_i2c_bus \<Rightarrow> mock_i2c_bus" where
  "set_default_handler handler b = b\<lparr>mb_default_handler := Some handler\<rparr>"

definition mock_bus :: "mock_i2c_bus i2c_bus" where
  "mock_bus = \<lparr>bus_open = mock_open, bus_write_read = mock_write_read, bus_write = mock_write\<rparr>"

interpretation mock: i2c_client mock_bus
  by unfold_locales
     (auto simp: mock_bus_def mock_write_read_def Let_def split: list.split option.split prod.split)

text \<open>
  Where the mock is more than the contract: it refuses to drive an input line, while the lines of libgpiod
  hand the write to the kernel whatever direction was asked for first.
\<close>

lemma mock_refuses_input:
  "mock_request_line chip line GpioInput g = (ok, g') \<Longrightarrow> mock_write_line line v g' = (False, g')"
  by (auto simp: mock_request_line_def mock_write_line_def)

end
