(* ===== verification/ComponentTests.thy ===== *)
theory ComponentTests
  imports RingBuffer Scheduler UploadPolicy HttpUploader Devices Mocks
begin

text \<open>
  The cases of \<open>tests/telemetry\<close>, \<open>tests/storage\<close>, \<open>tests/sync\<close> and \<open>tests/drivers\<close> on the models of the
  components. A case is a predicate on what the test leaves open (the clock): the conjunction of its
  assertions and expectations. That each of them holds is a check of the models against what the authors of
  the program observe of it.
\<close>

section \<open>The ring buffer\<close>

definition make_sample :: "string \<Rightarrow> priority \<Rightarrow> double \<Rightarrow> int \<Rightarrow> stored_sample" where
  "make_sample channel p v now =
     from_sample (sample_default\<lparr>sa_channel_id := channel, sa_unit := ''celsius'', sa_value := v,
       sa_timestamp := now, sa_quality := KGood\<rparr>) p"

fun has_channel :: "stored_sample option \<Rightarrow> string \<Rightarrow> bool" where
  \<comment> \<open>\<open>ASSERT_TRUE(has_value())\<close>, then \<open>EXPECT_STREQ\<close> of the identifier\<close>
  "has_channel None c = False"
| "has_channel (Some s) c = (c_str (ss_channel_id s) = c)"

definition enqueue_dequeue_fifo :: "int \<Rightarrow> int \<Rightarrow> bool" where
  "enqueue_dequeue_fifo t1 t2 =
     (case ring_buffer_new 3 of
        Inl _ \<Rightarrow> False
      | Inr buffer \<Rightarrow>
          (let (ok1, buffer) = enqueue (make_sample ''a'' KNormal (Fin 1) t1) buffer;
               (ok2, buffer) = enqueue (make_sample ''b'' KNormal (Fin 2) t2) buffer;
               (first, buffer) = dequeue buffer;
               (second, buffer) = dequeue buffer
           in ok1 \<and> ok2 \<and> has_channel first ''a'' \<and> map_option ss_value first = Some (Fin 1) \<and>
              has_channel second ''b''))"

definition overflow_drops_low_priority_first :: "int \<Rightarrow> int \<Rightarrow> int \<Rightarrow> bool" where
  "overflow_drops_low_priority_first t1 t2 t3 =
     (case ring_buffer_new 2 of
        Inl _ \<Rightarrow> False
      | Inr buffer \<Rightarrow>
          (let (ok1, buffer) = enqueue (make_sample ''low'' KLow (Fin 1) t1) buffer;
               (ok2, buffer) = enqueue (make_sample ''normal'' KNormal (Fin 2) t2) buffer;
               (ok3, buffer) = enqueue (make_sample ''critical'' KCritical (Fin 3) t3) buffer;
               sizes = (ring_size buffer = 2 \<and> ring_drop_count buffer = 1);
               (first, buffer) = dequeue buffer;
               (second, buffer) = dequeue buffer
           in ok1 \<and> ok2 \<and> ok3 \<and> sizes \<and> has_channel first ''normal'' \<and> has_channel second ''critical''))"

lemma ring_buffer_tests: "enqueue_dequeue_fifo t1 t2" "overflow_drops_low_priority_first t1 t2 t3"
  by code_simp+

section \<open>The scheduler\<close>

type_synonym poll_hits = "(string \<times> int) list"

definition record_hit :: "int \<Rightarrow> string \<Rightarrow> poll_hits \<Rightarrow> poll_hits" where
  "record_hit now channel hits = hits @ [(channel, now)]"

fun dispatch_at :: "int list \<Rightarrow> scheduler \<times> poll_hits \<Rightarrow> (scheduler \<times> poll_hits) option" where
  \<comment> \<open>\<open>dispatch_due\<close> with the clock of the test at each of the times\<close>
  "dispatch_at [] s = Some s"
| "dispatch_at (now # instants) (channels, hits) =
     (case dispatch_due (Some (record_hit now)) now channels hits of
        None \<Rightarrow> None
      | Some (_, channels, hits) \<Rightarrow> dispatch_at instants (channels, hits))"

definition hits_of :: "string \<Rightarrow> poll_hits \<Rightarrow> int list" where
  "hits_of channel hits = map snd (filter (\<lambda>h. fst h = channel) hits)"

definition check_period :: "int list \<Rightarrow> int \<Rightarrow> bool" where
  "check_period hits expected_ms \<longleftrightarrow> 2 \<le> length hits \<and>
     list_all (\<lambda>i. \<bar>c_div (hits ! i - hits ! (i - 1)) 1000000 - expected_ms\<bar> \<le> 10) [1..<length hits]"

definition three_channels_at_configured_rates :: bool where
  "three_channels_at_configured_rates =
     (case configure 0 [\<lparr>se_channel_id = ''fast'', se_sample_rate_hz = Fin 10\<rparr>,
                        \<lparr>se_channel_id = ''medium'', se_sample_rate_hz = Fin 5\<rparr>,
                        \<lparr>se_channel_id = ''slow'', se_sample_rate_hz = Fin 2\<rparr>] of
        None \<Rightarrow> False
      | Some channels \<Rightarrow>
          (case dispatch_at (0 # map (\<lambda>step. int step * 10 * 1000000) [1..<101]) (channels, []) of
             None \<Rightarrow> False
           | Some (_, hits) \<Rightarrow>
               10 \<le> length (hits_of ''fast'' hits) \<and> 5 \<le> length (hits_of ''medium'' hits) \<and>
               2 \<le> length (hits_of ''slow'' hits) \<and>
               check_period (hits_of ''fast'' hits) 100 \<and> check_period (hits_of ''medium'' hits) 200 \<and>
               check_period (hits_of ''slow'' hits) 500))"

definition reload_changes_sample_rate :: bool where
  "reload_changes_sample_rate =
     (case configure 0 [\<lparr>se_channel_id = ''temp'', se_sample_rate_hz = Fin 1\<rparr>] of
        None \<Rightarrow> False
      | Some channels \<Rightarrow>
          (case dispatch_at [0, 1000000000] (channels, []) of
             None \<Rightarrow> False
           | Some (_, hits1) \<Rightarrow>
               (case configure 1000000000 [\<lparr>se_channel_id = ''temp'', se_sample_rate_hz = Fin 10\<rparr>] of
                  None \<Rightarrow> False
                | Some channels \<Rightarrow>
                    (case dispatch_at [1000000000, 1100000000, 1200000000] (channels, []) of
                       None \<Rightarrow> False
                     | Some (_, hits) \<Rightarrow>
                         length hits1 = 2 \<and> length hits = 3 \<and>
                         c_div (snd (hits ! 1) - snd (hits ! 0)) 1000000 = 100))))"

declare catch_up.simps [code]

lemma scheduler_tests: "three_channels_at_configured_rates" "reload_changes_sample_rate"
  by code_simp+

section \<open>The upload policy\<close>

definition test_channel :: "string \<Rightarrow> sync_mode \<Rightarrow> channel_sync_state" where
  \<comment> \<open>\<open>ChannelSyncState\<close> with its defaults, but for the identifier, the mode and the destination\<close>
  "test_channel c mode = \<lparr>cy_channel_id = c, cy_mode = mode, cy_priority = KNormal, cy_remote_interval = 60,
     cy_on_change_threshold = Fin 0, cy_destination_remote = True\<rparr>"

definition batch_flushes_after_interval :: "int \<Rightarrow> int \<Rightarrow> bool" where
  "batch_flushes_after_interval configured start =
     (let policy = configure_channel (test_channel ''temp'' KBatch) configured upload_policy_new;
          policy = mark_flushed start policy
      in \<not> should_flush (start + 30 * 1000000000) 3 500 policy \<and>
         should_flush (start + 60 * 1000000000) 3 500 policy)"

definition realtime_flushes_immediately :: "int \<Rightarrow> int \<Rightarrow> bool" where
  "realtime_flushes_immediately configured now =
     (let policy = configure_channel (test_channel ''alarm'' KRealtime) configured upload_policy_new;
          policy = on_sample ''alarm'' (Fin 1) now policy
      in should_flush now 1 500 policy)"

lemma upload_policy_tests: "batch_flushes_after_interval t0 t1" "realtime_flushes_immediately t0 t1"
  by (simp_all add: batch_flushes_after_interval_def realtime_flushes_immediately_def test_channel_def
      upload_policy_new_def configure_channel_def mark_flushed_def on_sample_def should_flush_def Let_def)

section \<open>The offline store\<close>

definition sample_now :: "string \<Rightarrow> double \<Rightarrow> store_state \<Rightarrow> stored_sample \<times> store_state" where
  \<comment> \<open>\<open>make_sample\<close> of the tests of the store and the uploader\<close>
  "sample_now channel v = (\<lambda>(ls, w).
     (let (now, w) = system_now w
      in (from_sample (sample_default\<lparr>sa_channel_id := channel, sa_unit := ''celsius'', sa_value := v,
            sa_timestamp := now\<rparr>) KNormal, ls, w)))"

definition enqueue_peek_acknowledge :: "string \<Rightarrow> world \<Rightarrow> bool" where
  "enqueue_peek_acknowledge path w =
     (let (opened, s) = open_store path (local_store_new, w);
          (x, s) = sample_now ''ambient_temperature'' (Fin 22.5) s;
          (ok1, s) = store_enqueue x s;
          (y, s) = sample_now ''ambient_humidity'' (Fin 55) s;
          (ok2, s) = store_enqueue y s;
          (n, s) = pending_count s;
          (batch, s) = peek_batch 10 s
      in opened \<and> ok1 \<and> ok2 \<and> n = 2 \<and>
         (case batch of
            [first, second] \<Rightarrow>
              (let (acknowledged, s) = acknowledge (pr_id first) s;
                   (n, s) = pending_count s
               in c_str (ss_channel_id (pr_sample first)) = ''ambient_temperature'' \<and>
                  ss_value (pr_sample first) = Fin 22.5 \<and> acknowledged \<and> n = 1)
          | _ \<Rightarrow> False))"

lemma local_store_test: "enqueue_peek_acknowledge ''/tmp/bossa_local_store_test.db'' (ex_world\<lparr>w_system := clock\<rparr>)"
  by code_simp

section \<open>The drivers\<close>

definition with_world :: "'b i2c_bus \<Rightarrow> ('b \<times> world) i2c_bus" where
  \<comment> \<open>a bus that does not look at the world, as the driver calls it\<close>
  "with_world bus = \<lparr>bus_open = (\<lambda>path (b, w). let (ok, b) = bus_open bus path b in (ok, b, w)),
     bus_write_read = (\<lambda>a out buf (b, w). let (r, b) = bus_write_read bus a out buf b in (r, b, w)),
     bus_write = (\<lambda>a out (b, w). let (ok, b) = bus_write bus a out b in (ok, b, w))\<rparr>"

definition registers_bme280_driver :: "factory registry \<Rightarrow> bool" where
  "registers_bme280_driver registry \<longleftrightarrow> registry_contains ''bme280'' registry \<and>
     (case registry_create ''bme280'' registry of None \<Rightarrow> False | Some f \<Rightarrow> device_name (make_device f) = ''bme280'')"

fun block_of :: "8 word list \<Rightarrow> transaction" where
  \<comment> \<open>a handler that copies a block to the reader and succeeds\<close>
  "block_of block address write_data read_data = (True, block)"

definition answers :: "8 word list \<Rightarrow> 8 word list \<Rightarrow> 8 word list \<Rightarrow> mock_i2c_bus" where
  \<comment> \<open>the bus of the tests: the chip id, the two calibration blocks, silent control registers, a measurement\<close>
  "answers calibration_block humidity_block measurement_block =
     (let mock = \<lparr>mb_device_path = [], mb_register_handlers = (\<lambda>_. None), mb_default_handler = None\<rparr>;
          mock = set_register_handler 0xD0 (block_of [0x60]) mock;
          mock = set_register_handler 0x88 (block_of calibration_block) mock;
          mock = set_register_handler 0xE1 (block_of humidity_block) mock;
          mock = set_register_handler 0xF2 (\<lambda>_ _ read_data. (True, read_data)) mock;
          mock = set_register_handler 0xF4 (\<lambda>_ _ read_data. (True, read_data)) mock
      in set_register_handler 0xF7 (block_of measurement_block) mock)"

definition configured_and_read :: "mock_i2c_bus \<Rightarrow> world \<Rightarrow> (cpp_exn option \<times> read_result \<times> world)" where
  "configured_and_read mock w =
     (let (e, d, w) = bme_configure (with_world mock_bus) mock
            (JObject [(''bus'', JString ''/dev/i2c-1''), (''address'', JInt 0x76)]) (bme280_new (Some mock), w);
          (result, d, w) = bme_read (with_world mock_bus) (d, w)
      in (e, result, w))"

definition test_bus :: mock_i2c_bus where
  \<comment> \<open>the bytes of \<open>MockI2cProducesExpectedSamples\<close>\<close>
  "test_bus = answers
     [0x30, 0x6F, 0xF7, 0x68, 0x32, 0x00, 0x00, 0x00, 0x00, 0x00, 0x00, 0x00, 0x00,
      0x00, 0x00, 0x00, 0x00, 0x00, 0x00, 0x00, 0x00, 0x00, 0x00, 0x00, 0x00, 0x4B]
     [0x6B, 0x01, 0x00, 0x12, 0x03, 0x1E, 0x00]
     [0x00, 0x80, 0x00, 0x82, 0x3F, 0x80, 0x7F, 0x45]"

definition mock_i2c_produces_expected_samples :: "world \<Rightarrow> bool" where
  "mock_i2c_produces_expected_samples w =
     (let (e, result, w) = configured_and_read test_bus w;
          first = rr_samples result ! 0;
          second = rr_samples result ! 1
      in e = None \<and> rr_sample_count result = 2 \<and>
         sa_channel_id first = ''ambient_temperature'' \<and> sa_unit first = ''celsius'' \<and>
         d_less_eq (d_abs (d_sub (sa_value first) (Fin 25))) (Fin 0.5) \<and>
         sa_channel_id second = ''ambient_humidity'' \<and> sa_unit second = ''percent'' \<and> sa_value second \<noteq> NaN \<and>
         sa_quality first = KGood \<and> sa_quality second = KGood)"

definition read_uses_fixed_capacity_result :: "world \<Rightarrow> bool" where
  "read_uses_fixed_capacity_result w =
     (let (e, result, w) = configured_and_read (answers (replicate 26 0) (replicate 7 0) (replicate 8 0)) w
      in e = None \<and> rr_sample_count result \<le> kMaxSamples)"

lemma driver_tests:
  "registers_bme280_driver (static_registration kForceLinkDrivers)"
  "mock_i2c_produces_expected_samples ex_world"
  "read_uses_fixed_capacity_result ex_world"
  by code_simp+

text \<open>
  The humidity that the test only requires to be a number is 699 percent and a half: the bytes of the test
  stand for 68.3 percent, and the driver's scale is wrong (theorem \<open>bme280_humidity_scale\<close>).
\<close>

lemma test_bus_humidity:
  "let (_, result, _) = configured_and_read test_bus ex_world; percent = sa_value (rr_samples result ! 1)
   in d_less (Fin 699) percent \<and> d_less percent (Fin 700)"
  by code_simp

end
