(* ===== verification/ServiceTests.thy ===== *)
theory ServiceTests
  imports Service
begin

text \<open>
  The cases of \<open>tests/core/service_test.cpp\<close>, on the model of the service: the two services they define, and for
  each case what it expects, for every interleaving it allows instead of for the one that a test run sees.
  A pause of the test's main thread is any number of steps of the service thread.
\<close>

section \<open>The services of the tests\<close>

definition initial_flags :: service_flags where
  \<comment> \<open>the flags of a process in which no service ran yet\<close>
  "initial_flags = \<lparr>g_running = 1, g_reload = 0\<rparr>"

definition counting_service :: "nat service_class" where
  \<comment> \<open>\<open>CountingService\<close>, built for the foreground; its member counts the calls of \<open>loop\<close>\<close>
  "counting_service = \<lparr>sc_name = ''test-service'', sc_foreground = True, sc_reload = base_reload,
     sc_loop = (\<lambda>n. Returned (n + 1))\<rparr>"

definition reload_service :: "nat service_class" where
  \<comment> \<open>\<open>ReloadService\<close>, whose member counts the calls of \<open>reload\<close>\<close>
  "reload_service = \<lparr>sc_name = ''reload-service'', sc_foreground = True, sc_reload = (\<lambda>n. Returned (n + 1)),
     sc_loop = (\<lambda>n. Returned n)\<rparr>"

interpretation counting: total_service_body counting_service "\<lambda>_. True"
  by unfold_locales (simp_all add: counting_service_def base_reload_def)

interpretation reloading: total_service_body reload_service "\<lambda>_. True"
  by unfold_locales (simp_all add: reload_service_def)

definition willing :: "posix \<Rightarrow> bool" where
  \<comment> \<open>the handlers can be installed\<close>
  "willing px \<longleftrightarrow> (\<forall>sig \<in> fatal_signals. 0 \<le> px_sigaction px sig)"

section \<open>What every case does first\<close>

text \<open>Seven steps of the thread bring a service in the foreground to its loop.\<close>

definition at_while :: "'s service_class \<Rightarrow> process \<Rightarrow> 's \<Rightarrow> virtual_call list \<Rightarrow> 's service" where
  "at_while c p self calls =
     \<lparr>sv_pc = SvWhile, sv_flags = \<lparr>g_running = 1, g_reload = 0\<rparr>,
      sv_process = p\<lparr>pr_logging := True, pr_handled := [SIGHUP, SIGINT, SIGTERM] @ pr_handled p\<rparr>,
      sv_self = self, sv_calls = calls\<rparr>"

lemma start_up:
  assumes "willing px" "sc_foreground c"
  shows "run_service px c (replicate 7 Thread) (service_new fl p self) = at_while c p self []"
proof -
  have "\<not> px_sigaction px SIGTERM < 0" "\<not> px_sigaction px SIGINT < 0" "\<not> px_sigaction px SIGHUP < 0"
    using assms(1) by (auto simp: willing_def fatal_signals_def)
  then show ?thesis using assms(2)
    by (simp add: numeral_eq_Suc service_new_def service_step_def open_logging_def at_while_def)
qed

lemma counting_turn:
  "run_service px counting_service (replicate 3 Thread) (at_while counting_service p n calls) =
   at_while counting_service p (n + 1) (calls @ [CallLoop])"
  by (simp add: numeral_eq_Suc at_while_def service_step_def after_call_def counting_service_def)

lemma counting_turns:
  "run_service px counting_service (replicate (3 * k) Thread) (at_while counting_service p n calls) =
   at_while counting_service p (n + k) (calls @ replicate k CallLoop)"
proof (induction k arbitrary: n calls)
  case (Suc k)
  have "replicate (3 * Suc k) Thread = replicate 3 Thread @ replicate (3 * k) Thread"
    by (simp add: replicate_add [symmetric])
  then show ?case using Suc.IH [of "n + 1" "calls @ [CallLoop]"] counting_turn [of px p n calls]
    by (simp add: replicate_append_same [symmetric])
qed simp

text \<open>The counters only grow.\<close>

lemma counting_grows: "sv_self s \<le> sv_self (happen px counting_service e s)"
proof (cases e)
  case Thread
  show ?thesis unfolding Thread happen.simps service_step_def
    by (cases "(px, counting_service, sv_pc s, s)" rule: start_from.cases)
       (auto simp: after_call_def counting_service_def base_reload_def split: option.split prod.split)
qed (simp_all add: deliver_def)

lemma counting_grows_run: "sv_self s \<le> sv_self (run_service px counting_service events s)"
proof (induction events arbitrary: s)
  case (Cons e events)
  from order_trans [OF counting_grows Cons.IH] show ?case by simp
qed simp

text \<open>A service that is at its loop and is told to stop ends with success, whatever else arrives.\<close>

lemma told_to_stop:
  assumes "total_service_body c (\<lambda>_. True)" "service_reach px c (service_new fl p self) s" "fresh_descriptors px"
    and "looping (sv_pc s)" "e \<in> {RequestStop, Signal SIGTERM, Signal SIGINT}"
    and "list_all ours events" "5 \<le> count_list events Thread"
  shows "sv_pc (run_service px c (e # events) s) = SvExited EXIT_SUCCESS"
proof -
  have "in_loop s" using boot_invar_reach [OF assms(2,3)] assms(4) by (simp add: in_loop_def boot_invar_def)
  then have "looping (sv_pc (happen px c e s))" "g_running (sv_flags (happen px c e s)) = 0"
    using assms(5) by (auto simp: in_loop_def handlers_installed_def fatal_signals_def deliver_def request_stop_def)
  then show ?thesis
    using total_service_body.stops_cleanly [OF assms(1) service_reach.event [OF assms(2)] _ assms(3) _ _ assms(6,7)]
    by (simp del: happen.simps)
qed

lemma after_turns:
  assumes "willing px"
  shows "run_service px counting_service (replicate (7 + 3 * k) Thread) (service_new fl p 0) =
    at_while counting_service p k (replicate k CallLoop)"
  using start_up [OF assms, of counting_service fl p 0] counting_turns [of px k p 0 "[]"]
  by (simp add: replicate_add counting_service_def)

lemma reach_turns:
  assumes "willing px"
  shows "service_reach px counting_service (service_new fl p 0) (at_while counting_service p k (replicate k CallLoop))"
  using reach_run [OF service_reach.start, of px counting_service "service_new fl p 0"] after_turns [OF assms] by metis

text \<open>Told to stop after any number of turns, the counting service ends with success.\<close>

lemma stopped_after_turns:
  assumes "willing px" "fresh_descriptors px" "e \<in> {RequestStop, Signal SIGTERM, Signal SIGINT}"
    and "list_all ours events" "5 \<le> count_list events Thread"
  shows "sv_pc (run_service px counting_service (e # events) (at_while counting_service p k (replicate k CallLoop)))
    = SvExited EXIT_SUCCESS"
  using told_to_stop [OF counting.total_service_body_axioms reach_turns [OF assms(1), where fl = initial_flags]
      assms(2) _ assms(3-5)]
  by (simp add: at_while_def)

section \<open>The cases\<close>

text \<open>\<open>ForegroundModeInvokesLoop\<close>: after at least two turns and a stop, \<open>start\<close> is over and two turns are counted.\<close>

lemma foreground_mode_invokes_loop:
  assumes "willing px" "fresh_descriptors px" "2 \<le> k" "list_all ours events" "5 \<le> count_list events Thread"
  shows "let s = run_service px counting_service (replicate (7 + 3 * k) Thread @ RequestStop # events) (service_new fl p 0)
    in sv_pc s = SvExited EXIT_SUCCESS \<and> 2 \<le> sv_self s"
proof -
  let ?s = "at_while counting_service p k (replicate k CallLoop)"
  have "2 \<le> sv_self (run_service px counting_service (RequestStop # events) ?s)"
    using counting_grows_run [of ?s px "RequestStop # events"] assms(3) by (simp add: at_while_def del: run_service_simps)
  moreover have "sv_pc (run_service px counting_service (RequestStop # events) ?s) = SvExited EXIT_SUCCESS"
    using assms by (intro stopped_after_turns) simp_all
  ultimately show ?thesis using after_turns [OF assms(1)] by (simp only: run_service_simps(3) Let_def)
qed

text \<open>
  \<open>RequestStopEndsLoop\<close> and \<open>SigtermStopsService\<close>: the flag is up in a fresh process, and down for good once
  the service was told to stop. The first half needs the fresh process: nothing but \<open>start\<close> raises the
  flag again, so the case fails when another one ran before it in the same process.
\<close>

lemma stays_stopped:
  assumes "sv_pc s \<noteq> SvFlags" "\<not> is_running (sv_flags s)"
  shows "sv_pc (run_service px c events s) \<noteq> SvFlags \<and> \<not> is_running (sv_flags (run_service px c events s))"
  using assms
proof (induction events arbitrary: s)
  case (Cons e events)
  have "sv_pc (happen px c e s) \<noteq> SvFlags \<and> \<not> is_running (sv_flags (happen px c e s))"
  proof (cases e)
    case Thread
    show ?thesis using Cons.prems unfolding Thread happen.simps service_step_def
      by (cases "(px, c, sv_pc s, s)" rule: start_from.cases)
         (auto simp: is_running_def split: option.split prod.split call_outcome.split)
  next
    case (Signal sig)
    then show ?thesis using Cons.prems by (cases sig) (auto simp: deliver_def is_running_def)
  qed (use Cons.prems in \<open>auto simp: is_running_def request_stop_def request_reload_def\<close>)
  then show ?case using Cons.IH by simp
qed simp

lemma request_stop_ends_loop:
  assumes "willing px" "fresh_descriptors px" "e \<in> {RequestStop, Signal SIGTERM, Signal SIGINT}"
    and "list_all ours events" "5 \<le> count_list events Thread"
  shows "let s = run_service px counting_service (replicate (7 + 3 * k) Thread @ e # events) (service_new initial_flags p 0)
    in sv_pc s = SvExited EXIT_SUCCESS \<and> \<not> is_running (sv_flags s)"
proof -
  let ?s = "at_while counting_service p k (replicate k CallLoop)"
  have "sv_pc (happen px counting_service e ?s) \<noteq> SvFlags" "\<not> is_running (sv_flags (happen px counting_service e ?s))"
    using assms(3) by (auto simp: at_while_def deliver_def is_running_def request_stop_def)
  from stays_stopped [OF this, of px counting_service events] show ?thesis
    using stopped_after_turns [OF assms, of p k] after_turns [OF assms(1)]
    by (simp only: run_service_simps(2,3) Let_def) simp
qed

lemma fresh_process_is_running: "is_running initial_flags"
  by (simp add: is_running_def initial_flags_def)

lemma no_second_case_in_one_process:
  "\<not> is_running (sv_flags s) \<Longrightarrow> \<not> is_running (sv_flags (service_new (sv_flags s) p self))"
  by (simp add: service_new_def)

text \<open>A stop that comes before \<open>start\<close> raises the flag is lost; the pauses of the cases keep clear of that.\<close>

lemma stop_before_start_is_lost:
  "is_running (sv_flags (run_service px c [RequestStop, Thread] (service_new fl p self)))"
  by (simp add: service_new_def service_step_def is_running_def)

text \<open>\<open>SighupInvokesReload\<close>: a SIGHUP at any point of the loop is answered within five steps.\<close>

lemma sighup_invokes_reload:
  assumes "in_loop s" "is_running (sv_flags s)"
  shows "sv_self s < sv_self (run_service px reload_service (Signal SIGHUP # replicate 5 Thread) s)"
proof -
  have "SIGHUP \<in> set (pr_handled (sv_process s))" "looping (sv_pc s)"
    using assms(1) by (simp_all add: in_loop_def handlers_installed_def fatal_signals_def)
  then show ?thesis using assms(2)
    by (auto elim!: looping_cases simp: numeral_eq_Suc deliver_def service_step_def after_call_def reload_service_def is_running_def)
qed

text \<open>\<open>ForegroundStartReturnsSuccess\<close> is the first half of the first case, for a stop at any point of the loop.\<close>

lemma foreground_start_returns_success:
  assumes "service_reach px counting_service (service_new fl p 0) s" "fresh_descriptors px" "looping (sv_pc s)"
    and "list_all ours events" "5 \<le> count_list events Thread"
  shows "sv_pc (run_service px counting_service (RequestStop # events) s) = SvExited EXIT_SUCCESS"
  using told_to_stop [OF counting.total_service_body_axioms assms(1-3) _ assms(4,5), of RequestStop] by simp

text \<open>All of it at once on a concrete machine.\<close>

lemma service_tests_run:
  "willing ex_posix"
  "sv_pc (run_service ex_posix counting_service (replicate 13 Thread @ RequestStop # replicate 5 Thread)
     (service_new initial_flags ex_process 0)) = SvExited EXIT_SUCCESS"
  "sv_self (run_service ex_posix counting_service (replicate 13 Thread @ RequestStop # replicate 5 Thread)
     (service_new initial_flags ex_process 0)) = 2"
proof -
  show "willing ex_posix" by (simp add: willing_def ex_posix_def)
  show "sv_pc (run_service ex_posix counting_service (replicate 13 Thread @ RequestStop # replicate 5 Thread)
     (service_new initial_flags ex_process 0)) = SvExited EXIT_SUCCESS"
    "sv_self (run_service ex_posix counting_service (replicate 13 Thread @ RequestStop # replicate 5 Thread)
     (service_new initial_flags ex_process 0)) = 2" by code_simp+
qed

end
