(* ===== verification/ProgramTests.thy ===== *)
theory ProgramTests
  imports ComponentTests Recovery Daemon
begin

text \<open>
  The cases of \<open>tests/sync\<close>, \<open>tests/runtime\<close> and \<open>tests/core\<close> that put several components together, on their models:
  the uploader with its store, the pipeline with a simulated sensor, the reading of the configuration, the
  daemon started as a process. As in \<open>ComponentTests\<close> a case is a predicate. The HTTP client of the tests is
  \<open>mock_http_client\<close>, the parser is given by what it makes of the test's file.
\<close>

section \<open>The uploader\<close>

definition mock_http_client :: "int list \<Rightarrow> nat \<Rightarrow> http_response" where
  \<comment> \<open>\<open>MockHttpClient\<close>: the answers in their order, then 202\<close>
  "mock_http_client status_sequence call_count =
     \<lparr>hr_status_code = (if call_count < length status_sequence then status_sequence ! call_count else 202),
      hr_body = [], hr_error = []\<rparr>"

definition mentions :: "string \<Rightarrow> string \<Rightarrow> bool" where
  \<comment> \<open>\<open>find(part) != npos\<close>\<close>
  "mentions text part = list_ex (\<lambda>i. take (length part) (drop i text) = part) [0..<Suc (length text)]"

definition failure_persists_then_retry_succeeds :: "string \<Rightarrow> world \<Rightarrow> bool" where
  "failure_persists_then_retry_succeeds path w =
     (let (opened, s) = open_store path (local_store_new, w\<lparr>w_reply := mock_http_client [503, 202], w_posts := []\<rparr>);
          uploader = \<lparr>up_has_store = True, up_server_url = ''https://telemetry.example.com'', up_node_id = ''node-1'',
                      up_api_key = ''secret'', up_timeout_seconds = 5\<rparr>;
          (x, s) = sample_now ''ambient_temperature'' (Fin 21) s;
          (result, s) = upload uploader [x] s;
          (n1, s) = pending_count s;
          found = mentions (hq_url (last (w_posts (snd s)))) ''/api/v1/telemetry'';
          (retry, s) = retry_pending uploader 10 s;
          (n2, s) = pending_count s
      in opened \<and> result = Inr KTransientFailure \<and> n1 = 1 \<and> found \<and>
         retry = Inr KAccepted \<and> n2 = 0 \<and> length (w_posts (snd s)) = 2)"

text \<open>The case passes on every machine whose database works and whose serialiser does not refuse the batch.\<close>

lemma mentions_inside: "mentions (before @ part @ behind) part"
  by (auto simp: mentions_def list_ex_iff intro!: bexI [of _ "length before"])

lemma mock_replies: "next_reply w = (if length (w_posts w) = 0 then KTransientFailure else KAccepted)"
  if "w_reply w = mock_http_client [503, 202]"
  using that by (auto simp: next_reply_def mock_http_client_def interpret_response_def nth_Cons')

lemma fresh_store:
  assumes "store_wf (local_store_new, w)" "w_disk w (c_str path) = None" "fst (open_store path (local_store_new, w))"
  obtains ls w' where "open_store path (local_store_new, w) = (True, ls, w')" "store_wf (ls, w')"
    "ls_db ls = Some (c_str path)" "same_net w w'" "store_rows (ls, w') = []"
proof -
  obtain ls w' where o: "open_store path (local_store_new, w) = (True, ls, w')" using assms(3) by (metis prod.collapse)
  have laws: "sqlite_laws (w_sqlite w)" using assms(1) by (simp add: store_wf.simps)
  note d = open_store_disk [OF o laws]
  show ?thesis
    by (rule that [of ls w'])
      (use o open_store_wf [OF o assms(1)] d assms(2) in \<open>simp_all add: store_rows_def empty_table_def new_table_def opened_disk_def local_store_new_def\<close>)
qed

lemma refused_upload_saves:
  assumes "store_wf (ls, w)" "store_rows (ls, w) = []" "ls_db ls = Some file" "store_works (w_sqlite w)"
    and "w_reply w = mock_http_client [503, 202]" "w_posts w = []" "ss_value x \<noteq> NaN"
    and "up_has_store u" "batch_request u [x] w = Some q" "upload u [x] (ls, w) = (r, ls', w')"
  shows "r = Inr KTransientFailure" "w_posts w' = [q]" "\<exists>i. store_rows (ls', w') = [(i, saved_sample x)]"
    "store_wf (ls', w')" "ls_db ls' = Some file" "w_sqlite w' = w_sqlite w" "w_dump w' = w_dump w" "w_reply w' = w_reply w"
proof -
  note e = upload_effect [OF assms(1) _ assms(10)] and f = upload_keeps_frame [OF assms(1,10)]
  show "r = Inr KTransientFailure" "w_posts w' = [q]"
    using e assms(2-9) mock_replies [OF assms(5)] by (auto simp: upload_spec_def store_works_def)
  have "map snd (store_rows (ls', w')) = [saved_sample x]"
    using e assms(2-9) mock_replies [OF assms(5)] by (auto simp: upload_spec_def store_works_def)
  then show "\<exists>i. store_rows (ls', w') = [(i, saved_sample x)]" by auto
  show "store_wf (ls', w')" "ls_db ls' = Some file" "w_sqlite w' = w_sqlite w" "w_dump w' = w_dump w" "w_reply w' = w_reply w"
    using e f assms(3) by (simp_all add: upload_frame_def)
qed

lemma counted_pending:
  assumes "store_wf (ls, w)" "ls_db ls = Some file" "store_works (w_sqlite w)" "pending_count (ls, w) = (n, ls', w')"
  shows "n = int (length (store_rows (ls, w)))" "store_wf (ls', w')" "ls_db ls' = Some file"
    "store_rows (ls', w') = store_rows (ls, w)" "same_net w w'"
proof -
  have "count_works (w_sqlite w)" using assms(3) by (simp add: store_works_def)
  then show "n = int (length (store_rows (ls, w)))"
    using pending_count_works [OF assms(1)] assms(2,4) by simp
  show "store_wf (ls', w')" "ls_db ls' = Some file" "store_rows (ls', w') = store_rows (ls, w)" "same_net w w'"
    using pending_count_wf [OF assms(1)] pending_count_file [OF assms(1)] assms(2,4) by simp_all
qed

lemma http_uploader_test:
  assumes "store_wf (local_store_new, w)" "store_works (w_sqlite w)" "\<forall>j. w_dump w j \<noteq> None"
    and "w_disk w (c_str path) = None"
    and "fst (open_store path (local_store_new, w\<lparr>w_reply := mock_http_client [503, 202], w_posts := []\<rparr>))"
  shows "failure_persists_then_retry_succeeds path w"
proof -
  let ?w = "w\<lparr>w_reply := mock_http_client [503, 202], w_posts := []\<rparr>"
  let ?u = "\<lparr>up_has_store = True, up_server_url = ''https://telemetry.example.com'', up_node_id = ''node-1'',
             up_api_key = ''secret'', up_timeout_seconds = 5\<rparr>"
  have "store_wf (local_store_new, ?w)" "w_disk ?w (c_str path) = None" using assms(1,4) by (simp_all add: store_wf.simps)
  then obtain ls0 w0 where o: "open_store path (local_store_new, ?w) = (True, ls0, w0)" and s0: "store_wf (ls0, w0)"
      "ls_db ls0 = Some (c_str path)" "same_net ?w w0" "store_rows (ls0, w0) = []"
    using assms(5) by (rule fresh_store)
  obtain x w1 where x: "sample_now ''ambient_temperature'' (Fin 21) (ls0, w0) = (x, ls0, w1)"
    by (simp add: sample_now_def Let_def case_prod_beta)
  have s1: "store_wf (ls0, w1)" "same_net ?w w1" "store_rows (ls0, w1) = []" "ss_value x \<noteq> NaN"
    using x s0 by (auto simp: sample_now_def system_now_def same_net_def)
  have net1: "w_reply w1 = mock_http_client [503, 202]" "w_posts w1 = []" "store_works (w_sqlite w1)" "\<forall>j. w_dump w1 j \<noteq> None"
    using s1(2) assms(2,3) by (simp_all add: same_net_def)
  then obtain q where q: "batch_request ?u [x] w1 = Some q" using batch_request_total by blast
  have url: "mentions (hq_url q) ''/api/v1/telemetry''"
    using q mentions_inside [of "''https://telemetry.example.com''" "''/api/v1/telemetry''" "[]"]
    by (auto simp: batch_request_def upload_request_def join_url_def kTelemetryPath_def)
  obtain r2 ls2 w2 where up: "upload ?u [x] (ls0, w1) = (r2, ls2, w2)" by (metis surj_pair)
  have "up_has_store ?u" by simp
  note s2 = refused_upload_saves [OF s1(1,3) s0(2) net1(3,1,2) s1(4) this q up]
  obtain n3 ls3 w3 where p3: "pending_count (ls2, w2) = (n3, ls3, w3)" by (metis surj_pair)
  have "store_works (w_sqlite w2)" using s2(6) net1(3) by simp
  note s3 = counted_pending [OF s2(4,5) this p3]
  have net3: "\<forall>j. w_dump w3 j \<noteq> None" "next_reply w3 = KAccepted" "store_works (w_sqlite w3)" "w_posts w3 = [q]"
    using s3(5) s2(2,6-8) net1 mock_replies [of w3] by (simp_all add: same_net_def)
  then obtain q' where q': "batch_request ?u (map snd (take 10 (store_rows (ls3, w3)))) w3 = Some q'"
    using batch_request_total by blast
  obtain r4 ls4 w4 where rp: "retry_pending ?u 10 (ls3, w3) = (r4, ls4, w4)" by (metis surj_pair)
  have d4: "r4 = Inr KAccepted \<and> w_posts w4 = [q, q'] \<and> store_rows (ls4, w4) = []"
    using retry_delivers [of "(ls3, w3)" ?u 10 q' r4 "(ls4, w4)"] q' rp s3 s2(3) net3 by auto
  have s4: "store_wf (ls4, w4)" "ls_db ls4 = Some (c_str path)" "store_works (w_sqlite w4)"
    using retry_effect [OF s3(2) _ rp] retry_keeps_frame [OF s3(2) rp] s3(3) net3(3) by (simp_all add: upload_frame_def)
  obtain n5 ls5 w5 where p5: "pending_count (ls4, w4) = (n5, ls5, w5)" by (metis surj_pair)
  have n: "n3 = 1" "n5 = 0" using s3(1) s2(3) counted_pending(1) [OF s4 p5] d4 by auto
  have "w_posts w5 = [q, q']" using counted_pending(5) [OF s4 p5] d4 by (simp add: same_net_def)
  then show ?thesis using o x up s2(1) net3(4) p3 n url rp d4 p5 by (simp add: failure_persists_then_retry_succeeds_def)
qed

section \<open>The pipeline\<close>

definition make_sim_config :: "string \<Rightarrow> config" where
  "make_sim_config db_path =
     (let config = config_new\<lparr>cfg_version := 1\<rparr>;
          config = config\<lparr>cfg_node := \<lparr>nd_id = kReservedTestNodeId, nd_api_key_file = ''/dev/null''\<rparr>\<rparr>;
          config = config\<lparr>cfg_server := \<lparr>sv_url = ''https://telemetry.test.local'', sv_upload_timeout_seconds = 5,
                                         sv_max_batch_size = 10\<rparr>\<rparr>;
          config = config\<lparr>cfg_local_storage := (cfg_local_storage config)\<lparr>lc_path := db_path\<rparr>\<rparr>;
          channel = channel_config_new\<lparr>ch_id := ''sim_temperature'', ch_driver := ''sim'', ch_sample_rate_hz := Fin 100,
            ch_parameters := JObject [(''channel_id'', JString ''sim_temperature''), (''unit'', JString ''celsius''),
                                      (''base_value'', JDouble (Fin 20)), (''step'', JDouble (Fin 0.5))]\<rparr>;
          channel = channel\<lparr>ch_sync := (ch_sync channel)\<lparr>sy_destination_local := True, sy_destination_remote := True,
            sy_remote_interval_seconds := 1, sy_mode := KRealtime, sy_priority := KNormal\<rparr>\<rparr>
      in config\<lparr>cfg_channels := cfg_channels config @ [channel]\<rparr>)"

fun tick_while :: "(runtime \<Rightarrow> bool \<times> runtime) \<Rightarrow> nat \<Rightarrow> runtime \<Rightarrow> runtime option" where
  \<comment> \<open>the loops of the tests; nothing when a tick throws or does not return\<close>
  "tick_while go 0 s = Some s"
| "tick_while go (Suc n) s =
     (case go s of
        (False, s) \<Rightarrow> Some s
      | (True, s) \<Rightarrow> (case tick s of Some (Done s) \<Rightarrow> tick_while go n s | _ \<Rightarrow> None))"

definition test_runtime :: "runtime_env \<Rightarrow> string \<Rightarrow> int list \<Rightarrow> world \<Rightarrow> runtime option" where
  \<comment> \<open>the runtime of a test, configured against a server with the given answers\<close>
  "test_runtime env db_path status_sequence w =
     (case runtime_configure env (make_sim_config db_path) ''test-key''
             (runtime_new, w\<lparr>w_reply := mock_http_client status_sequence, w_posts := []\<rparr>) of
        Some (True, s) \<Rightarrow> Some s
      | _ \<Rightarrow> None)"

definition sim_driver_uploads :: "runtime_env \<Rightarrow> string \<Rightarrow> world \<Rightarrow> bool" where
  "sim_driver_uploads env db_path w =
     (case test_runtime env db_path [202] w of
        None \<Rightarrow> False
      | Some s \<Rightarrow>
          (case tick_while (\<lambda>s. (accepted_upload_count (fst s) = 0, s)) 20 s of
             None \<Rightarrow> False
           | Some (rt, w) \<Rightarrow>
               1 \<le> accepted_upload_count rt \<and>
               mentions (hq_body (last (w_posts w))) kReservedTestNodeId \<and>
               mentions (hq_body (last (w_posts w))) ''sim_temperature''))"

definition failure_queues_then_retries :: "runtime_env \<Rightarrow> string \<Rightarrow> world \<Rightarrow> bool" where
  "failure_queues_then_retries env db_path w =
     (case test_runtime env db_path [503, 202] w of
        None \<Rightarrow> False
      | Some s \<Rightarrow>
          (case tick_while (\<lambda>s. case runtime_pending_count s of (n, s) \<Rightarrow> (n = 0, s)) 30 s of
             None \<Rightarrow> False
           | Some s \<Rightarrow>
               (case runtime_pending_count s of
                  (n1, s) \<Rightarrow>
                    (case tick_while (\<lambda>s. case runtime_pending_count s of (n, s) \<Rightarrow> (0 < n, s)) 20 (unlock_retry_for_test s) of
                       None \<Rightarrow> False
                     | Some s2 \<Rightarrow>
                         1 \<le> n1 \<and> 1 \<le> length (w_posts (snd s)) \<and> fst (runtime_pending_count s2) = 0 \<and>
                         2 \<le> length (w_posts (snd s2))))))"

fun flat_dump :: "json \<Rightarrow> string" where
  \<comment> \<open>a serialiser for the example: the texts of the value, one after the other\<close>
  "flat_dump (JString s) = s @ '' ''"
| "flat_dump (JArray js) = concat (map flat_dump js)"
| "flat_dump (JObject members) = concat (map (\<lambda>m. flat_dump (snd m)) members)"
| "flat_dump _ = []"

text \<open>
  The two cases on the example machine. What evaluation gives is the state after the first poll, for any
  sequence of answers; the rest is the theory of flushing and retrying.
\<close>

definition test_world :: world where
  "test_world = ex_world\<lparr>w_dump := Some \<circ> flat_dump\<rparr>"

definition test_path :: string where
  "test_path = ''/tmp/bossa_pipeline_test.db''"

definition pipeline_start :: "int list \<Rightarrow> runtime" where
  "pipeline_start status_sequence =
     (case test_runtime ex_env test_path status_sequence test_world of None \<Rightarrow> (runtime_new, test_world) | Some s \<Rightarrow> s)"

lemma test_runtime_starts:
  "test_runtime ex_env test_path ss test_world = Some (pipeline_start ss)"
  "runtime_wf (pipeline_start ss)" "accepted_upload_count (fst (pipeline_start ss)) = 0"
  "same_net (test_world\<lparr>w_reply := mock_http_client ss, w_posts := []\<rparr>) (snd (pipeline_start ss))"
proof -
  let ?w = "test_world\<lparr>w_reply := mock_http_client ss, w_posts := []\<rparr>"
  have "test_runtime ex_env test_path ss test_world \<noteq> None" by code_simp
  then show t: "test_runtime ex_env test_path ss test_world = Some (pipeline_start ss)"
    by (auto simp: pipeline_start_def)
  then have c: "runtime_configure ex_env (make_sim_config test_path) ''test-key'' (runtime_new, ?w) = Some (True, pipeline_start ss)"
    by (auto simp: test_runtime_def split: option.splits prod.splits bool.splits)
  have "sqlite_laws (w_sqlite ?w)" "\<forall>t \<in> ran (w_disk ?w). wf_table t"
    using ex_world_laws by (simp_all add: test_world_def) (simp add: ex_world_def)
  from runtime_new_wf [OF this] have wf: "runtime_wf (runtime_new, ?w)" .
  show "runtime_wf (pipeline_start ss)" "accepted_upload_count (fst (pipeline_start ss)) = 0"
    using runtime_configure_effect [OF wf, of ex_env "make_sim_config test_path" "''test-key''" True
        "fst (pipeline_start ss)" "snd (pipeline_start ss)"] c
    by (simp_all add: configured_def accepted_upload_count_def)
  show "same_net ?w (snd (pipeline_start ss))" using runtime_configure_net [OF wf c] by simp
qed

definition pipeline_at :: "int list \<Rightarrow> nat \<Rightarrow> runtime" where
  \<comment> \<open>with the given number of SQLite calls behind it: asking for the pending count makes one\<close>
  "pipeline_at status_sequence n =
     (case pipeline_start status_sequence of (rt, w) \<Rightarrow> (rt, w\<lparr>w_sql_n := n\<rparr>))"

lemma pipeline_at_start: "pipeline_at ss (w_sql_n (snd (pipeline_start ss))) = pipeline_start ss"
  by (simp add: pipeline_at_def case_prod_beta)

lemma pipeline_at_wf: "runtime_wf (pipeline_at ss n)" "same_net (snd (pipeline_start ss)) (snd (pipeline_at ss n))"
  using test_runtime_starts(2) [of ss]
  by (simp_all add: pipeline_at_def case_prod_beta same_net_def runtime_wf_def store_wf.simps)

lemma pipeline_polls:
  obtains rt w up rb x where "poll_due (pipeline_at ss n) = Some (rt, w)" "rt_channels (fst (pipeline_at ss n)) \<noteq> []"
    "runtime_wf (rt, w)" "rt_uploader rt = Some up" "rt_buffer rt = Some rb" "contents rb = [x]" "max_batch rt = 10"
    "should_flush (w_steady w (w_steady_n w)) (rb_size rb) (max_batch rt) (rt_policy rt)" "ss_value x \<noteq> NaN"
    "c_str (ss_channel_id x) = ''sim_temperature''" "up_node_id up = kReservedTestNodeId"
    "rt_store_open rt" "store_rows (rt_store rt, w) = []" "rt_retry_attempt rt = 0" "w_posts w = []"
    "w_reply w = mock_http_client ss" "w_dump w = Some \<circ> flat_dump" "w_sqlite w = ref_sqlite (\<lambda>_. None)"
    "w_steady w = (\<lambda>n. int n * 1000000000)" "wf_scheduler (rt_scheduler (fst (pipeline_at ss n)))"
    "rt_store_open (fst (pipeline_at ss n))" "store_rows (rt_store (fst (pipeline_at ss n)), snd (pipeline_at ss n)) = []"
proof -
  have "list_all wf_channel (rt_scheduler (fst (pipeline_at ss n))) \<and> rt_store_open (fst (pipeline_at ss n)) \<and>
      store_rows (rt_store (fst (pipeline_at ss n)), snd (pipeline_at ss n)) = []" by code_simp
  then have start: "wf_scheduler (rt_scheduler (fst (pipeline_at ss n)))" "rt_store_open (fst (pipeline_at ss n))"
      "store_rows (rt_store (fst (pipeline_at ss n)), snd (pipeline_at ss n)) = []"
    by (simp_all add: list.pred_set wf_scheduler_def)
  have "case poll_due (pipeline_at ss n) of None \<Rightarrow> False | Some (rt, w) \<Rightarrow>
      rt_channels (fst (pipeline_at ss n)) \<noteq> [] \<and> rt_store_open rt \<and> store_rows (rt_store rt, w) = [] \<and>
      rt_retry_attempt rt = 0 \<and> max_batch rt = 10" by code_simp
  moreover have "case poll_due (pipeline_at ss n) of None \<Rightarrow> False | Some (rt, w) \<Rightarrow>
      (case rt_uploader rt of None \<Rightarrow> False | Some up \<Rightarrow> up_node_id up = kReservedTestNodeId)" by code_simp
  moreover have "case poll_due (pipeline_at ss n) of None \<Rightarrow> False | Some (rt, w) \<Rightarrow>
      (case rt_buffer rt of None \<Rightarrow> False | Some rb \<Rightarrow>
         should_flush (w_steady w (w_steady_n w)) (rb_size rb) (max_batch rt) (rt_policy rt))" by code_simp
  moreover have "case poll_due (pipeline_at ss n) of None \<Rightarrow> False | Some (rt, w) \<Rightarrow>
      (case rt_buffer rt of None \<Rightarrow> False | Some rb \<Rightarrow> map ss_value (contents rb) = [Fin 20])" by code_simp
  moreover have "case poll_due (pipeline_at ss n) of None \<Rightarrow> False | Some (rt, w) \<Rightarrow>
      (case rt_buffer rt of None \<Rightarrow> False | Some rb \<Rightarrow>
         map (\<lambda>x. c_str (ss_channel_id x)) (contents rb) = [''sim_temperature''])" by code_simp
  ultimately obtain rt w up rb x where p: "poll_due (pipeline_at ss n) = Some (rt, w)"
      "rt_channels (fst (pipeline_at ss n)) \<noteq> []" "rt_uploader rt = Some up" "rt_buffer rt = Some rb" "contents rb = [x]"
      "should_flush (w_steady w (w_steady_n w)) (rb_size rb) (max_batch rt) (rt_policy rt)" "ss_value x \<noteq> NaN"
      "c_str (ss_channel_id x) = ''sim_temperature''" "up_node_id up = kReservedTestNodeId" "max_batch rt = 10"
      "rt_store_open rt" "store_rows (rt_store rt, w) = []" "rt_retry_attempt rt = 0"
    by (auto split: option.splits)
  have wf: "runtime_wf (fst (pipeline_at ss n), snd (pipeline_at ss n))" using pipeline_at_wf(1) by simp
  have "runtime_wf (rt, w)" "same_net (snd (pipeline_at ss n)) w"
    using poll_due_world(1,2) [OF wf, of rt w] p(1) poll_world_store(6) by simp_all
  moreover from this(2) have "w_posts w = []" "w_reply w = mock_http_client ss" "w_dump w = Some \<circ> flat_dump"
      "w_sqlite w = ref_sqlite (\<lambda>_. None)" "w_steady w = (\<lambda>n. int n * 1000000000)"
    using test_runtime_starts(4) [of ss] pipeline_at_wf(2) [of ss n] by (simp_all add: same_net_def test_world_def ex_world_def)
  ultimately show ?thesis using that p start by simp
qed

lemma retry_idle:
  assumes "runtime_wf (rt, w)" "rt_uploader rt = Some up" "rt_store_open rt" "count_works (w_sqlite w)"
    and "store_rows (rt_store rt, w) = []"
  shows "\<exists>rt' w'. maybe_retry (rt, w) = Done (rt', w') \<and> w_posts w' = w_posts w \<and>
    rt_accepted_upload_count rt' = rt_accepted_upload_count rt"
proof -
  obtain n rt1 w1 where p: "store_pending (rt, w) = (n, rt1, w1)" by (metis surj_pair)
  note e = store_pending_works [OF assms(1,3,4) p]
  then have "n = 0" using assms(5) by simp
  then have "maybe_retry (rt, w) = Done (rt1, w1)" using maybe_retry_eq [OF assms(2,3), of w] p by simp
  then show ?thesis using e by (auto simp: same_net_def)
qed

lemma payload_mentions:
  assumes "batch_request up [x] w = Some q" "w_dump w = Some \<circ> flat_dump"
  shows "mentions (hq_body q) (up_node_id up)" "mentions (hq_body q) (c_str (ss_channel_id x))"
proof -
  let ?sent = "format_time (fst (system_now w))"
  have b: "hq_body q = up_node_id up @ '' '' @ ?sent @ '' '' @ c_str (ss_channel_id x) @ '' '' @
      format_time (ss_timestamp x) @ '' '' @ c_str (ss_unit x) @ '' '' @ payload_quality (ss_quality x) @ '' ''"
    using assms by (auto simp: batch_request_def upload_request_def payload_json_def sample_json_def)
  show "mentions (hq_body q) (up_node_id up)" unfolding b
    using mentions_inside [of "[]" "up_node_id up"] by (simp only: append_Nil)
  show "mentions (hq_body q) (c_str (ss_channel_id x))" unfolding b
    using mentions_inside [of "up_node_id up @ '' '' @ ?sent @ '' ''" "c_str (ss_channel_id x)"]
    by (simp only: append_assoc)
qed

lemma pipeline_test_uploads: "sim_driver_uploads ex_env test_path test_world"
proof -
  obtain rt w up rb x where p: "poll_due (pipeline_start [202]) = Some (rt, w)" "rt_channels (fst (pipeline_start [202])) \<noteq> []"
    "runtime_wf (rt, w)" "rt_uploader rt = Some up" "rt_buffer rt = Some rb" "contents rb = [x]" "max_batch rt = 10"
    "should_flush (w_steady w (w_steady_n w)) (rb_size rb) (max_batch rt) (rt_policy rt)"
    and x: "c_str (ss_channel_id x) = ''sim_temperature''" "up_node_id up = kReservedTestNodeId"
    and r: "rt_store_open rt" "store_rows (rt_store rt, w) = []" "w_posts w = []" "w_reply w = mock_http_client [202]"
      "w_dump w = Some \<circ> flat_dump" "w_sqlite w = ref_sqlite (\<lambda>_. None)"
    by (rule pipeline_polls [of "[202]" "w_sql_n (snd (pipeline_start [202]))", unfolded pipeline_at_start], rule that)
  have "\<forall>j. w_dump w j \<noteq> None" by (simp add: r(5))
  then obtain rt1 w1 where f: "maybe_flush (rt, w) = Done (rt1, w1)" using maybe_flush_done [OF p(3)] by (metis surj_pair)
  have reply: "next_reply w = KAccepted" by (simp add: next_reply_def r(3,4) mock_http_client_def interpret_response_def)
  obtain q where q: "batch_request up [x] (w\<lparr>w_steady_n := w_steady_n w + 1\<rparr>) = Some q" "w_posts w1 = [q]"
      "rt_accepted_upload_count rt1 = rt_accepted_upload_count rt + 1" "store_rows (rt_store rt1, w1) = []"
    using flush_outcome [OF p(3,4,5,8) f] p(6,7) r(2,3) reply by (auto simp: Let_def)
  have m: "runtime_wf (rt1, w1)" "pipeline_frame (rt, w) (rt1, w1)" using maybe_flush_effect [OF p(3)] f by simp_all
  have frame: "rt_uploader rt1 = Some up" "rt_store_open rt1" "count_works (w_sqlite w1)"
    using m(2) p(4) r(1,6) ref_store_works by (simp_all add: pipeline_frame_def store_works_def)
  obtain rt2 w2 where t: "maybe_retry (rt1, w1) = Done (rt2, w2)" "w_posts w2 = [q]"
      "rt_accepted_upload_count rt2 = rt_accepted_upload_count rt + 1"
    using retry_idle [OF m(1) frame q(4)] q(2,3) by auto
  have "tick (pipeline_start [202]) = Some (Done (rt2, w2))" using p(1,2) f t(1) by (simp add: tick_busy)
  then have "tick_while (\<lambda>s. (accepted_upload_count (fst s) = 0, s)) 20 (pipeline_start [202]) = Some (rt2, w2)"
    using test_runtime_starts(3) [of "[202]"] t(3) by (simp add: numeral_eq_Suc accepted_upload_count_def)
  then show ?thesis
    using test_runtime_starts(1) [of "[202]"] payload_mentions [OF q(1)] x r(5) t
    by (simp add: sim_driver_uploads_def accepted_upload_count_def)
qed

text \<open>Asking the example database for the pending count moves its call counter and nothing else.\<close>

lemma count_rows:
  assumes "runtime_wf (rt, w)" "rt_store_open rt" "w_sqlite w = ref_sqlite (\<lambda>_. None)"
  shows "runtime_pending_count (rt, w) = (length (store_rows (rt_store rt, w)), rt, w\<lparr>w_sql_n := w_sql_n w + 1\<rparr>)"
    "store_pending (rt, w) = (length (store_rows (rt_store rt, w)), rt, w\<lparr>w_sql_n := w_sql_n w + 1\<rparr>)"
proof -
  obtain db where db: "ls_db (rt_store rt) = Some db" using assms(1,2) by (auto simp: runtime_wf_def wf_members_def)
  obtain t where t: "w_disk w db = Some t" using assms(1) db by (auto simp: runtime_wf_def store_wf.simps)
  show p: "store_pending (rt, w) = (length (store_rows (rt_store rt, w)), rt, w\<lparr>w_sql_n := w_sql_n w + 1\<rparr>)"
    using db t assms(3) by (simp add: store_pending_def pending_count_def sql_run_def ref_sqlite_def ref_run_def differ store_rows_def)
  then show "runtime_pending_count (rt, w) = (length (store_rows (rt_store rt, w)), rt, w\<lparr>w_sql_n := w_sql_n w + 1\<rparr>)"
    using assms(2) by (simp add: runtime_pending_count_def)
qed

lemma sql_counter_frame [simp]:
  "runtime_wf (rt, w\<lparr>w_sql_n := n\<rparr>) = runtime_wf (rt, w)" "store_rows (ls, w\<lparr>w_sql_n := n\<rparr>) = store_rows (ls, w)"
  by (simp_all add: runtime_wf_def store_wf.simps store_rows_def split: option.split)

text \<open>The first tick of the failing pipeline leaves the sample in the store and puts the retry off.\<close>

lemma failing_tick:
  obtains rt w where "tick (pipeline_at [503, 202] n) = Some (Done (rt, w))" "runtime_wf (rt, w)"
    "wf_scheduler (rt_scheduler rt)" "rt_channels rt \<noteq> []" "rt_store_open rt" "length (store_rows (rt_store rt, w)) = 1"
    "rt_retry_attempt rt = 1" "length (w_posts w) = 1" "w_reply w = mock_http_client [503, 202]"
    "w_dump w = Some \<circ> flat_dump" "w_sqlite w = ref_sqlite (\<lambda>_. None)" "w_steady w = (\<lambda>n. int n * 1000000000)"
    "rt_uploader rt \<noteq> None" "max_batch rt = 10"
proof -
  obtain rt w up rb x where p: "poll_due (pipeline_at [503, 202] n) = Some (rt, w)" "rt_channels (fst (pipeline_at [503, 202] n)) \<noteq> []"
    "runtime_wf (rt, w)" "rt_uploader rt = Some up" "rt_buffer rt = Some rb" "contents rb = [x]" "max_batch rt = 10"
    "should_flush (w_steady w (w_steady_n w)) (rb_size rb) (max_batch rt) (rt_policy rt)" "ss_value x \<noteq> NaN"
    and r: "rt_store_open rt" "store_rows (rt_store rt, w) = []" "rt_retry_attempt rt = 0" "w_posts w = []"
      "w_reply w = mock_http_client [503, 202]" "w_dump w = Some \<circ> flat_dump" "w_sqlite w = ref_sqlite (\<lambda>_. None)"
      "w_steady w = (\<lambda>n. int n * 1000000000)" "wf_scheduler (rt_scheduler (fst (pipeline_at [503, 202] n)))"
    by (rule pipeline_polls [of "[503, 202]" n], rule that)
  have "\<forall>j. w_dump w j \<noteq> None" by (simp add: r(6))
  then obtain rt1 w1 where f: "maybe_flush (rt, w) = Done (rt1, w1)" using maybe_flush_done [OF p(3)] by (metis surj_pair)
  have reply: "next_reply w = KTransientFailure" using mock_replies [OF r(5)] r(4) by simp
  have q: "length (w_posts w1) = 1" "rt_retry_attempt rt1 = 1" "length (store_rows (rt_store rt1, w1)) = 1"
    using flush_outcome [OF p(3,4,5,8) f] p(6,7,9) r(1-4,7) reply ref_insert_works
    by (auto simp: Let_def dest: arg_cong [where f = length])
  have late: "rt_next_retry_at rt1 = (int (w_steady_n w) + 1) * 1000000000 + 5000000000" "w_steady_n w1 = w_steady_n w + 2"
    by (rule flush_after_upload [OF p(3,4,5,8) f];
        auto simp: reply after_upload_cases(3) advance_backoff_after_failure_def sent_away_def backoff_delay_def r(3,8) Let_def case_prod_beta)+
  have m: "runtime_wf (rt1, w1)" "pipeline_frame (rt, w) (rt1, w1)" using maybe_flush_effect [OF p(3)] f by simp_all
  have frame: "rt_uploader rt1 = Some up" "rt_store_open rt1" "w_sqlite w1 = ref_sqlite (\<lambda>_. None)" "max_batch rt1 = 10"
      "w_reply w1 = mock_http_client [503, 202]" "w_dump w1 = Some \<circ> flat_dump" "w_steady w1 = (\<lambda>n. int n * 1000000000)"
    using m(2) p(4,7) r by (simp_all add: pipeline_frame_def max_batch_def)
  let ?w = "w1\<lparr>w_sql_n := w_sql_n w1 + 1, w_steady_n := w_steady_n w1 + 1\<rparr>"
  have "maybe_retry (rt1, w1) = Done (rt1, ?w)"
    using maybe_retry_eq [OF frame(1,2), of w1] count_rows(2) [OF m(1) frame(2,3)] q late frame(7)
    by (simp add: retry_due_def)
  then have t: "tick (pipeline_at [503, 202] n) = Some (Done (rt1, ?w))" using p(1,2) f by (simp add: tick_busy)
  have wf: "runtime_wf (fst (pipeline_at [503, 202] n), snd (pipeline_at [503, 202] n))" using pipeline_at_wf(1) by simp
  have "wf_scheduler (rt_scheduler rt1)" using tick_frame(1) [OF wf r(9), of rt1 ?w] t by simp
  moreover have "rt_channels rt1 \<noteq> []" using tick_members [OF pipeline_at_wf(1) t] p(2) by auto
  ultimately show thesis using that [OF t] m(1) q frame by simp
qed

lemma unlocked_loop_drains:
  assumes "runtime_wf (rt, w)" "wf_scheduler (rt_scheduler rt)" "rt_channels rt \<noteq> []" "rt_store_open rt"
    and one: "length (store_rows (rt_store rt, w)) = 1" and "length (w_posts w) = 1" "w_reply w = mock_http_client [503, 202]"
    and "w_dump w = Some \<circ> flat_dump" and sql: "w_sqlite w = ref_sqlite (\<lambda>_. None)"
    and "w_steady w = (\<lambda>n. int n * 1000000000)" "rt_uploader rt = Some up" and max: "max_batch rt = 10"
    and "rt_next_retry_at rt \<le> w_steady w (w_steady_n w)"
  obtains s where "tick_while (\<lambda>s. case runtime_pending_count s of (n, s) \<Rightarrow> (0 < n, s)) 20 (rt, w) = Some s"
    "fst (runtime_pending_count s) = 0" "1 < length (w_posts (snd s))"
proof -
  let ?busy = "\<lambda>s. case runtime_pending_count s of (n, s) \<Rightarrow> (0 < n, s)"
  let ?w = "w\<lparr>w_sql_n := w_sql_n w + 1\<rparr>"
  have wf: "runtime_wf (rt, ?w)" using assms(1) by (simp add: runtime_wf_def)
  have count: "runtime_pending_count (rt, w) = (1, rt, ?w)" using count_rows(1) [OF assms(1,4) sql] one by simp
  have replies: "\<forall>i. length (w_posts ?w) \<le> i \<longrightarrow> interpret_response (w_reply ?w i) = KAccepted"
    using assms(6,7) by (auto simp: mock_http_client_def interpret_response_def nth_Cons')
  have "length (store_rows (rt_store rt, ?w)) = 1" using one by simp
  then have pending: "store_rows (rt_store rt, ?w) \<noteq> []" "length (store_rows (rt_store rt, ?w)) \<le> max_batch rt"
    using max by auto
  have calm: "store_works (w_sqlite ?w)" "\<forall>j. w_dump ?w j \<noteq> None" "mono_clock ?w" "0 \<le> w_steady ?w (w_steady_n ?w)"
      "rt_next_retry_at rt \<le> w_steady ?w (w_steady_n ?w)"
    using assms(8-10,13) ref_store_works by (simp_all add: mono_clock_def)
  obtain rt' w' where d: "tick (rt, ?w) = Some (Done (rt', w'))" "runtime_wf (rt', w')" "rt_store_open rt'"
      "store_rows (rt_store rt', w') = []" "w_sqlite w' = w_sqlite ?w" "length (w_posts ?w) < length (w_posts w')"
    by (rule accepting_tick_drains [OF wf assms(2,3,11,4) calm replies pending], rule that)
  have sql': "w_sqlite w' = ref_sqlite (\<lambda>_. None)" using d(5) sql by simp
  let ?w' = "w'\<lparr>w_sql_n := w_sql_n w' + 1\<rparr>"
  have empty: "runtime_pending_count (rt', w') = (0, rt', ?w')" using count_rows(1) [OF d(2,3) sql'] d(4) by simp
  show ?thesis
  proof (rule that [of "(rt', ?w')"])
    show "tick_while ?busy 20 (rt, w) = Some (rt', ?w')" using count d(1) empty by (simp add: numeral_eq_Suc)
    show "fst (runtime_pending_count (rt', ?w')) = 0" using count_rows(1) [of rt' ?w'] d(2-4) sql' by simp
    show "1 < length (w_posts (snd (rt', ?w')))" using d(6) assms(6) by simp
  qed
qed

lemma pipeline_test_retries: "failure_queues_then_retries ex_env test_path test_world"
proof -
  let ?ss = "[503, 202] :: int list"
  let ?go = "\<lambda>s. case runtime_pending_count s of (n, s) \<Rightarrow> (n = 0, s)"
  let ?busy = "\<lambda>s. case runtime_pending_count s of (n, s) \<Rightarrow> (0 < n, s)"
  let ?n = "w_sql_n (snd (pipeline_start ?ss)) + 1"
  have "rt_store_open (fst (pipeline_start ?ss)) \<and>
      store_rows (rt_store (fst (pipeline_start ?ss)), snd (pipeline_start ?ss)) = []"
    by (rule pipeline_polls [of ?ss "w_sql_n (snd (pipeline_start ?ss))", unfolded pipeline_at_start]) simp
  moreover have "w_sqlite (snd (pipeline_start ?ss)) = ref_sqlite (\<lambda>_. None)"
    using test_runtime_starts(4) [of ?ss] by (simp add: same_net_def test_world_def ex_world_def)
  ultimately have start: "?go (pipeline_start ?ss) = (True, pipeline_at ?ss ?n)"
    using count_rows(1) [of "fst (pipeline_start ?ss)" "snd (pipeline_start ?ss)"] test_runtime_starts(2) [of ?ss]
    by (simp add: pipeline_at_def case_prod_beta)
  obtain rt w where t: "tick (pipeline_at ?ss ?n) = Some (Done (rt, w))" "runtime_wf (rt, w)"
    "wf_scheduler (rt_scheduler rt)" "rt_channels rt \<noteq> []" "rt_store_open rt" "length (store_rows (rt_store rt, w)) = 1"
    "rt_retry_attempt rt = 1" "length (w_posts w) = 1" "w_reply w = mock_http_client ?ss"
    "w_dump w = Some \<circ> flat_dump" "w_sqlite w = ref_sqlite (\<lambda>_. None)" "w_steady w = (\<lambda>n. int n * 1000000000)"
    "rt_uploader rt \<noteq> None" "max_batch rt = 10"
    by (rule failing_tick [of ?n], rule that)
  obtain up where up: "rt_uploader rt = Some up" using t(13) by auto
  let ?w1 = "w\<lparr>w_sql_n := w_sql_n w + 1\<rparr>" and ?w2 = "w\<lparr>w_sql_n := w_sql_n w + 2\<rparr>"
  have loop1: "tick_while ?go 30 (pipeline_start ?ss) = Some (rt, ?w1)"
    using start t(1) count_rows(1) [OF t(2,5,11)] t(6) by (simp add: numeral_eq_Suc)
  have count1: "runtime_pending_count (rt, ?w1) = (1, rt, ?w2)"
    using count_rows(1) [of rt ?w1] t(2,5,6,11) by simp
  let ?rt = "rt\<lparr>rt_next_retry_at := w_steady w (w_steady_n w)\<rparr>" and ?w3 = "?w2\<lparr>w_steady_n := w_steady_n w + 1\<rparr>"
  have unlock: "unlock_retry_for_test (rt, ?w2) = (?rt, ?w3)"
    using t(7) by (cases rt) (simp add: unlock_retry_for_test_def case_prod_beta Let_def)
  obtain s where "tick_while ?busy 20 (?rt, ?w3) = Some s" "fst (runtime_pending_count s) = 0" "1 < length (w_posts (snd s))"
    by (rule unlocked_loop_drains [of ?rt ?w3 up])
      (use t up in \<open>simp_all add: runtime_wf_def max_batch_def that\<close>)
  then show ?thesis
    using test_runtime_starts(1) [of ?ss] loop1 count1 unlock t(8) by (simp add: failure_queues_then_retries_def)
qed

section \<open>The configuration\<close>

definition temp_config :: "string + yaml \<Rightarrow> file_system" where
  \<comment> \<open>a file written by the test, given by what \<open>YAML::Load\<close> makes of it\<close>
  "temp_config parsed = \<lparr>fs_exists = (\<lambda>_. Some True), fs_size = (\<lambda>_. Some 40), fs_open = (\<lambda>_. True),
     fs_read = (\<lambda>_. Some []), fs_yaml = (\<lambda>_. parsed)\<rparr>"

definition no_config :: file_system where
  \<comment> \<open>a file that is not there\<close>
  "no_config = \<lparr>fs_exists = (\<lambda>_. Some False), fs_size = (\<lambda>_. None), fs_open = (\<lambda>_. False),
     fs_read = (\<lambda>_. None), fs_yaml = (\<lambda>_. Inl [])\<rparr>"

definition pairs :: "(string \<times> yaml) list \<Rightarrow> yaml" where
  "pairs members = YMap (map (\<lambda>(k, v). (YScalar k, v)) members)"

definition test_node :: "string \<Rightarrow> yaml" where
  "test_node node_id = pairs [(''id'', YScalar node_id), (''api_key_file'', YScalar ''/etc/bossa/api.key'')]"

fun fails_with :: "loaded \<Rightarrow> string \<Rightarrow> bool" where
  \<comment> \<open>\<open>EXPECT_FALSE(ok())\<close>, and the error mentions the text\<close>
  "fails_with (Inr (LoadFail message)) part = mentions message part"
| "fails_with _ part = False"

definition loads_valid_config :: "yaml_cpp \<Rightarrow> bool" where
  "loads_valid_config yc =
     (case load_config yc (temp_config (Inr (pairs [(''config_version'', YScalar ''1''),
             (''node'', test_node ''test-node-01''), (''channels'', YSequence [])]))) ''t.yaml'' of
        Inr (LoadOk c) \<Rightarrow> cfg_version c = 1 \<and> nd_id (cfg_node c) = ''test-node-01'' \<and>
          nd_api_key_file (cfg_node c) = ''/etc/bossa/api.key''
      | _ \<Rightarrow> False)"

definition rejects_invalid_yaml :: "yaml_cpp \<Rightarrow> string \<Rightarrow> bool" where
  "rejects_invalid_yaml yc what =
     (case load_config yc (temp_config (Inl what)) ''t.yaml'' of Inr (LoadFail message) \<Rightarrow> message \<noteq> [] | _ \<Rightarrow> False)"

definition rejects_unsupported_version :: "yaml_cpp \<Rightarrow> bool" where
  "rejects_unsupported_version yc =
     fails_with (load_config yc (temp_config (Inr (pairs [(''config_version'', YScalar ''99''),
        (''node'', test_node ''test-node'')]))) ''t.yaml'') ''unsupported config_version''"

definition rejects_empty_node_id :: "yaml_cpp \<Rightarrow> bool" where
  "rejects_empty_node_id yc =
     fails_with (load_config yc (temp_config (Inr (pairs [(''config_version'', YScalar ''1''),
        (''node'', test_node [])]))) ''t.yaml'') ''node.id''"

definition rejects_missing_file :: "yaml_cpp \<Rightarrow> string \<Rightarrow> bool" where
  "rejects_missing_file yc path = fails_with (load_config yc no_config path) ''not found''"

definition loads_channels_and_sync :: "yaml_cpp \<Rightarrow> bool" where
  "loads_channels_and_sync yc =
     (case load_config yc (temp_config (Inr (pairs
        [(''config_version'', YScalar ''1''), (''node'', test_node ''test-node-01''),
         (''server'', pairs [(''url'', YScalar ''https://telemetry.example.com''), (''max_batch_size'', YScalar ''100'')]),
         (''local_storage'', pairs [(''path'', YScalar ''/tmp/bossa-test.db'')]),
         (''channels'', YSequence [pairs
           [(''id'', YScalar ''ambient_temperature''), (''driver'', YScalar ''bme280''),
            (''parameters'', pairs [(''bus'', YScalar ''/dev/i2c-1''), (''address'', YScalar ''0x76'')]),
            (''sample_rate_hz'', YScalar ''1.0''),
            (''sync'', pairs [(''destinations'', YSequence [YScalar ''local'', YScalar ''remote'']),
                            (''remote_interval_seconds'', YScalar ''60''), (''priority'', YScalar ''normal''),
                            (''mode'', YScalar ''batch'')])]])]))) ''t.yaml'' of
        Inr (LoadOk c) \<Rightarrow> sv_url (cfg_server c) = ''https://telemetry.example.com'' \<and>
          sv_max_batch_size (cfg_server c) = 100 \<and>
          (case cfg_channels c of
             [ch] \<Rightarrow> ch_id ch = ''ambient_temperature'' \<and> ch_driver ch = ''bme280'' \<and> ch_sample_rate_hz ch = Fin 1 \<and>
               sy_destination_remote (ch_sync ch) \<and> sy_mode (ch_sync ch) = KBatch
           | _ \<Rightarrow> False)
      | _ \<Rightarrow> False)"

definition test_yaml_cpp :: yaml_cpp where
  \<comment> \<open>the conversions of the example, which also know the two other numbers of the tests\<close>
  "test_yaml_cpp = ex_yaml_cpp
     \<lparr>yc_int := (\<lambda>y. if y = YScalar ''0x76'' then Some 118 else yc_int ex_yaml_cpp y),
      yc_double := (\<lambda>y. if y = YScalar ''1.0'' then Some (Fin 1) else if y = YScalar ''0x76'' then Some (Fin 118)
                      else yc_double ex_yaml_cpp y)\<rparr>"

lemma load_temp_config: "load_config yc (temp_config (Inr document)) ''t.yaml'' = check_document yc document"
  by (simp add: load_config_def temp_config_def kMaxConfigBytes_def)

lemma config_tests:
  "loads_valid_config test_yaml_cpp" "rejects_unsupported_version test_yaml_cpp" "rejects_empty_node_id test_yaml_cpp"
  "loads_channels_and_sync test_yaml_cpp"
  unfolding loads_valid_config_def rejects_unsupported_version_def rejects_empty_node_id_def
    loads_channels_and_sync_def load_temp_config by code_simp+

lemma config_error_tests:
  "rejects_invalid_yaml yc what"
  "path \<noteq> [] \<Longrightarrow> rejects_missing_file yc path"
proof -
  show "rejects_invalid_yaml yc what"
    by (simp add: rejects_invalid_yaml_def load_config_def temp_config_def kMaxConfigBytes_def)
  show "path \<noteq> [] \<Longrightarrow> rejects_missing_file yc path"
    using mentions_inside [of "''config file ''" "''not found''" "'': '' @ path"]
    by (simp add: rejects_missing_file_def load_config_def no_config_def)
qed

section \<open>The daemon as a process\<close>

definition run_bossa_foreground :: "daemon_env \<Rightarrow> string \<Rightarrow> world \<Rightarrow> int \<times> string" where
  \<comment> \<open>the exit status, -1 when the process does not exit by itself, and its standard error\<close>
  "run_bossa_foreground env config_path w =
     (case daemon_main env [''--foreground'', ''--config'', config_path] w of
        MainExit status lines \<Rightarrow> (status, concat (map (\<lambda>line. line @ [CHR 0x0A]) lines))
      | _ \<Rightarrow> (- 1, []))"

definition exits_with_config_error :: "daemon_env \<Rightarrow> string \<Rightarrow> world \<Rightarrow> string \<Rightarrow> bool" where
  "exits_with_config_error env path w part =
     (case run_bossa_foreground env path w of
        (exit_code, stderr_output) \<Rightarrow>
          exit_code = EXIT_FAILURE \<and> mentions stderr_output ''config:'' \<and> mentions stderr_output part)"

lemma daemon_invalid_yaml_test:
  assumes "de_files env 0 = temp_config (Inl what)" "path \<noteq> []"
  shows "exits_with_config_error env path w ''YAML parse error''"
  using assms mentions_inside [of "[]" "''config:''" "'' YAML parse error: '' @ what @ [CHR 0x0A]"]
    mentions_inside [of "''config: ''" "''YAML parse error''" "'': '' @ what @ [CHR 0x0A]"]
  by (simp add: exits_with_config_error_def run_bossa_foreground_def daemon_main_def load_config_def temp_config_def
      kMaxConfigBytes_def log_config_error_def)

lemma daemon_missing_config_test:
  assumes "de_files env 0 = no_config" "path \<noteq> []"
  shows "exits_with_config_error env path w ''not found''"
  using assms mentions_inside [of "[]" "''config:''" "'' config file not found: '' @ path @ [CHR 0x0A]"]
    mentions_inside [of "''config: config file ''" "''not found''" "'': '' @ path @ [CHR 0x0A]"]
  by (simp add: exits_with_config_error_def run_bossa_foreground_def daemon_main_def load_config_def no_config_def
      log_config_error_def)

section \<open>The reserved identity\<close>

lemma test_identity_test:
  "is_reserved_test_node kReservedTestNodeId" "\<not> is_reserved_test_node ''greenhouse-sensor-01''"
  "kReservedTestNodeId = ''bossa-test-00000000''"
  by (simp_all add: is_reserved_test_node_def kReservedTestNodeId_def)

end
