(* ===== verification/Spec2Isabelle.thy ===== *)
theory Spec2Isabelle
  imports RingBuffer Scheduler UploadPolicy HttpUploader CurlClient Config Devices Runtime Liveness Recovery
    Ledger Service Daemon Resilience Widths Humidity SmokeTool Mocks ComponentTests ServiceTests ProgramTests
begin

text \<open>
  BOSSA, the edge telemetry daemon. Sensors are polled on a schedule, their samples go through a bounded
  buffer, batches are uploaded over HTTP, and what cannot be uploaded is kept in an SQLite file and sent
  again later. All paths below are relative to \<open>src/\<close>.

  \<^bold>\<open>The program and how its parts interact.\<close> \<open>main\<close> (\<open>src/daemon_main.cpp\<close>) parses the command line, loads the
  configuration (\<open>src/core/config.cpp\<close>) and starts an \<open>EdgeService\<close>, a \<open>Service\<close> (\<open>src/core/service.cpp\<close>)
  whose virtual \<open>reload\<close> loads the file again and whose virtual \<open>loop\<close> runs one step of the
  \<open>TelemetryRuntime\<close> (\<open>src/runtime/telemetry_runtime.cpp\<close>) and sleeps until its next wake-up time. A step asks
  the \<open>Scheduler\<close> for the due channels, reads the driver of each, puts the samples into the \<open>RingBuffer\<close> and
  shows them to the \<open>UploadPolicy\<close>; when the policy says so it drains a batch into the \<open>HttpUploader\<close>,
  which posts it through an \<open>HttpClient\<close> and persists it in the \<open>LocalStore\<close> on a transient failure; last, it
  retries the oldest rows of the store when the backoff allows.

  \<^bold>\<open>Theories\<close>, bottom up. Records and datatypes have the members and constructors of the source, each
  operation is a function on the state of its class, usually paired with the world it runs in.

  \<^item> \<open>Prelude\<close>: lemma collections, lists, C arrays and strings, exceptions. \<open>Ieee754\<close>: binary32 and
    binary64 arithmetic with round-to-nearest-even on rationals, infinities and NaN.
  \<^item> \<open>Telemetry\<close>: \<open>include/bossa/telemetry/{channel,sample,stored_sample}.hpp\<close>. \<open>Interfaces\<close>: the locales of the
    queue, the scheduler, and the sample store.
  \<^item> \<open>RingBuffer\<close>, \<open>Scheduler\<close>: \<open>src/telemetry/\<close>. The buffer is the circular array of the source and refines a
    bounded priority queue on lists; the scheduler is proved against the deadlines of its channels.
  \<^item> \<open>Platform\<close>: the world, i.e. everything the program calls: clocks, SQLite, the disk, HTTP replies,
    JSON serialisation, I2C; each is a parameter and each call takes the next answer. \<open>Sqlite\<close>: the
    documented behaviour of statements by their texts, for any columns, orders and table definitions these name,
    as named laws; \<open>statement_texts\<close> shows that the texts in the program are such statements. A database named
    \<open>:memory:\<close> or not named is forgotten when it is closed. A reference engine satisfies the laws and may fail at
    any call.
  \<^item> \<open>LocalStore\<close> (\<open>src/storage/local_store.cpp\<close>), \<open>UploadPolicy\<close>, \<open>TimeFormat\<close>, \<open>HttpUploader\<close>
    (\<open>src/sync/\<close>), \<open>CurlClient\<close> (\<open>src/sync/curl_http_client.cpp\<close>).
  \<^item> \<open>Io\<close> (\<open>src/io/\<close>), \<open>Drivers\<close> (\<open>src/drivers/registry.cpp\<close>, \<open>drivers/sim\<close>, \<open>drivers/fake-*\<close>), \<open>Bme280\<close>
    (\<open>drivers/bme280\<close>), \<open>Humidity\<close> (its humidity formula over the integers, and a reading as a whole), \<open>Devices\<close>
    (the registered factories and the virtual calls on \<open>Driver\<close>).
  \<^item> \<open>Config\<close> (\<open>src/core/config.cpp\<close>): the loader over a YAML document tree.
  \<^item> \<open>Runtime\<close> (\<open>src/runtime/telemetry_runtime.cpp\<close>): \<open>telemetry_runtime\<close> has the members of the class,
    \<open>runtime_configure\<close>, \<open>poll_channel\<close>, \<open>maybe_flush\<close>, \<open>maybe_retry\<close>, \<open>tick\<close> and \<open>next_wake\<close> its methods, with the
    invariant \<open>runtime_wf\<close> and what each method leaves alone. \<open>Pipeline\<close>: its properties operation by
    operation; \<open>Liveness\<close>: the step as a whole; \<open>Recovery\<close>: an outage from the first failed upload to the
    retry that succeeds, and a batch that the server refuses for good.
  \<^item> \<open>Account\<close>: the abstract specification of the pipeline, a machine that takes samples in, sends batches, sets
    failed ones aside and sends them again, with the balance of its samples as its invariant. \<open>Ledger\<close>:
    each \<open>tick\<close> is a sequence of its steps (\<open>represents\<close>), so the balance holds for every \<open>run\<close> of calls.
  \<^item> \<open>Service\<close> (\<open>src/core/service.cpp\<close>): \<open>start\<close> as a state machine with one step for each access to a flag and
    each virtual call, interleaved with signals and requests (\<open>happen\<close>, \<open>service_reach\<close>). \<open>Daemon\<close>
    (\<open>src/daemon_main.cpp\<close>): the edge service as an interpretation of the locale of a service body, the command
    line and \<open>main\<close>. \<open>Resilience\<close>: the same service as a body that always returns, its turns as runs of the
    pipeline, and its behaviour during an outage. \<open>Widths\<close>: the arithmetic of the scheduler with every 64-bit
    addition checked (\<open>dispatch64\<close>, \<open>advance64\<close>, \<open>catch_up64\<close>), and how far every instant that the daemon keeps can
    lie ahead of its clock.
  \<^item> \<open>SmokeTool\<close> (\<open>src/tools/bme280_smoke_main.cpp\<close>). \<open>Mocks\<close> (\<open>tests/mocks\<close>): the test doubles keep the contracts
    that \<open>Io\<close> states for the bus and the lines.
  \<^item> \<open>ComponentTests\<close>, \<open>ServiceTests\<close>, \<open>ProgramTests\<close> (\<open>tests/\<close>): the test cases of the repository on the models. A case
    is a predicate, the conjunction of what it asserts and expects, and is proved to hold: by evaluation, for
    every clock, parser message or path it leaves open, and for the cases of the service over every
    interleaving they allow.

  \<^bold>\<open>What the lemmas show.\<close> Claims 1 to 9 are about the system: every sample is accounted for over any run, the
  step refines the abstract pipeline, an outage loses nothing, the daemon neither hangs nor crashes, its turns
  are runs of the pipeline, its invariant holds over all interleavings of signals and reloads, no reload is
  lost, a stop is prompt, and the flush ignores the backoff. 10 to 12: the buffer refines the priority queue,
  keeps order and accounts for every sample. 13 to 17: dispatch is exact, rate limited and accurate, where
  it hangs, and that its 64-bit arithmetic does not overflow. 18 to 21: the offline queue returns what was put in, loses, repeats and
  reorders nothing across failures, survives closing and reopening where its database is a file, and uses no
  identifier twice there. 22, 23: the policy equals its history specification. 24 to 27:
  timestamps, uploads, retries, and the batch that is refused for ever. 28 to 30: what configuring builds, down to the uploader and the settings of each channel, that a flush accounts for its batch, and that
  retries respect the backoff. 31 to 34: the spin after a failed reload, how the loop paces itself, what bad files do,
  the command line. 35: the set-up of the service is complete. 36, 37: loaded configurations are well formed, errors
  name the first bad channel. 38 to 40: the compensation formulas of the BME280, a whole reading of it, and GPIO handles.

  \<^bold>\<open>Parameters and hypotheses.\<close> Clocks are functions of the number of readings; where a property needs
  them not to go back it says \<open>mono_clock\<close>. \<open>sqlite_laws\<close> states what SQLite documents for statements of the kinds used,
  failures included; \<open>opening_works\<close> says that a database opens and takes its schema, \<open>insert_works\<close>, \<open>count_works\<close> and \<open>store_works\<close> say that statements succeed, \<open>reliable\<close> that moreover the store is open, \<open>usable_files\<close> that the files read
  neither make the YAML library throw nor have a rate outside 0.001 Hz to 1 GHz.
  \<open>w_dump\<close> is the JSON serialiser, which throws on text that is not UTF-8. \<open>yaml_cpp\<close> has the conversions
  of scalars, \<open>posix\<close> the answers of the system calls of \<open>daemonize\<close>. Every property with a hypothesis has a
  witness at a concrete instance.

  \<^bold>\<open>Bounds and fuel.\<close> The catch-up loop of the scheduler is a partial function whose missing value is the
  endless loop; no other loop needs fuel. The endless loop of the service is the sequence of events given to
  \<open>run_service\<close>, the one of the smoke tool is counted in turns. Times are unbounded integers of nanoseconds;
  \<open>Widths\<close> shows that this is no loss as long as the clock stays a thousand seconds below the end of \<open>int64_t\<close>,
  292 years on. \<open>retry_attempt_\<close> and the upload counter are unbounded as well, and so is the time of a row read back, which
  is that of a sample unless another program wrote the row (\<open>unix_ms_to_time\<close>). The arithmetic
  of the BME280 compensation, of the sampling period and of the sample index is kept at its width.

  \<^bold>\<open>Not modelled.\<close> The text of syslog lines; \<open>sd_notify\<close>; the mutexes of the registry and of the buffer; global initialisation of libcurl; what \<open>printf\<close> makes of a number;
  the \<open>fork\<close> and the pipe around the daemon in its integration test; the Cloudflare worker under \<open>workers/\<close>, which is
  not C++; scripts and build files. Running out of memory is not modelled. A sleep is an entry in
  a list: that a signal does not cut \<open>sleep_until\<close> short is not stated.
\<close>

end
